(* ===== verification/Prelude.thy ===== *)
theory Prelude
  imports Main "HOL-Library.Word" "HOL-Library.Char_ord" "HOL-Library.List_Lexorder"
begin

text \<open>
  What the component theories share: the machine integers of the Rust sources, results, bytes
  and strings, decimal text, UTF-8, and the ordered maps of the standard library.

  A Rust \<open>u64\<close> is a \<open>64 word\<close>; an \<open>i64\<close> is an \<open>int\<close> whose range is checked where the source
  converts. A byte is a \<open>char\<close> (HOL's characters are the 256 bytes) and both \<open>Vec<u8>\<close> and \<open>String\<close>
  are byte lists, a string being its UTF-8 encoding, so \<open>length\<close> counts what \<open>len()\<close> counts.
  A \<open>Result<T, E>\<close> is \<open>E + T\<close>, and \<open>?\<close> is \<open>rbind\<close>.
\<close>

named_theorems rust_simps \<open>evaluation of the standard-library operations\<close>

section \<open>Machine integers\<close>

type_synonym u8 = "8 word"
type_synonym u16 = "16 word"
type_synonym u32 = "32 word"
type_synonym u64 = "64 word"
type_synonym i64 = int

abbreviation i64_max :: i64 where "i64_max \<equiv> 9223372036854775807"
abbreviation i64_min :: i64 where "i64_min \<equiv> - 9223372036854775808"

text \<open>\<open>u64::try_from(usize)\<close>, \<open>i64::try_from(u64)\<close> and \<open>u64::try_from(i64)\<close>.\<close>

definition u64_of_len :: "nat \<Rightarrow> u64 option" where
  "u64_of_len n = (if n < 2 ^ 64 then Some (of_nat n) else None)"

definition i64_of_u64 :: "u64 \<Rightarrow> i64 option" where
  "i64_of_u64 w = (if uint w \<le> i64_max then Some (uint w) else None)"

definition u64_of_i64 :: "i64 \<Rightarrow> u64 option" where
  "u64_of_i64 n = (if 0 \<le> n \<and> n \<le> i64_max then Some (word_of_int n) else None)"

definition checked_add :: "u64 \<Rightarrow> u64 \<Rightarrow> u64 option" where
  "checked_add a b = (if unat a + unat b < 2 ^ 64 then Some (a + b) else None)"

definition saturating_add :: "u64 \<Rightarrow> u64 \<Rightarrow> u64" where
  "saturating_add a b = (if unat a + unat b < 2 ^ 64 then a + b else - 1)"

definition i64_saturating_add :: "i64 \<Rightarrow> i64 \<Rightarrow> i64" where
  "i64_saturating_add a b = max i64_min (min i64_max (a + b))"

lemma unat_u64_less [simp]: "unat (w :: u64) < 18446744073709551616"
  using unsigned_less[of w] by simp

lemma u64_of_len_Some [rust_simps]: "u64_of_len n = Some w \<longleftrightarrow> n < 2 ^ 64 \<and> unat w = n"
proof -
  have "unat (of_nat n :: u64) = n" if "n < 2 ^ 64"
    using that by (simp add: unat_of_nat)
  moreover have "of_nat (unat w) = w" by simp
  ultimately show ?thesis
    unfolding u64_of_len_def by (metis option.inject option.distinct(1))
qed

lemma u64_of_len_None [rust_simps]: "u64_of_len n = None \<longleftrightarrow> 2 ^ 64 \<le> n"
  by (auto simp: u64_of_len_def)

lemma checked_add_Some [rust_simps]:
  "checked_add a b = Some c \<longleftrightarrow> unat a + unat b < 2 ^ 64 \<and> unat c = unat a + unat b"
proof -
  have "unat (a + b) = unat a + unat b" if "unat a + unat b < 2 ^ 64"
    using that by (simp add: unat_word_ariths)
  then show ?thesis
    by (auto simp: checked_add_def word_unat_eq_iff)
qed

lemma checked_add_None [rust_simps]:
  "checked_add a b = None \<longleftrightarrow> 2 ^ 64 \<le> unat a + unat b"
  by (auto simp: checked_add_def)

lemma checked_add_one: "a \<noteq> - 1 \<Longrightarrow> checked_add a 1 = Some (a + 1)"
proof -
  assume "a \<noteq> - 1"
  then have "1 + a \<noteq> 0" by (metis add_eq_0_iff)
  then have "unat (1 + a) = Suc (unat a)" by (rule unatSuc)
  then show ?thesis using unat_u64_less[of "1 + a"]
    by (simp del: unat_u64_less add: checked_add_def add.commute)
qed

lemma unat_saturating_add [rust_simps]:
  "unat (saturating_add a b) = min (unat a + unat b) (2 ^ 64 - 1)"
  by (auto simp: saturating_add_def unat_word_ariths unsigned_minus_1_eq_mask mask_eq_exp_minus_1)

lemma u64_of_i64_inverse: "0 \<le> n \<Longrightarrow> n \<le> i64_max \<Longrightarrow> \<exists>w. u64_of_i64 n = Some w \<and> uint w = n"
  by (auto simp: u64_of_i64_def uint_word_of_int_eq take_bit_int_eq_self)

section \<open>Results\<close>

definition rbind :: "'e + 'a \<Rightarrow> ('a \<Rightarrow> 'e + 'b) \<Rightarrow> 'e + 'b" where
  "rbind m f = (case m of Inl e \<Rightarrow> Inl e | Inr x \<Rightarrow> f x)"

definition map_err :: "('e \<Rightarrow> 'f) \<Rightarrow> 'e + 'a \<Rightarrow> 'f + 'a" where
  "map_err f m = (case m of Inl e \<Rightarrow> Inl (f e) | Inr x \<Rightarrow> Inr x)"

definition ok_or :: "'e \<Rightarrow> 'a option \<Rightarrow> 'e + 'a" where
  "ok_or e m = (case m of None \<Rightarrow> Inl e | Some x \<Rightarrow> Inr x)"

definition ok_opt :: "'e + 'a \<Rightarrow> 'a option" where
  "ok_opt m = (case m of Inl _ \<Rightarrow> None | Inr x \<Rightarrow> Some x)"

text \<open>\<open>is_some_and\<close> and \<open>is_none_or\<close> of \<open>Option\<close>.\<close>

definition is_some_and :: "('a \<Rightarrow> bool) \<Rightarrow> 'a option \<Rightarrow> bool" where
  "is_some_and P m = (case m of None \<Rightarrow> False | Some x \<Rightarrow> P x)"

definition is_none_or :: "('a \<Rightarrow> bool) \<Rightarrow> 'a option \<Rightarrow> bool" where
  "is_none_or P m = (case m of None \<Rightarrow> True | Some x \<Rightarrow> P x)"

lemma rbind_simps [simp]: "rbind (Inl e) f = Inl e" "rbind (Inr x) f = f x"
  by (simp_all add: rbind_def)

lemma rbind_eq_Inr [simp]: "rbind m f = Inr y \<longleftrightarrow> (\<exists>x. m = Inr x \<and> f x = Inr y)"
  by (cases m) simp_all

lemma rbind_split: "P (rbind m f) \<longleftrightarrow> (\<forall>e. m = Inl e \<longrightarrow> P (Inl e)) \<and> (\<forall>x. m = Inr x \<longrightarrow> P (f x))"
  by (cases m) simp_all

lemma map_err_simps [simp]: "map_err f (Inl e) = Inl (f e)" "map_err f (Inr x) = Inr x"
  by (simp_all add: map_err_def)

lemma map_err_eq_Inr [simp]: "map_err f m = Inr y \<longleftrightarrow> m = Inr y"
  by (cases m) simp_all

lemma ok_or_simps [simp]: "ok_or e None = Inl e" "ok_or e (Some x) = Inr x"
  by (simp_all add: ok_or_def)

lemma ok_or_eq_Inr [simp]: "ok_or e m = Inr y \<longleftrightarrow> m = Some y"
  by (cases m) simp_all

lemma ok_opt_simps [simp]: "ok_opt (Inl e) = None" "ok_opt (Inr x) = Some x"
  by (simp_all add: ok_opt_def)

lemma ok_opt_eq_Some [simp]: "ok_opt m = Some y \<longleftrightarrow> m = Inr y"
  by (cases m) simp_all

lemma is_some_and_simps [simp]: "is_some_and P None = False" "is_some_and P (Some x) = P x"
  by (simp_all add: is_some_and_def)

lemma is_none_or_simps [simp]: "is_none_or P None = True" "is_none_or P (Some x) = P x"
  by (simp_all add: is_none_or_def)

lemma is_some_and_iff: "is_some_and P m \<longleftrightarrow> (\<exists>x. m = Some x \<and> P x)"
  by (cases m) simp_all

text \<open>A loop whose body may return early with an error, and \<open>collect::<Result<Vec<_>, _>>()\<close>.\<close>

primrec for_each :: "('a \<Rightarrow> 'e + unit) \<Rightarrow> 'a list \<Rightarrow> 'e + unit" where
  "for_each f [] = Inr ()"
| "for_each f (x # xs) = rbind (f x) (\<lambda>_. for_each f xs)"

primrec collect_results :: "('e + 'a) list \<Rightarrow> 'e + 'a list" where
  "collect_results [] = Inr []"
| "collect_results (r # rs) = rbind r (\<lambda>x. rbind (collect_results rs) (\<lambda>xs. Inr (x # xs)))"

lemma for_each_Inr [simp]: "for_each f xs = Inr u \<longleftrightarrow> (\<forall>x \<in> set xs. f x = Inr ())"
  by (induction xs) auto

lemma collect_results_Inr: "collect_results rs = Inr xs \<longleftrightarrow> rs = map Inr xs"
  by (induction rs arbitrary: xs) auto

lemma collect_results_map_Inr [simp]: "collect_results (map Inr xs) = Inr xs"
  by (simp add: collect_results_Inr)

section \<open>Bytes and strings\<close>

type_synonym byte = char
type_synonym bytes = "byte list"

abbreviation byte_val :: "byte \<Rightarrow> nat" where "byte_val \<equiv> of_char"

definition is_ascii_digit :: "byte \<Rightarrow> bool" where
  "is_ascii_digit b \<longleftrightarrow> 48 \<le> byte_val b \<and> byte_val b \<le> 57"

definition is_ascii_control :: "byte \<Rightarrow> bool" where
  "is_ascii_control b \<longleftrightarrow> byte_val b < 32 \<or> byte_val b = 127"

definition is_ascii :: "bytes \<Rightarrow> bool" where
  "is_ascii s \<longleftrightarrow> list_all (\<lambda>b. byte_val b < 128) s"

definition starts_with :: "string \<Rightarrow> string \<Rightarrow> bool" where
  "starts_with s prefix \<longleftrightarrow> take (length prefix) s = prefix"

definition strip_prefix :: "string \<Rightarrow> string \<Rightarrow> string option" where
  "strip_prefix s prefix = (if starts_with s prefix then Some (drop (length prefix) s) else None)"

definition strip_suffix :: "string \<Rightarrow> string \<Rightarrow> string option" where
  "strip_suffix s suffix =
     (if length suffix \<le> length s \<and> drop (length s - length suffix) s = suffix
      then Some (take (length s - length suffix) s) else None)"

lemma starts_with_iff: "starts_with s p \<longleftrightarrow> (\<exists>r. s = p @ r)"
  by (metis append_eq_conv_conj starts_with_def append_take_drop_id)

lemma strip_prefix_Some [simp]: "strip_prefix s p = Some r \<longleftrightarrow> s = p @ r"
  by (auto simp: strip_prefix_def starts_with_iff)

lemma strip_prefix_None: "strip_prefix s p = None \<longleftrightarrow> (\<nexists>r. s = p @ r)"
  by (auto simp: strip_prefix_def starts_with_iff)

lemma strip_suffix_Some [simp]: "strip_suffix s q = Some r \<longleftrightarrow> s = r @ q"
  by (auto simp: strip_suffix_def) (metis append_take_drop_id)

subsection \<open>Decimal text\<close>

text \<open>\<open>to_string\<close> and \<open>parse::<u64>\<close> of unsigned integers, with the parser's three messages.\<close>

definition digit :: "nat \<Rightarrow> byte" where
  "digit d = char_of (48 + d)"

fun show_nat :: "nat \<Rightarrow> string" where
  "show_nat n = (if n < 10 then [digit n] else show_nat (n div 10) @ [digit (n mod 10)])"

declare show_nat.simps [simp del]

definition show_u64 :: "u64 \<Rightarrow> string" where
  "show_u64 w = show_nat (unat w)"

fun parse_digits :: "nat \<Rightarrow> string \<Rightarrow> string + nat" where
  "parse_digits acc [] = Inr acc"
| "parse_digits acc (c # cs) =
     (if \<not> is_ascii_digit c then Inl ''invalid digit found in string''
      else let n = 10 * acc + (byte_val c - 48) in
        if n < 2 ^ 64 then parse_digits n cs
        else Inl ''number too large to fit in target type'')"

definition parse_u64 :: "string \<Rightarrow> string + u64" where
  "parse_u64 s =
     (if s = [] then Inl ''cannot parse integer from empty string''
      else if s = ''+'' then Inl ''invalid digit found in string''
      else map_sum id of_nat (parse_digits 0 (case strip_prefix s ''+'' of Some r \<Rightarrow> r | None \<Rightarrow> s)))"

lemma byte_val_digit [simp]: "d < 10 \<Longrightarrow> byte_val (digit d) = 48 + d"
  by (simp add: digit_def)

lemma is_ascii_digit_digit [simp]: "d < 10 \<Longrightarrow> is_ascii_digit (digit d)"
  by (simp add: is_ascii_digit_def)

lemma parse_digits_snoc:
  "parse_digits acc (s @ [digit d]) =
     rbind (parse_digits acc s) (\<lambda>n. if 10 * n + d < 2 ^ 64 then Inr (10 * n + d)
        else Inl ''number too large to fit in target type'')" if "d < 10"
  using that by (induction acc s rule: parse_digits.induct) (auto simp: Let_def)

lemma parse_show_nat: "n < 2 ^ 64 \<Longrightarrow> parse_digits 0 (show_nat n) = Inr n"
proof (induction n rule: show_nat.induct)
  case (1 n)
  show ?case
  proof (cases "n < 10")
    case True
    then show ?thesis by (simp add: show_nat.simps)
  next
    case False
    with 1 have "parse_digits 0 (show_nat (n div 10)) = Inr (n div 10)" by simp
    with False \<open>n < 2 ^ 64\<close> show ?thesis
      by (subst show_nat.simps) (simp add: parse_digits_snoc)
  qed
qed

lemma show_nat_digits: "c \<in> set (show_nat n) \<Longrightarrow> is_ascii_digit c"
proof (induction n rule: show_nat.induct)
  case (1 n)
  then show ?case by (subst (asm) (2) show_nat.simps) (auto split: if_splits)
qed

lemma show_nat_nonempty [simp]: "show_nat n \<noteq> []"
  by (subst show_nat.simps) simp

lemma parse_show_u64 [simp]: "parse_u64 (show_u64 w) = Inr w"
proof -
  have "CHR ''+'' \<notin> set (show_nat (unat w))"
    using show_nat_digits[of "CHR ''+''" "unat w"] by (auto simp: is_ascii_digit_def)
  then have "strip_prefix (show_nat (unat w)) ''+'' = None" and "show_nat (unat w) \<noteq> ''+''"
    by (auto simp: strip_prefix_None)
  then show ?thesis
    using parse_show_nat[of "unat w"] by (simp add: parse_u64_def show_u64_def)
qed

lemma show_u64_inject [simp]: "show_u64 a = show_u64 b \<longleftrightarrow> a = b"
  by (metis parse_show_u64 sum.inject(2))

subsection \<open>UTF-8\<close>

text \<open>
  \<open>utf8_head\<close> reads one character off the front of a byte list as \<open>std\<close>'s decoder does: whether it is
  well formed and how many bytes it takes, an ill-formed sequence being its maximal prefix that could
  have begun a character. \<open>utf8_chunks\<close> are the characters of \<open>String::from_utf8_lossy\<close>, each in
  its own encoding, the replacement character standing for every ill-formed sequence; on a well-formed
  string they are its \<open>chars()\<close>.
\<close>

definition is_cont :: "nat \<Rightarrow> bool" where
  "is_cont b \<longleftrightarrow> 128 \<le> b \<and> b < 192"

definition utf8_second3 :: "nat \<Rightarrow> nat \<Rightarrow> bool" where
  "utf8_second3 a b \<longleftrightarrow>
     (a = 224 \<and> 160 \<le> b \<and> b < 192) \<or> (225 \<le> a \<and> a \<le> 236 \<and> is_cont b) \<or>
     (a = 237 \<and> 128 \<le> b \<and> b < 160) \<or> (238 \<le> a \<and> a \<le> 239 \<and> is_cont b)"

definition utf8_second4 :: "nat \<Rightarrow> nat \<Rightarrow> bool" where
  "utf8_second4 a b \<longleftrightarrow>
     (a = 240 \<and> 144 \<le> b \<and> b < 192) \<or> (241 \<le> a \<and> a \<le> 243 \<and> is_cont b) \<or>
     (a = 244 \<and> 128 \<le> b \<and> b < 144)"

definition byte_at :: "bytes \<Rightarrow> nat \<Rightarrow> nat" where
  "byte_at s i = (if i < length s then byte_val (s ! i) else 0)"

definition utf8_head :: "bytes \<Rightarrow> bool \<times> nat" where
  "utf8_head s =
     (let a = byte_at s 0; b = byte_at s 1; c = byte_at s 2; d = byte_at s 3 in
      if a < 128 then (True, 1)
      else if 194 \<le> a \<and> a \<le> 223 then (if is_cont b then (True, 2) else (False, 1))
      else if 224 \<le> a \<and> a \<le> 239 then
        (if \<not> utf8_second3 a b then (False, 1) else if is_cont c then (True, 3) else (False, 2))
      else if 240 \<le> a \<and> a \<le> 244 then
        (if \<not> utf8_second4 a b then (False, 1) else if \<not> is_cont c then (False, 2)
         else if is_cont d then (True, 4) else (False, 3))
      else (False, 1))"

definition replacement_char :: bytes where
  "replacement_char = [char_of (239::nat), char_of (191::nat), char_of (189::nat)]"

lemma utf8_head_pos: "0 < snd (utf8_head s)"
  by (simp add: utf8_head_def Let_def)

function utf8_chunks :: "bytes \<Rightarrow> bytes list" where
  "utf8_chunks [] = []"
| "utf8_chunks (x # xs) =
     (let (ok, k) = utf8_head (x # xs) in
      (if ok then take k (x # xs) else replacement_char) # utf8_chunks (drop k (x # xs)))"
  by pat_completeness auto
termination
proof (relation "measure length")
  fix x xs ok k p
  assume "p = utf8_head (x # xs)" and "(ok, k) = p"
  then have "0 < k" using utf8_head_pos[of "x # xs"] by (metis snd_conv)
  then show "(drop k (x # xs), x # xs) \<in> measure length" by simp
qed simp

definition from_utf8_lossy :: "bytes \<Rightarrow> string" where
  "from_utf8_lossy s = concat (utf8_chunks s)"

definition take_chars :: "nat \<Rightarrow> string \<Rightarrow> string" where
  "take_chars n s = concat (take n (utf8_chunks s))"

definition wf_char :: "bytes \<Rightarrow> bool" where
  "wf_char c \<longleftrightarrow> c \<noteq> [] \<and> utf8_head c = (True, length c)"

lemma wf_char_replacement [simp]: "wf_char replacement_char"
  by (simp add: wf_char_def replacement_char_def utf8_head_def byte_at_def utf8_second3_def
      is_cont_def Let_def)

lemma byte_at_append [simp]: "i < length s \<Longrightarrow> byte_at (s @ t) i = byte_at s i"
  by (simp add: byte_at_def nth_append)

lemma byte_at_take: "i < n \<Longrightarrow> byte_at (take n s) i = byte_at s i"
  by (simp add: byte_at_def)

lemma byte_at_beyond [simp]: "length s \<le> i \<Longrightarrow> byte_at s i = 0"
  by (simp add: byte_at_def)

lemma utf8_head_le: "s \<noteq> [] \<Longrightarrow> utf8_head s = (True, k) \<Longrightarrow> k \<le> length s"
  by (rule ccontr)
    (auto simp: utf8_head_def Let_def is_cont_def not_le less_Suc_eq_le numeral_eq_Suc
      split: if_splits)

lemma utf8_head_cong:
  assumes "\<And>i. i < k \<Longrightarrow> byte_at t i = byte_at s i" and "utf8_head s = (True, k)"
  shows "utf8_head t = (True, k)"
proof -
  have "k = 1 \<or> k = 2 \<or> k = 3 \<or> k = 4"
    using assms(2) by (auto simp: utf8_head_def Let_def split: if_splits)
  then show ?thesis
    using assms by (elim disjE) (auto simp: utf8_head_def Let_def split: if_splits)
qed

lemma utf8_head_append: "wf_char c \<Longrightarrow> utf8_head (c @ s) = (True, length c)"
  unfolding wf_char_def by (rule utf8_head_cong[of "length c" _ c]) simp_all

lemma utf8_chunks_wf: "c \<in> set (utf8_chunks s) \<Longrightarrow> wf_char c"
proof (induction s rule: utf8_chunks.induct)
  case (2 x xs)
  obtain ok k where h: "utf8_head (x # xs) = (ok, k)" by fastforce
  have "wf_char (take k (x # xs))" if "ok"
  proof -
    have "utf8_head (take k (x # xs)) = (True, k)"
      by (rule utf8_head_cong[of k _ "x # xs"]) (use h that in \<open>simp_all add: byte_at_take\<close>)
    moreover have "k \<le> length (x # xs)" using utf8_head_le[of "x # xs" k] h that by simp
    moreover have "0 < k" using utf8_head_pos[of "x # xs"] h by simp
    ultimately show ?thesis by (simp add: wf_char_def min_absorb2)
  qed
  with 2 h show ?case by (auto split: if_splits)
qed simp

lemma utf8_chunks_concat: "\<forall>c \<in> set cs. wf_char c \<Longrightarrow> utf8_chunks (concat cs) = cs"
proof (induction cs)
  case (Cons c cs)
  then obtain x xs where c: "c = x # xs" by (auto simp: wf_char_def neq_Nil_conv)
  then show ?case
    using Cons utf8_head_append[of c "concat cs"] by simp
qed simp

lemma from_utf8_lossy_idem [simp]: "from_utf8_lossy (from_utf8_lossy s) = from_utf8_lossy s"
  by (simp add: from_utf8_lossy_def utf8_chunks_concat utf8_chunks_wf)

lemma utf8_chunks_take_chars: "utf8_chunks (take_chars n s) = take n (utf8_chunks s)"
  unfolding take_chars_def by (rule utf8_chunks_concat) (auto dest: in_set_takeD utf8_chunks_wf)

subsection \<open>White space and signed numbers\<close>

text \<open>The white space of Unicode, by the bytes of a character.\<close>

definition is_whitespace :: "bytes \<Rightarrow> bool" where
  "is_whitespace c \<longleftrightarrow> (case map byte_val c of
       [a] \<Rightarrow> 9 \<le> a \<and> a \<le> 13 \<or> a = 32
     | [a, b] \<Rightarrow> a = 194 \<and> (b = 133 \<or> b = 160)
     | [a, b, c] \<Rightarrow> (a, b, c) = (225, 154, 128) \<or> a = 226 \<and> b = 128 \<and> (128 \<le> c \<and> c \<le> 138 \<or> c \<in> {168, 169, 175}) \<or>
         (a, b, c) = (226, 129, 159) \<or> (a, b, c) = (227, 128, 128)
     | _ \<Rightarrow> False)"

definition is_blank :: "string \<Rightarrow> bool" where
  "is_blank s = list_all is_whitespace (utf8_chunks s)"

text \<open>\<open>split_whitespace().count()\<close>: a word starts at a character after white space or at the beginning.\<close>

primrec words_in :: "bool \<Rightarrow> bytes list \<Rightarrow> nat" where
  "words_in inside [] = 0"
| "words_in inside (c # cs) =
     (if is_whitespace c then words_in False cs else (if inside then 0 else 1) + words_in True cs)"

definition word_count :: "string \<Rightarrow> nat" where
  "word_count s = words_in False (utf8_chunks s)"

definition show_i64 :: "i64 \<Rightarrow> string" where
  "show_i64 n = (if n < 0 then ''-'' @ show_nat (nat (- n)) else show_nat (nat n))"

definition i64_checked_add :: "i64 \<Rightarrow> i64 \<Rightarrow> i64 option" where
  "i64_checked_add a b = (if i64_min \<le> a + b \<and> a + b \<le> i64_max then Some (a + b) else None)"

section \<open>Ordered maps\<close>

text \<open>A \<open>BTreeMap\<close> is the list of its entries in key order.\<close>

type_synonym ('k, 'v) btree = "('k \<times> 'v) list"

abbreviation btree_get :: "('k, 'v) btree \<Rightarrow> 'k \<rightharpoonup> 'v" where
  "btree_get \<equiv> map_of"

primrec btree_insert :: "'k::linorder \<Rightarrow> 'v \<Rightarrow> ('k, 'v) btree \<Rightarrow> ('k, 'v) btree" where
  "btree_insert k v [] = [(k, v)]"
| "btree_insert k v (p # ps) =
     (if k < fst p then (k, v) # p # ps
      else if k = fst p then (k, v) # ps
      else p # btree_insert k v ps)"

definition btree_remove :: "'k \<Rightarrow> ('k, 'v) btree \<Rightarrow> ('k, 'v) btree" where
  "btree_remove k m = filter (\<lambda>p. fst p \<noteq> k) m"

definition btree_of :: "('k::linorder \<times> 'v) list \<Rightarrow> ('k, 'v) btree" where
  "btree_of ps = fold (\<lambda>(k, v). btree_insert k v) ps []"

definition btree_wf :: "('k::linorder, 'v) btree \<Rightarrow> bool" where
  "btree_wf m \<longleftrightarrow> sorted_wrt (<) (map fst m)"

lemma btree_insert_keys [simp]: "fst ` set (btree_insert k v m) = insert k (fst ` set m)"
  by (induction m) auto

lemma btree_wf_Nil [simp]: "btree_wf []"
  by (simp add: btree_wf_def)

lemma btree_wf_insert [simp]: "btree_wf m \<Longrightarrow> btree_wf (btree_insert k v m)"
proof (induction m)
  case (Cons p ps)
  then have "\<forall>x \<in> fst ` set (btree_insert k v ps). fst p < x" if "fst p < k"
    using that unfolding btree_insert_keys by (auto simp: btree_wf_def)
  with Cons show ?case by (auto simp: btree_wf_def)
qed (simp add: btree_wf_def)

lemma btree_wf_remove [simp]: "btree_wf m \<Longrightarrow> btree_wf (btree_remove k m)"
  unfolding btree_wf_def btree_remove_def by (induction m) auto

lemma btree_get_insert [simp]: "btree_wf m \<Longrightarrow> btree_get (btree_insert k v m) = (btree_get m)(k \<mapsto> v)"
proof (induction m)
  case (Cons p ps)
  then show ?case by (auto simp: btree_wf_def fun_eq_iff)
qed simp

lemma btree_get_remove [simp]: "btree_get (btree_remove k m) = (btree_get m)(k := None)"
  unfolding btree_remove_def by (induction m) (auto simp: fun_eq_iff)

lemma btree_wf_of_aux: "btree_wf m \<Longrightarrow> btree_wf (fold (\<lambda>(k, v). btree_insert k v) ps m)"
  by (induction ps arbitrary: m) auto

lemma btree_wf_of [simp]: "btree_wf (btree_of ps)"
  by (simp add: btree_of_def btree_wf_of_aux)

lemma btree_get_of_aux:
  "btree_wf m \<Longrightarrow> btree_get (fold (\<lambda>(k, v). btree_insert k v) ps m) = btree_get m ++ map_of (rev ps)"
  by (induction ps arbitrary: m) (auto simp: map_add_def fun_eq_iff split: option.splits)

lemma btree_get_of [simp]: "btree_get (btree_of ps) = map_of (rev ps)"
  by (simp add: btree_of_def btree_get_of_aux)

lemma map_of_rev_distinct: "distinct (map fst ps) \<Longrightarrow> map_of (rev ps) = map_of ps"
proof (induction ps)
  case (Cons p ps)
  then have "map_of ps (fst p) = None" by (simp add: map_of_eq_None_iff)
  with Cons show ?case by (auto simp: map_add_def fun_eq_iff split: option.splits)
qed simp

lemma btree_wf_distinct: "btree_wf m \<Longrightarrow> distinct (map fst m)"
  by (simp add: btree_wf_def strict_sorted_iff)

lemma btree_ext:
  assumes "btree_wf a" "btree_wf b" and "btree_get a = btree_get b"
  shows "a = b"
proof -
  have d: "distinct (map fst a)" "distinct (map fst b)" using assms(1,2) by (simp_all add: btree_wf_distinct)
  have eq: "set a = set b"
    using map_of_eq_Some_iff[OF d(1)] map_of_eq_Some_iff[OF d(2)] assms(3) by (simp add: set_eq_iff)
  have "inj_on fst (set a \<union> set b)" using d(1) by (simp add: eq[symmetric] distinct_map)
  moreover have "sorted (map fst a)" "sorted (map fst b)"
    using assms(1,2) by (simp_all add: btree_wf_def strict_sorted_iff)
  ultimately show ?thesis using d eq by (intro map_sorted_distinct_set_unique)
qed

section \<open>Lists\<close>

lemma find_map_comp: "find P (map f xs) = map_option f (find (\<lambda>x. P (f x)) xs)"
  by (induction xs) simp_all

lemma find_filter_and: "find P (filter Q xs) = find (\<lambda>x. Q x \<and> P x) xs"
  by (induction xs) simp_all

lemma find_SomeD: "find P xs = Some x \<Longrightarrow> x \<in> set xs \<and> P x"
  by (induction xs) (auto split: if_splits)

text \<open>What follows the n-th element of a strictly sorted list.\<close>

lemma after_sorted:
  fixes f :: "'a \<Rightarrow> 'b::linorder"
  assumes "sorted_wrt (<) (map f xs)" and "0 < n" and "n \<le> length xs"
  shows "filter (\<lambda>x. f (xs ! (n - 1)) < f x) xs = drop n xs"
proof -
  have "\<not> f (xs ! (n - 1)) < f x" if mem: "x \<in> set (take n xs)" for x
  proof -
    obtain i where i: "i < n" "x = xs ! i" using mem assms(3) by (auto simp: in_set_conv_nth)
    show ?thesis
    proof (cases "i = n - 1")
      case False
      then have "f (xs ! i) < f (xs ! (n - 1))"
        using sorted_wrt_nth_less[OF assms(1), of i "n - 1"] i assms(2,3) by simp
      with i show ?thesis by simp
    qed (use i in simp)
  qed
  moreover have "f (xs ! (n - 1)) < f x" if mem: "x \<in> set (drop n xs)" for x
  proof -
    obtain j where j: "j < length xs - n" "x = xs ! (n + j)" using mem by (auto simp: in_set_conv_nth)
    show ?thesis using sorted_wrt_nth_less[OF assms(1), of "n - 1" "n + j"] j assms(2) by simp
  qed
  ultimately have "filter (\<lambda>x. f (xs ! (n - 1)) < f x) (take n xs @ drop n xs) = drop n xs"
    unfolding filter_append by (simp add: filter_empty_conv filter_id_conv)
  then show ?thesis by simp
qed

lemma filter_not_drop:
  assumes "filter P xs = drop n xs" and "distinct xs"
  shows "filter (\<lambda>x. \<not> P x) xs = take n xs"
proof -
  have "\<And>x. x \<in> set (drop n xs) \<Longrightarrow> P x" using assms(1) by (metis mem_Collect_eq set_filter)
  moreover have "\<not> P x" if x: "x \<in> set (take n xs)" for x
  proof
    assume "P x"
    then have "x \<in> set (filter P xs)" using x by (auto dest: in_set_takeD)
    then have "x \<in> set (drop n xs)" by (simp only: assms(1))
    moreover have "set (take n xs) \<inter> set (drop n xs) = {}" using assms(2) by (simp add: set_take_disj_set_drop_if_distinct)
    ultimately show False using x by blast
  qed
  ultimately have "filter (\<lambda>x. \<not> P x) (take n xs @ drop n xs) = take n xs"
    unfolding filter_append by (simp add: filter_empty_conv filter_id_conv)
  then show ?thesis by simp
qed

text \<open>The elements of a strictly sorted list up to the last of its first n are those n.\<close>

lemma upto_sorted:
  fixes f :: "'a \<Rightarrow> 'b::linorder"
  assumes "sorted_wrt (<) (map f xs)" and "take n xs \<noteq> []"
  shows "filter (\<lambda>x. f x \<le> f (last (take n xs))) xs = take n xs"
proof -
  have n: "0 < n" "xs \<noteq> []" using assms(2) by auto
  let ?m = "min n (length xs)"
  have last: "last (take n xs) = xs ! (?m - 1)" using n by (simp add: last_conv_nth min_def)
  have "filter (\<lambda>x. f (xs ! (?m - 1)) < f x) xs = drop ?m xs" by (rule after_sorted[OF assms(1)]) (use n in auto)
  then have "filter (\<lambda>x. \<not> f (xs ! (?m - 1)) < f x) xs = take ?m xs"
    using assms(1) by (intro filter_not_drop) (simp_all add: strict_sorted_iff distinct_map)
  then show ?thesis unfolding last by (simp add: not_less min_def)
qed

end
