(* ===== verification/Events.thy ===== *)
theory Events
  imports Prelude
begin

text \<open>
  The event model of \<open>pluribus-core\<close>: principals, blob references, the event a caller proposes
  (\<open>AppendRequest\<close>), the one a store commits (\<open>CommittedEvent\<close>), and the metadata filter of history
  reads (\<open>EventQuery\<close>), with the checks every store makes before it writes.
\<close>

section \<open>Identity\<close>

datatype principal_kind = Human | Agent | Node | Component | External

record principal_ref =
  pr_kind :: principal_kind
  pr_id :: string

definition new_principal :: "principal_kind \<Rightarrow> string \<Rightarrow> principal_ref" where
  "new_principal k i = \<lparr>pr_kind = k, pr_id = i\<rparr>"

type_synonym event_id = string
type_synonym stream_id = string
type_synonym authority_id = string

section \<open>Events\<close>

datatype stream_kind = AgentStream | NodeStream

record blob_ref =
  algorithm :: string
  digest :: string
  blob_size :: u64
  media_type :: string

datatype event_payload = CanonicalJson bytes | Blob blob_ref

record append_request =
  stream_id :: stream_id
  stream_kind :: stream_kind
  observed_at_ms :: "i64 option"
  event_type :: string
  payload_schema :: string
  payload :: event_payload
  actor :: principal_ref
  authority_id :: "authority_id option"
  activity_id :: "string option"
  correlation_id :: "string option"
  causation_id :: "event_id option"
  deduplication_key :: "string option"

record committed_event =
  schema :: string
  event_id :: event_id
  sequence :: u64
  recorded_at_ms :: i64
  request :: append_request

definition event_schema :: string where
  "event_schema = ''pluribus.event/1''"

datatype append_error = InvalidEvent string | AppendStorage string

definition append_error_display :: "append_error \<Rightarrow> string" where
  "append_error_display e = (case e of
       InvalidEvent m \<Rightarrow> ''invalid event: '' @ m
     | AppendStorage m \<Rightarrow> ''event storage failed: '' @ m)"

section \<open>Blob references\<close>

datatype blob_error =
    BlobNotFound
  | BlobConflict u64 u64 \<comment> \<open>expected offset, actual offset\<close>
  | BlobInvalid string
  | ResourceExhausted string
  | Corrupt string
  | BlobStorage string

definition blob_error_display :: "blob_error \<Rightarrow> string" where
  "blob_error_display e = (case e of
       BlobNotFound \<Rightarrow> ''blob or upload not found''
     | BlobConflict x y \<Rightarrow> ''blob offset conflict: expected '' @ show_u64 x @ '', got '' @ show_u64 y
     | BlobInvalid m \<Rightarrow> ''invalid blob operation: '' @ m
     | ResourceExhausted m \<Rightarrow> ''blob resource exhausted: '' @ m
     | Corrupt m \<Rightarrow> ''corrupt blob: '' @ m
     | BlobStorage m \<Rightarrow> ''blob storage failed: '' @ m)"

definition sha256_algorithm :: string where
  "sha256_algorithm = ''sha256''"

definition validate_media_type :: "string \<Rightarrow> blob_error + unit" where
  "validate_media_type m =
     (if m = [] \<or> \<not> is_ascii m \<or> list_ex is_ascii_control m
      then Inl (BlobInvalid ''media type must be non-empty ASCII'') else Inr ())"

definition is_lower_hex :: "byte \<Rightarrow> bool" where
  "is_lower_hex b \<longleftrightarrow> is_ascii_digit b \<or> (97 \<le> byte_val b \<and> byte_val b \<le> 102)"

definition validate_blob_ref :: "blob_ref \<Rightarrow> blob_error + unit" where
  "validate_blob_ref b =
     (if algorithm b \<noteq> sha256_algorithm then Inl (BlobInvalid ''unsupported digest algorithm'')
      else if length (digest b) \<noteq> 64 \<or> \<not> list_all is_lower_hex (digest b)
      then Inl (BlobInvalid ''SHA-256 digest must be 64 lowercase hexadecimal characters'')
      else validate_media_type (media_type b))"

section \<open>Validation of a proposed event\<close>

definition validate_append :: "append_request \<Rightarrow> append_error + unit" where
  "validate_append r =
     (if stream_id r = [] then Inl (InvalidEvent ''stream ID is empty'')
      else if event_type r = [] then Inl (InvalidEvent ''event type is empty'')
      else if payload_schema r = [] then Inl (InvalidEvent ''payload schema is empty'')
      else if is_some_and (\<lambda>k. k = []) (deduplication_key r)
      then Inl (InvalidEvent ''deduplication key is empty'')
      else case payload r of
          Blob b \<Rightarrow> map_err (\<lambda>e. InvalidEvent (blob_error_display e)) (validate_blob_ref b)
        | CanonicalJson _ \<Rightarrow> Inr ())"

section \<open>Queries\<close>

record event_query =
  after_sequence :: "u64 option"
  before_sequence :: "u64 option"
  event_types :: "string list"
  text_query :: "string option"
  descending :: bool
  q_correlation_id :: "string option"
  q_activity_id :: "string option"
  recorded_from_ms :: "i64 option"
  recorded_to_ms :: "i64 option"

definition default_query :: event_query where
  "default_query = \<lparr>after_sequence = None, before_sequence = None, event_types = [],
     text_query = None, descending = False, q_correlation_id = None, q_activity_id = None,
     recorded_from_ms = None, recorded_to_ms = None\<rparr>"

definition query_matches :: "event_query \<Rightarrow> committed_event \<Rightarrow> bool" where
  "query_matches q e =
     (if is_some_and (\<lambda>after. sequence e \<le> after) (after_sequence q) then False
      else if is_some_and (\<lambda>before. before \<le> sequence e) (before_sequence q) then False
      else if event_types q \<noteq> [] \<and> \<not> list_ex (\<lambda>t. t = event_type (request e)) (event_types q)
      then False
      else if q_correlation_id q \<noteq> None \<and> q_correlation_id q \<noteq> correlation_id (request e) then False
      else if q_activity_id q \<noteq> None \<and> q_activity_id q \<noteq> activity_id (request e) then False
      else if is_some_and (\<lambda>from_ms. recorded_at_ms e < from_ms) (recorded_from_ms q) then False
      else if is_some_and (\<lambda>to_ms. to_ms < recorded_at_ms e) (recorded_to_ms q) then False
      else True)"

section \<open>Facts\<close>

lemma validate_media_type_Inr:
  "validate_media_type m = Inr u \<longleftrightarrow>
     m \<noteq> [] \<and> is_ascii m \<and> (\<forall>b \<in> set m. \<not> is_ascii_control b)"
  by (auto simp: validate_media_type_def list_ex_iff)

lemma validate_blob_ref_Inr:
  "validate_blob_ref b = Inr u \<longleftrightarrow>
     algorithm b = sha256_algorithm \<and> length (digest b) = 64 \<and> list_all is_lower_hex (digest b) \<and>
     validate_media_type (media_type b) = Inr u"
  by (auto simp: validate_blob_ref_def)

lemma validate_append_Inr:
  "validate_append r = Inr u \<longleftrightarrow>
     stream_id r \<noteq> [] \<and> event_type r \<noteq> [] \<and> payload_schema r \<noteq> [] \<and>
     deduplication_key r \<noteq> Some [] \<and> (\<forall>b. payload r = Blob b \<longrightarrow> validate_blob_ref b = Inr ())"
  by (cases "deduplication_key r"; cases "payload r") (auto simp: validate_append_def)

lemma query_matches_iff:
  "query_matches q e \<longleftrightarrow>
     (\<forall>a. after_sequence q = Some a \<longrightarrow> a < sequence e) \<and>
     (\<forall>b. before_sequence q = Some b \<longrightarrow> sequence e < b) \<and>
     (event_types q = [] \<or> event_type (request e) \<in> set (event_types q)) \<and>
     (q_correlation_id q = None \<or> q_correlation_id q = correlation_id (request e)) \<and>
     (q_activity_id q = None \<or> q_activity_id q = activity_id (request e)) \<and>
     (\<forall>t. recorded_from_ms q = Some t \<longrightarrow> t \<le> recorded_at_ms e) \<and>
     (\<forall>t. recorded_to_ms q = Some t \<longrightarrow> recorded_at_ms e \<le> t)"
  unfolding query_matches_def is_some_and_iff list_ex_iff by (auto simp: not_le not_less)

end
