(* ===== verification/Sqlite_Events.thy ===== *)
theory Sqlite_Events
  imports Events "HOL-Library.Product_Lexorder"
begin

text \<open>
  The event half of the SQLite store (\<open>pluribus-store-sqlite\<close>): the tables, the append inside a
  transaction, the encoding of an event as a row, and the three reads. A table is its rows, a statement
  its effect on them; \<open>ON CONFLICT\<close>, \<open>ORDER BY\<close> and \<open>LIMIT\<close> are written out, and the constraints of the
  schema are checked where a row is inserted. The engine itself does not fail. What is not in the
  repository is an argument: the text of a SQLite error, full-text matching, the Unicode character classes
  and the source of identifiers and times.

  The second half states what the tables mean: a log of committed events, from which they can be computed.
\<close>

section \<open>The database\<close>

datatype column_type = SqlNull | SqlInteger | SqlText

datatype sql_constraint =
    EventsPrimaryKey | EventsStreamSequence | EventsDeduplication | EventsCheck | EventsForeignKey

datatype sql_error =
    ConstraintViolation sql_constraint
  | QueryReturnedNoRows
  | FromSqlConversionFailure nat column_type string

record event_row =
  c_schema :: string
  c_event_id :: string
  c_stream_id :: string
  c_stream_kind :: i64
  c_sequence :: i64
  c_recorded_at_ms :: i64
  c_observed_at_ms :: "i64 option"
  c_event_type :: string
  c_payload_schema :: string
  c_payload_kind :: i64
  c_payload_json :: "bytes option"
  c_blob_digest :: "string option"
  c_blob_size :: "string option"
  c_blob_media_type :: "string option"
  c_actor_kind :: i64
  c_actor_id :: string
  c_authority_id :: "string option"
  c_activity_id :: "string option"
  c_correlation_id :: "string option"
  c_causation_id :: "string option"
  c_deduplication_key :: "string option"

record search_row =
  s_event_id :: string
  s_stream_id :: string
  s_event_type :: string
  s_payload_text :: string

record engine =
  sql_text :: "sql_error \<Rightarrow> string"
  fts_match :: "string \<Rightarrow> search_row \<Rightarrow> bool"
  is_alphanumeric :: "bytes \<Rightarrow> bool"

record database =
  streams :: "string \<rightharpoonup> i64 \<times> i64" \<comment> \<open>kind, next sequence\<close>
  events :: "event_row list"
  event_search :: "search_row list"
  state_namespaces :: "string \<rightharpoonup> string"
  component_state :: "(string \<times> string, bytes) btree"
  delivery_cursors :: "string \<times> string \<rightharpoonup> string"
  plugin_credentials :: "string \<times> string \<rightharpoonup> bytes"

definition empty_database :: database where
  "empty_database = \<lparr>streams = Map.empty, events = [], event_search = [], state_namespaces = Map.empty,
     component_state = [], delivery_cursors = Map.empty, plugin_credentials = Map.empty\<rparr>"

text \<open>The metadata source: its n-th identifier and its n-th reading of the clock. A rolled back transaction
  does not give them back.\<close>

record metadata_source =
  event_ids :: "nat \<Rightarrow> string"
  clock :: "nat \<Rightarrow> i64"
  ids_taken :: nat
  clock_reads :: nat

record store =
  metadata :: metadata_source
  db :: database

definition next_event_id :: "store \<Rightarrow> store \<times> string" where
  "next_event_id s = (s\<lparr>metadata := (metadata s)\<lparr>ids_taken := Suc (ids_taken (metadata s))\<rparr>\<rparr>,
     event_ids (metadata s) (ids_taken (metadata s)))"

definition now_ms :: "store \<Rightarrow> store \<times> i64" where
  "now_ms s = (s\<lparr>metadata := (metadata s)\<lparr>clock_reads := Suc (clock_reads (metadata s))\<rparr>\<rparr>,
     clock (metadata s) (clock_reads (metadata s)))"

text \<open>A transaction keeps its changes when it returns a value and undoes them on an error.\<close>

definition in_transaction :: "(store \<Rightarrow> store \<times> ('e + 'a)) \<Rightarrow> store \<Rightarrow> store \<times> ('e + 'a)" where
  "in_transaction f s = (case f s of
       (s', Inl e) \<Rightarrow> (s'\<lparr>db := db s\<rparr>, Inl e)
     | (s', Inr x) \<Rightarrow> (s', Inr x))"

section \<open>Rows\<close>

definition encode_stream_kind :: "stream_kind \<Rightarrow> i64" where
  "encode_stream_kind k = (case k of AgentStream \<Rightarrow> 0 | NodeStream \<Rightarrow> 1)"

definition corrupt_message :: "nat \<Rightarrow> column_type \<Rightarrow> string \<Rightarrow> sql_error" where
  "corrupt_message column t m = FromSqlConversionFailure column t m"

definition show_i64 :: "i64 \<Rightarrow> string" where
  "show_i64 n = (if n < 0 then CHR ''-'' # show_nat (nat (- n)) else show_nat (nat n))"

definition decode_stream_kind :: "i64 \<Rightarrow> sql_error + stream_kind" where
  "decode_stream_kind n =
     (if n = 0 then Inr AgentStream else if n = 1 then Inr NodeStream
      else Inl (corrupt_message 3 SqlInteger (''stream kind '' @ show_i64 n)))"

definition encode_principal_kind :: "principal_kind \<Rightarrow> i64" where
  "encode_principal_kind k = (case k of Human \<Rightarrow> 0 | Agent \<Rightarrow> 1 | Node \<Rightarrow> 2 | Component \<Rightarrow> 3 | External \<Rightarrow> 4)"

definition decode_principal_kind :: "i64 \<Rightarrow> sql_error + principal_kind" where
  "decode_principal_kind n =
     (if n = 0 then Inr Human else if n = 1 then Inr Agent else if n = 2 then Inr Node
      else if n = 3 then Inr Component else if n = 4 then Inr External
      else Inl (corrupt_message 14 SqlInteger (''principal kind '' @ show_i64 n)))"

definition encode_payload ::
  "event_payload \<Rightarrow> i64 \<times> bytes option \<times> string option \<times> string option \<times> string option" where
  "encode_payload p = (case p of
       CanonicalJson bs \<Rightarrow> (0, Some bs, None, None, None)
     | Blob b \<Rightarrow> (1, None, Some (digest b), Some (show_u64 (blob_size b)), Some (media_type b)))"

definition encode_row :: "append_request \<Rightarrow> string \<Rightarrow> i64 \<Rightarrow> i64 \<Rightarrow> event_row" where
  "encode_row r eid seq at =
     (let (pk, json, bd, bs, bm) = encode_payload (payload r) in
      \<lparr>c_schema = event_schema, c_event_id = eid, c_stream_id = stream_id r,
       c_stream_kind = encode_stream_kind (append_request.stream_kind r), c_sequence = seq, c_recorded_at_ms = at,
       c_observed_at_ms = observed_at_ms r, c_event_type = event_type r, c_payload_schema = payload_schema r,
       c_payload_kind = pk, c_payload_json = json, c_blob_digest = bd, c_blob_size = bs, c_blob_media_type = bm,
       c_actor_kind = encode_principal_kind (pr_kind (actor r)), c_actor_id = pr_id (actor r),
       c_authority_id = authority_id r, c_activity_id = activity_id r, c_correlation_id = correlation_id r,
       c_causation_id = causation_id r, c_deduplication_key = deduplication_key r\<rparr>)"

definition required :: "'a option \<Rightarrow> nat \<Rightarrow> string \<Rightarrow> sql_error + 'a" where
  "required v column nm = ok_or (corrupt_message column SqlNull (''missing '' @ nm)) v"

definition decode_payload :: "event_row \<Rightarrow> sql_error + event_payload" where
  "decode_payload row =
     (if c_payload_kind row = 0
      then rbind (required (c_payload_json row) 10 ''payload JSON'') (\<lambda>bs. Inr (CanonicalJson bs))
      else if c_payload_kind row = 1
      then rbind (required (c_blob_size row) 12 ''blob size'') (\<lambda>t.
           rbind (map_err (FromSqlConversionFailure 12 SqlText) (parse_u64 t)) (\<lambda>sz.
           rbind (required (c_blob_digest row) 11 ''blob digest'') (\<lambda>d.
           rbind (required (c_blob_media_type row) 13 ''blob media type'') (\<lambda>m.
             Inr (Blob \<lparr>algorithm = sha256_algorithm, digest = d, blob_size = sz, media_type = m\<rparr>)))))
      else Inl (corrupt_message 9 SqlInteger (''payload kind '' @ show_i64 (c_payload_kind row))))"

definition decode_event :: "event_row \<Rightarrow> sql_error + committed_event" where
  "decode_event row =
     rbind (decode_payload row) (\<lambda>p.
     rbind (ok_or (FromSqlConversionFailure 4 SqlInteger ''out of range integral type conversion attempted'')
              (u64_of_i64 (c_sequence row))) (\<lambda>seq.
     rbind (decode_stream_kind (c_stream_kind row)) (\<lambda>sk.
     rbind (decode_principal_kind (c_actor_kind row)) (\<lambda>ak.
       Inr \<lparr>schema = c_schema row, event_id = c_event_id row, sequence = seq, recorded_at_ms = c_recorded_at_ms row,
         request = \<lparr>stream_id = c_stream_id row, stream_kind = sk, observed_at_ms = c_observed_at_ms row,
           event_type = c_event_type row, payload_schema = c_payload_schema row, payload = p,
           actor = new_principal ak (c_actor_id row), authority_id = c_authority_id row,
           activity_id = c_activity_id row, correlation_id = c_correlation_id row,
           causation_id = c_causation_id row, deduplication_key = c_deduplication_key row\<rparr>\<rparr>))))"

section \<open>Append\<close>

definition searchable_payload_text :: "append_request \<Rightarrow> string" where
  "searchable_payload_text r =
     (if event_type r = ''cognition.checkpoint'' \<or> event_type r = ''cognition.job-updated'' then []
      else case payload r of
          CanonicalJson bs \<Rightarrow> take_chars 8192 (from_utf8_lossy bs)
        | Blob _ \<Rightarrow> [])"

text \<open>The constraints of the table \<open>events\<close> on a new row, in the order SQLite reports them.\<close>

definition row_check :: "event_row \<Rightarrow> bool" where
  "row_check row \<longleftrightarrow> (c_stream_kind row = 0 \<or> c_stream_kind row = 1) \<and> 0 < c_sequence row \<and>
     c_event_type row \<noteq> [] \<and> c_payload_schema row \<noteq> [] \<and> 0 \<le> c_actor_kind row \<and> c_actor_kind row \<le> 4 \<and>
     c_deduplication_key row \<noteq> Some [] \<and>
     (c_payload_kind row = 0 \<and> c_payload_json row \<noteq> None \<and> c_blob_digest row = None \<and>
        c_blob_size row = None \<and> c_blob_media_type row = None \<or>
      c_payload_kind row = 1 \<and> c_payload_json row = None \<and> c_blob_digest row \<noteq> None \<and>
        c_blob_size row \<noteq> None \<and> c_blob_media_type row \<noteq> None)"

definition row_violation :: "database \<Rightarrow> event_row \<Rightarrow> sql_constraint option" where
  "row_violation d row =
     (if \<not> row_check row then Some EventsCheck
      else if list_ex (\<lambda>x. c_event_id x = c_event_id row) (events d) then Some EventsPrimaryKey
      else if list_ex (\<lambda>x. c_stream_id x = c_stream_id row \<and> c_sequence x = c_sequence row) (events d)
      then Some EventsStreamSequence
      else if c_deduplication_key row \<noteq> None \<and> list_ex (\<lambda>x. c_stream_id x = c_stream_id row \<and>
                c_deduplication_key x = c_deduplication_key row) (events d)
      then Some EventsDeduplication
      else if streams d (c_stream_id row) = None then Some EventsForeignKey
      else None)"

definition insert_event ::
  "engine \<Rightarrow> database \<Rightarrow> append_request \<Rightarrow> string \<Rightarrow> i64 \<Rightarrow> i64 \<Rightarrow> database \<times> (append_error + unit)" where
  "insert_event en d r eid seq at =
     (let row = encode_row r eid seq at in
      case row_violation d row of
        Some c \<Rightarrow> (d, Inl (AppendStorage (sql_text en (ConstraintViolation c))))
      | None \<Rightarrow>
        (d\<lparr>events := events d @ [row],
           event_search := event_search d @ [\<lparr>s_event_id = eid, s_stream_id = stream_id r,
             s_event_type = event_type r, s_payload_text = searchable_payload_text r\<rparr>],
           streams := (case streams d (stream_id r) of
               None \<Rightarrow> streams d
             | Some (k, _) \<Rightarrow> (streams d)(stream_id r \<mapsto> (k, seq + 1)))\<rparr>, Inr ()))"

definition find_duplicate :: "engine \<Rightarrow> database \<Rightarrow> append_request \<Rightarrow> append_error + committed_event option" where
  "find_duplicate en d r = (case deduplication_key r of
       None \<Rightarrow> Inr None
     | Some k \<Rightarrow>
       (case find (\<lambda>row. c_stream_id row = stream_id r \<and> c_deduplication_key row = Some k) (events d) of
          None \<Rightarrow> Inr None
        | Some row \<Rightarrow> map_err (\<lambda>e. AppendStorage (sql_text en e)) (rbind (decode_event row) (\<lambda>e. Inr (Some e)))))"

definition insert_stream :: "database \<Rightarrow> string \<Rightarrow> i64 \<Rightarrow> database" where
  "insert_stream d i kind =
     (case streams d i of None \<Rightarrow> d\<lparr>streams := (streams d)(i \<mapsto> (kind, 1))\<rparr> | Some _ \<Rightarrow> d)"

definition append_new :: "engine \<Rightarrow> store \<Rightarrow> append_request \<Rightarrow> i64 \<Rightarrow> store \<times> (append_error + committed_event)" where
  "append_new en s r seq =
     (let (s, eid) = next_event_id s in
      if list_ex (\<lambda>row. c_event_id row = eid) (events (db s))
      then (s, Inl (AppendStorage (''event ID collision: '' @ eid)))
      else
        let (s, at) = now_ms s; (d, ins) = insert_event en (db s) r eid seq at; s = s\<lparr>db := d\<rparr> in
        (s, rbind ins (\<lambda>_.
            rbind (ok_or (AppendStorage ''negative stream sequence'') (u64_of_i64 seq)) (\<lambda>q.
              Inr \<lparr>schema = event_schema, event_id = eid, sequence = q, recorded_at_ms = at, request = r\<rparr>))))"

definition append_in :: "engine \<Rightarrow> store \<Rightarrow> append_request \<Rightarrow> store \<times> (append_error + committed_event)" where
  "append_in en s r =
     (case rbind (validate_append r) (\<lambda>_. find_duplicate en (db s) r) of
        Inl e \<Rightarrow> (s, Inl e)
      | Inr (Some e) \<Rightarrow> (s, Inr e)
      | Inr None \<Rightarrow>
        let kind = encode_stream_kind (append_request.stream_kind r);
            s = s\<lparr>db := insert_stream (db s) (stream_id r) kind\<rparr>
        in case streams (db s) (stream_id r) of
            None \<Rightarrow> (s, Inl (AppendStorage (sql_text en QueryReturnedNoRows)))
          | Some (stored_kind, seq) \<Rightarrow>
            if stored_kind \<noteq> kind
            then (s, Inl (InvalidEvent (''stream kind changed for '' @ stream_id r)))
            else if seq \<le> 0 \<or> seq = i64_max then (s, Inl (AppendStorage ''stream sequence exhausted''))
            else append_new en s r seq)"

definition append_event :: "engine \<Rightarrow> store \<Rightarrow> append_request \<Rightarrow> store \<times> (append_error + committed_event)" where
  "append_event en s r = in_transaction (\<lambda>s. append_in en s r) s"

section \<open>Reads\<close>

text \<open>\<open>LIMIT\<close> with a \<open>usize\<close> clamped to \<open>i64\<close>.\<close>

definition sql_limit :: "u64 \<Rightarrow> 'a list \<Rightarrow> 'a list" where
  "sql_limit n xs = take (nat (case i64_of_u64 n of Some k \<Rightarrow> k | None \<Rightarrow> i64_max)) xs"

definition decode_rows :: "engine \<Rightarrow> event_row list \<Rightarrow> append_error + committed_event list" where
  "decode_rows en rows = map_err (\<lambda>e. AppendStorage (sql_text en e)) (collect_results (map decode_event rows))"

definition read_events ::
  "engine \<Rightarrow> store \<Rightarrow> stream_id \<Rightarrow> u64 \<Rightarrow> u64 \<Rightarrow> append_error + committed_event list" where
  "read_events en s stream after limit =
     (case i64_of_u64 after of
        None \<Rightarrow> Inr []
      | Some a \<Rightarrow>
        decode_rows en (sql_limit limit (sort_key c_sequence
          (filter (\<lambda>row. c_stream_id row = stream \<and> a < c_sequence row) (events (db s))))))"

definition get_event :: "engine \<Rightarrow> store \<Rightarrow> event_id \<Rightarrow> append_error + committed_event option" where
  "get_event en s eid = (case find (\<lambda>row. c_event_id row = eid) (events (db s)) of
       None \<Rightarrow> Inr None
     | Some row \<Rightarrow> map_err (\<lambda>e. AppendStorage (sql_text en e)) (rbind (decode_event row) (\<lambda>e. Inr (Some e))))"

text \<open>Tokens of the searched text, each quoted for the full-text index.\<close>

fun search_tokens :: "engine \<Rightarrow> bytes list \<Rightarrow> string \<Rightarrow> string list" where
  "search_tokens en [] tok = (if tok = [] then [] else [tok])"
| "search_tokens en (c # cs) tok =
     (if is_alphanumeric en c \<or> c = ''_'' then search_tokens en cs (tok @ c)
      else if tok = [] then search_tokens en cs []
      else tok # search_tokens en cs [])"

primrec join_and :: "string list \<Rightarrow> string" where
  "join_and [] = []"
| "join_and (t # ts) = (if ts = [] then t else t @ '' AND '' @ join_and ts)"

definition quote_token :: "string \<Rightarrow> string" where
  "quote_token t = CHR 0x22 # concat (map (\<lambda>c. if c = CHR 0x22 then [CHR 0x22, CHR 0x22] else [c]) t) @ [CHR 0x22]"

definition literal_search_query :: "engine \<Rightarrow> string \<Rightarrow> string option" where
  "literal_search_query en input =
     (let tokens = search_tokens en (utf8_chunks input) [] in
      if tokens = [] then None else Some (join_and (map quote_token tokens)))"

text \<open>One condition of the \<open>WHERE\<close> clause on a row; an optional bound is absent or compared.\<close>

definition row_matches :: "event_query \<Rightarrow> event_row \<Rightarrow> bool" where
  "row_matches q row \<longleftrightarrow>
     (event_types q = [] \<or> List.member (event_types q) (c_event_type row)) \<and>
     (q_correlation_id q = None \<or> c_correlation_id row = q_correlation_id q) \<and>
     (q_activity_id q = None \<or> c_activity_id row = q_activity_id q) \<and>
     is_none_or (\<lambda>t. t \<le> c_recorded_at_ms row) (recorded_from_ms q) \<and>
     is_none_or (\<lambda>t. c_recorded_at_ms row \<le> t) (recorded_to_ms q)"

text \<open>An optional bound as a parameter: \<open>None\<close> outside when it does not fit, otherwise the optional value.\<close>

definition bind_i64 :: "u64 option \<Rightarrow> i64 option option" where
  "bind_i64 b = (case b of None \<Rightarrow> Some None | Some n \<Rightarrow> map_option Some (i64_of_u64 n))"

definition text_condition :: "engine \<Rightarrow> database \<Rightarrow> event_query \<Rightarrow> (event_row \<Rightarrow> bool) option" where
  "text_condition en d q = (case text_query q of
       None \<Rightarrow> Some (\<lambda>_. True)
     | Some t \<Rightarrow> map_option (\<lambda>m row. list_ex (\<lambda>x. fts_match en m x \<and> s_event_id x = c_event_id row) (event_search d))
         (literal_search_query en t))"

definition query_events ::
  "engine \<Rightarrow> store \<Rightarrow> stream_id \<Rightarrow> event_query \<Rightarrow> u64 \<Rightarrow> append_error + committed_event list" where
  "query_events en s stream q limit =
     (case (bind_i64 (after_sequence q), bind_i64 (before_sequence q), text_condition en (db s) q) of
        (Some after, Some before, Some found) \<Rightarrow>
          let rows = filter (\<lambda>row. c_stream_id row = stream \<and> is_none_or (\<lambda>a. a < c_sequence row) after \<and>
                is_none_or (\<lambda>b. c_sequence row < b) before \<and> row_matches q row \<and> found row) (events (db s));
              rows = sort_key c_sequence rows;
              rows = (if descending q then rev rows else rows)
          in decode_rows en (sql_limit limit rows)
      | _ \<Rightarrow> Inr [])"

section \<open>The log\<close>

text \<open>
  What the event tables mean. A log is the list of committed events in the order of their commits; the
  sequence of an event is its position in its stream, counted from one.
\<close>

definition stream_log :: "committed_event list \<Rightarrow> stream_id \<Rightarrow> committed_event list" where
  "stream_log es i = filter (\<lambda>e. stream_id (request e) = i) es"

definition dedup_pairs :: "committed_event list \<Rightarrow> (stream_id \<times> string) list" where
  "dedup_pairs es = List.map_filter (\<lambda>e. map_option (Pair (stream_id (request e))) (deduplication_key (request e))) es"

definition log_wf :: "committed_event list \<Rightarrow> bool" where
  "log_wf es \<longleftrightarrow>
     (\<forall>i. map (\<lambda>e. uint (sequence e)) (stream_log es i) = [1..int (length (stream_log es i))]) \<and>
     (\<forall>i. int (length (stream_log es i)) < i64_max) \<and>
     (\<forall>e \<in> set es. \<forall>e' \<in> set es. stream_id (request e) = stream_id (request e') \<longrightarrow>
        append_request.stream_kind (request e) = append_request.stream_kind (request e')) \<and>
     distinct (map event_id es) \<and> distinct (dedup_pairs es) \<and>
     (\<forall>e \<in> set es. schema e = event_schema \<and> validate_append (request e) = Inr ())"

text \<open>The event the log gets when it lets a request in.\<close>

definition new_event :: "committed_event list \<Rightarrow> append_request \<Rightarrow> event_id \<Rightarrow> i64 \<Rightarrow> committed_event" where
  "new_event es r eid at = \<lparr>schema = event_schema, event_id = eid,
     sequence = of_nat (length (stream_log es (stream_id r)) + 1), recorded_at_ms = at, request = r\<rparr>"

definition log_append ::
  "committed_event list \<Rightarrow> append_request \<Rightarrow> event_id \<Rightarrow> i64 \<Rightarrow> append_error + committed_event list \<times> committed_event"
where
  "log_append es r eid at =
     rbind (validate_append r) (\<lambda>_.
       case (if deduplication_key r = None then None
             else find (\<lambda>e. deduplication_key (request e) = deduplication_key r) (stream_log es (stream_id r))) of
         Some e \<Rightarrow> Inr (es, e)
       | None \<Rightarrow>
         if \<exists>e \<in> set (stream_log es (stream_id r)). append_request.stream_kind (request e) \<noteq> append_request.stream_kind r
         then Inl (InvalidEvent (''stream kind changed for '' @ stream_id r))
         else if int (length (stream_log es (stream_id r))) + 1 = i64_max
         then Inl (AppendStorage ''stream sequence exhausted'')
         else if eid \<in> event_id ` set es
         then Inl (AppendStorage (''event ID collision: '' @ eid))
         else Inr (es @ [new_event es r eid at], new_event es r eid at))"

definition row_of :: "committed_event \<Rightarrow> event_row" where
  "row_of e = encode_row (request e) (event_id e) (uint (sequence e)) (recorded_at_ms e)"

definition search_row_of :: "committed_event \<Rightarrow> search_row" where
  "search_row_of e = \<lparr>s_event_id = event_id e, s_stream_id = stream_id (request e),
     s_event_type = event_type (request e), s_payload_text = searchable_payload_text (request e)\<rparr>"

definition stream_table :: "committed_event list \<Rightarrow> string \<rightharpoonup> i64 \<times> i64" where
  "stream_table es i = (case stream_log es i of
       [] \<Rightarrow> None
     | e # _ \<Rightarrow> Some (encode_stream_kind (append_request.stream_kind (request e)), int (length (stream_log es i)) + 1))"

definition represents :: "database \<Rightarrow> committed_event list \<Rightarrow> bool" where
  "represents d es \<longleftrightarrow> log_wf es \<and> events d = map row_of es \<and> event_search d = map search_row_of es \<and>
     streams d = stream_table es"

lemma represents_empty: "represents empty_database []"
  by (simp add: represents_def empty_database_def log_wf_def stream_log_def dedup_pairs_def stream_table_def
      fun_eq_iff List.map_filter_def)

subsection \<open>Rows decode to their events\<close>

lemma kind_decode [simp]:
  "decode_stream_kind (encode_stream_kind k) = Inr k" "decode_principal_kind (encode_principal_kind p) = Inr p"
  by (cases k; simp add: decode_stream_kind_def encode_stream_kind_def)
     (cases p; simp add: decode_principal_kind_def encode_principal_kind_def)

lemma encode_stream_kind_inject [simp]: "encode_stream_kind k = encode_stream_kind k' \<longleftrightarrow> k = k'"
  by (cases k; cases k') (simp_all add: encode_stream_kind_def)

lemma encode_row_simps [simp]:
  "c_event_id (encode_row r eid seq at) = eid" "c_stream_id (encode_row r eid seq at) = stream_id r"
  "c_sequence (encode_row r eid seq at) = seq" "c_recorded_at_ms (encode_row r eid seq at) = at"
  "c_event_type (encode_row r eid seq at) = event_type r" "c_correlation_id (encode_row r eid seq at) = correlation_id r"
  "c_activity_id (encode_row r eid seq at) = activity_id r"
  "c_deduplication_key (encode_row r eid seq at) = deduplication_key r"
  "c_stream_kind (encode_row r eid seq at) = encode_stream_kind (append_request.stream_kind r)"
  "c_actor_kind (encode_row r eid seq at) = encode_principal_kind (pr_kind (actor r))"
  "c_payload_schema (encode_row r eid seq at) = payload_schema r"
  by (simp_all add: encode_row_def split: prod.splits)

lemma row_of_simps [simp]:
  "c_event_id (row_of e) = event_id e" "c_stream_id (row_of e) = stream_id (request e)"
  "c_sequence (row_of e) = uint (sequence e)" "c_deduplication_key (row_of e) = deduplication_key (request e)"
  by (simp_all add: row_of_def)

lemma decode_encode_payload:
  assumes "\<And>b. payload r = Blob b \<Longrightarrow> validate_blob_ref b = Inr ()"
  shows "decode_payload (encode_row r eid seq at) = Inr (payload r)"
  using assms by (cases "payload r")
    (auto simp: decode_payload_def encode_row_def encode_payload_def required_def ok_or_def parse_show_u64 validate_blob_ref_Inr)

lemma decode_encode:
  assumes "validate_append r = Inr ()" and "u64_of_i64 seq = Some q"
  shows "decode_event (encode_row r eid seq at) =
    Inr \<lparr>schema = event_schema, event_id = eid, sequence = q, recorded_at_ms = at, request = r\<rparr>"
proof -
  have "decode_payload (encode_row r eid seq at) = Inr (payload r)"
    using assms(1) by (intro decode_encode_payload) (simp add: validate_append_Inr)
  then show ?thesis
    using assms(2) by (simp add: decode_event_def) (simp add: encode_row_def ok_or_def new_principal_def split: prod.splits)
qed

end
