(* ===== verification/Sqlite_Log.thy ===== *)
theory Sqlite_Log
  imports Sqlite_Events
begin

text \<open>
  The SQLite event tables implement the log: an append that succeeds extends the log as
  \<open>log_append\<close> says, an append that fails leaves every table alone, no constraint of the schema is ever
  violated, and the three reads return the events of the log they are asked for.
\<close>

section \<open>Well-formed logs\<close>

lemma stream_log_append [simp]:
  "stream_log (es @ [e]) i = stream_log es i @ (if stream_id (request e) = i then [e] else [])"
  by (simp add: stream_log_def)

lemma set_stream_log [simp]: "e \<in> set (stream_log es i) \<longleftrightarrow> e \<in> set es \<and> stream_id (request e) = i"
  by (auto simp: stream_log_def)

lemma dedup_pairs_append:
  "dedup_pairs (es @ [e]) = dedup_pairs es @
     (case deduplication_key (request e) of None \<Rightarrow> [] | Some k \<Rightarrow> [(stream_id (request e), k)])"
  by (simp add: dedup_pairs_def List.map_filter_def split: option.splits)

lemma set_dedup_pairs:
  "(i, k) \<in> set (dedup_pairs es) \<longleftrightarrow> (\<exists>e \<in> set es. stream_id (request e) = i \<and> deduplication_key (request e) = Some k)"
  by (force simp: dedup_pairs_def List.map_filter_def)

lemma log_wf_sequences:
  "log_wf es \<Longrightarrow> map (\<lambda>e. uint (sequence e)) (stream_log es i) = [1..int (length (stream_log es i))]"
  by (simp add: log_wf_def)

lemma log_wf_bound: "log_wf es \<Longrightarrow> int (length (stream_log es i)) < i64_max"
  by (simp add: log_wf_def)

lemma log_wf_kind:
  "\<lbrakk>log_wf es; e \<in> set es; e' \<in> set es; stream_id (request e) = stream_id (request e')\<rbrakk> \<Longrightarrow>
     append_request.stream_kind (request e) = append_request.stream_kind (request e')"
  unfolding log_wf_def by blast

lemma log_wf_distinct: "log_wf es \<Longrightarrow> distinct (map event_id es)" "log_wf es \<Longrightarrow> distinct (dedup_pairs es)"
  unfolding log_wf_def by blast+

lemma log_wf_id_unique: "\<lbrakk>log_wf es; a \<in> set es; b \<in> set es; event_id a = event_id b\<rbrakk> \<Longrightarrow> a = b"
  using log_wf_distinct(1) by (auto simp: distinct_map dest: inj_onD)

lemma log_wf_event: "\<lbrakk>log_wf es; e \<in> set es\<rbrakk> \<Longrightarrow> schema e = event_schema \<and> validate_append (request e) = Inr ()"
  unfolding log_wf_def by blast

lemma log_wf_sequence_bounds:
  assumes "log_wf es" and "e \<in> set es"
  shows "1 \<le> uint (sequence e)" and "uint (sequence e) \<le> int (length (stream_log es (stream_id (request e))))"
proof -
  have "e \<in> set (stream_log es (stream_id (request e)))" using assms(2) by simp
  then have "uint (sequence e) \<in> set (map (\<lambda>e. uint (sequence e)) (stream_log es (stream_id (request e))))" by auto
  then show "1 \<le> uint (sequence e)" "uint (sequence e) \<le> int (length (stream_log es (stream_id (request e))))"
    unfolding log_wf_sequences[OF assms(1)] by simp_all
qed

lemma log_wf_sequence_i64:
  assumes "log_wf es" and "e \<in> set es"
  shows "u64_of_i64 (uint (sequence e)) = Some (sequence e)"
  using log_wf_sequence_bounds[OF assms] log_wf_bound[OF assms(1), of "stream_id (request e)"]
  by (simp add: u64_of_i64_def)

lemma uint_of_small_nat: "int n < i64_max \<Longrightarrow> uint (of_nat (n + 1) :: u64) = int n + 1"
proof -
  assume "int n < i64_max"
  then have "unat (of_nat (n + 1) :: u64) = n + 1" by (subst unat_of_nat) simp
  then have "int (unat (of_nat (n + 1) :: u64)) = int n + 1" by linarith
  then show ?thesis by simp
qed

lemma log_wf_snoc:
  assumes wf: "log_wf es" and valid: "validate_append (request e) = Inr ()" and sch: "schema e = event_schema"
    and seq: "uint (sequence e) = int (length (stream_log es (stream_id (request e)))) + 1"
    and room: "int (length (stream_log es (stream_id (request e)))) + 1 < i64_max"
    and kind: "\<And>x. x \<in> set (stream_log es (stream_id (request e))) \<Longrightarrow>
      append_request.stream_kind (request x) = append_request.stream_kind (request e)"
    and fresh: "event_id e \<notin> event_id ` set es"
    and key: "\<And>x k. x \<in> set (stream_log es (stream_id (request e))) \<Longrightarrow> deduplication_key (request e) = Some k \<Longrightarrow>
      deduplication_key (request x) \<noteq> Some k"
  shows "log_wf (es @ [e])"
  unfolding log_wf_def
proof (intro conjI allI)
  fix i show "map (\<lambda>e. uint (sequence e)) (stream_log (es @ [e]) i) = [1..int (length (stream_log (es @ [e]) i))]"
    using log_wf_sequences[OF wf, of i] seq by (auto simp: upto_rec2)
next
  fix i show "int (length (stream_log (es @ [e]) i)) < i64_max"
    using log_wf_bound[OF wf, of i] room by auto
next
  show "distinct (dedup_pairs (es @ [e]))"
  proof (cases "deduplication_key (request e)")
    case (Some k)
    then have "(stream_id (request e), k) \<notin> set (dedup_pairs es)"
      using key unfolding set_dedup_pairs by simp
    with Some log_wf_distinct(2)[OF wf] show ?thesis by (simp add: dedup_pairs_append)
  qed (simp add: dedup_pairs_append log_wf_distinct(2)[OF wf])
next
  show "\<forall>x \<in> set (es @ [e]). \<forall>y \<in> set (es @ [e]). stream_id (request x) = stream_id (request y) \<longrightarrow>
      append_request.stream_kind (request x) = append_request.stream_kind (request y)"
  proof (intro ballI impI)
    fix x y assume "x \<in> set (es @ [e])" "y \<in> set (es @ [e])" "stream_id (request x) = stream_id (request y)"
    then consider "x \<in> set es" "y \<in> set es" | "x \<in> set es" "y = e" | "x = e" "y \<in> set es" | "x = e" "y = e"
      by auto
    then show "append_request.stream_kind (request x) = append_request.stream_kind (request y)"
      using \<open>stream_id (request x) = stream_id (request y)\<close> log_wf_kind[OF wf, of x y] kind[of x] kind[of y]
      by cases simp_all
  qed
next
  show "distinct (map event_id (es @ [e]))"
    using log_wf_distinct(1)[OF wf] fresh by simp
next
  show "\<forall>x \<in> set (es @ [e]). schema x = event_schema \<and> validate_append (request x) = Inr ()"
    using log_wf_event[OF wf] valid sch by simp
qed

section \<open>Decoding\<close>

lemma decode_row_of:
  assumes "log_wf es" and "e \<in> set es"
  shows "decode_event (row_of e) = Inr e"
proof -
  have "schema e = event_schema" "validate_append (request e) = Inr ()"
    using log_wf_event[OF assms] by simp_all
  then show ?thesis
    unfolding row_of_def by (subst decode_encode[OF _ log_wf_sequence_i64[OF assms]]) simp_all
qed

lemma decode_rows_of:
  assumes "log_wf es" and "set xs \<subseteq> set es"
  shows "decode_rows en (map row_of xs) = Inr xs"
proof -
  have "collect_results (map decode_event (map row_of xs)) = Inr xs"
    using assms(2) by (induction xs) (simp_all add: decode_row_of[OF assms(1)])
  then show ?thesis by (simp add: decode_rows_def)
qed

lemma find_duplicate_refines:
  assumes "represents d es"
  shows "find_duplicate en d r = Inr (if deduplication_key r = None then None
    else find (\<lambda>e. deduplication_key (request e) = deduplication_key r) (stream_log es (stream_id r)))"
proof (cases "deduplication_key r")
  case (Some k)
  let ?f = "find (\<lambda>e. stream_id (request e) = stream_id r \<and> deduplication_key (request e) = Some k) es"
  have wf: "log_wf es" and ev: "events d = map row_of es" using assms by (simp_all add: represents_def)
  have "find_duplicate en d r = Inr ?f"
  proof (cases ?f)
    case (Some e)
    then have "decode_event (row_of e) = Inr e" using decode_row_of[OF wf] by (auto dest: find_SomeD)
    with Some show ?thesis by (simp add: find_duplicate_def \<open>deduplication_key r = Some k\<close> ev find_map_comp)
  qed (simp add: find_duplicate_def Some ev find_map_comp)
  then show ?thesis using Some by (simp add: stream_log_def find_filter_and)
qed (simp add: find_duplicate_def)

section \<open>Append\<close>

lemma kind_ranges:
  "encode_stream_kind k = 0 \<or> encode_stream_kind k = 1" "0 \<le> encode_principal_kind p" "encode_principal_kind p \<le> 4"
  by (cases k; simp add: encode_stream_kind_def) (cases p; simp add: encode_principal_kind_def)+

lemma payload_columns:
  fixes r eid seq at
  defines "row \<equiv> encode_row r eid seq at"
  shows "c_payload_kind row = 0 \<and> c_payload_json row \<noteq> None \<and> c_blob_digest row = None \<and>
      c_blob_size row = None \<and> c_blob_media_type row = None \<or>
    c_payload_kind row = 1 \<and> c_payload_json row = None \<and> c_blob_digest row \<noteq> None \<and>
      c_blob_size row \<noteq> None \<and> c_blob_media_type row \<noteq> None"
  unfolding row_def encode_row_def by (cases "payload r") (simp_all add: encode_payload_def)

lemma row_check_encode:
  assumes "validate_append r = Inr ()" and "0 < seq"
  shows "row_check (encode_row r eid seq at)"
proof -
  have "event_type r \<noteq> []" "payload_schema r \<noteq> []" "deduplication_key r \<noteq> Some []"
    using assms(1) by (simp_all add: validate_append_Inr)
  then show ?thesis
    unfolding row_check_def encode_row_simps using assms(2) kind_ranges payload_columns by blast
qed

lemma new_event_simps [simp]:
  "event_id (new_event es r eid at) = eid" "request (new_event es r eid at) = r"
  "schema (new_event es r eid at) = event_schema" "recorded_at_ms (new_event es r eid at) = at"
  by (simp_all add: new_event_def)

lemma new_event_sequence:
  "int (length (stream_log es (stream_id r))) < i64_max \<Longrightarrow>
     uint (sequence (new_event es r eid at)) = int (length (stream_log es (stream_id r))) + 1"
  using uint_of_small_nat by (simp add: new_event_def)

text \<open>The row of the stream after \<open>INSERT ... ON CONFLICT DO NOTHING\<close>.\<close>

lemma streams_insert_stream:
  assumes "represents d es"
  shows "streams (insert_stream d i k) = (stream_table es)(i \<mapsto> (case stream_log es i of
    [] \<Rightarrow> (k, 1)
  | e # _ \<Rightarrow> (encode_stream_kind (append_request.stream_kind (request e)), int (length (stream_log es i)) + 1)))"
  using assms by (auto simp: represents_def insert_stream_def stream_table_def fun_eq_iff split: list.splits)

lemma insert_stream_rest [simp]:
  "events (insert_stream d i k) = events d" "event_search (insert_stream d i k) = event_search d"
  by (simp_all add: insert_stream_def split: option.splits)

lemma row_violation_new:
  assumes "log_wf es" and "events d = map row_of es" and "streams d (stream_id r) \<noteq> None"
    and "validate_append r = Inr ()" and "eid \<notin> event_id ` set es"
    and dup: "\<And>e. e \<in> set (stream_log es (stream_id r)) \<Longrightarrow> deduplication_key r \<noteq> None \<Longrightarrow>
      deduplication_key (request e) \<noteq> deduplication_key r"
  shows "row_violation d (encode_row r eid (int (length (stream_log es (stream_id r))) + 1) at) = None"
proof -
  let ?n = "int (length (stream_log es (stream_id r))) + 1"
  have "row_check (encode_row r eid ?n at)" using assms(4) by (intro row_check_encode) simp_all
  moreover have "\<not> list_ex (\<lambda>x. c_event_id x = eid) (events d)"
    using assms(2,5) by (auto simp: list_ex_iff)
  moreover have "\<not> list_ex (\<lambda>x. c_stream_id x = stream_id r \<and> c_sequence x = ?n) (events d)"
    using log_wf_sequence_bounds(2)[OF assms(1)] assms(2) by (fastforce simp: list_ex_iff)
  moreover have "\<not> (deduplication_key r \<noteq> None \<and> list_ex (\<lambda>x. c_stream_id x = stream_id r \<and>
      c_deduplication_key x = deduplication_key r) (events d))"
    using dup assms(2) by (auto simp: list_ex_iff)
  ultimately show ?thesis
    using assms(3) unfolding row_violation_def encode_row_simps by presburger
qed

lemma represents_snoc:
  assumes rep: "represents d es" and wf: "log_wf (es @ [new_event es r eid at])"
    and kind: "\<And>e. e \<in> set (stream_log es (stream_id r)) \<Longrightarrow> append_request.stream_kind (request e) = append_request.stream_kind r"
    and d': "d' = (insert_stream d (stream_id r) (encode_stream_kind (append_request.stream_kind r)))
      \<lparr>events := events d @ [encode_row r eid (int (length (stream_log es (stream_id r))) + 1) at],
       event_search := event_search d @ [search_row_of (new_event es r eid at)],
       streams := (stream_table es)(stream_id r \<mapsto> (encode_stream_kind (append_request.stream_kind r),
         int (length (stream_log es (stream_id r))) + 1 + 1))\<rparr>"
  shows "represents d' (es @ [new_event es r eid at])"
proof -
  have len: "int (length (stream_log es (stream_id r))) < i64_max"
    using rep log_wf_bound by (simp add: represents_def)
  have "row_of (new_event es r eid at) = encode_row r eid (int (length (stream_log es (stream_id r))) + 1) at"
    by (simp add: row_of_def new_event_sequence[OF len])
  moreover have "stream_table (es @ [new_event es r eid at]) = (stream_table es)(stream_id r \<mapsto>
      (encode_stream_kind (append_request.stream_kind r), int (length (stream_log es (stream_id r))) + 1 + 1))"
  proof
    fix i show "stream_table (es @ [new_event es r eid at]) i = ((stream_table es)(stream_id r \<mapsto>
        (encode_stream_kind (append_request.stream_kind r), int (length (stream_log es (stream_id r))) + 1 + 1))) i"
      using kind by (cases "stream_log es (stream_id r)") (auto simp: stream_table_def split: list.splits)
  qed
  ultimately show ?thesis using rep wf d' by (simp add: represents_def)
qed

text \<open>The identifier and the time the metadata source gives next.\<close>

definition peek_id :: "store \<Rightarrow> event_id" where
  "peek_id s = event_ids (metadata s) (ids_taken (metadata s))"

definition peek_clock :: "store \<Rightarrow> i64" where
  "peek_clock s = clock (metadata s) (clock_reads (metadata s))"

definition same_state :: "database \<Rightarrow> database \<Rightarrow> bool" where
  "same_state d d' \<longleftrightarrow> state_namespaces d' = state_namespaces d \<and> component_state d' = component_state d \<and>
     delivery_cursors d' = delivery_cursors d \<and> plugin_credentials d' = plugin_credentials d"

lemma same_state_refl [simp]: "same_state d d"
  by (simp add: same_state_def)

lemma same_state_trans: "same_state d d' \<Longrightarrow> same_state d' d'' \<Longrightarrow> same_state d d''"
  by (simp add: same_state_def)

lemma same_state_insert_stream: "same_state d (insert_stream d i k)"
  by (simp add: same_state_def insert_stream_def split: option.splits)

lemma insert_event_ok:
  assumes rep: "represents d es" and d1: "d1 = insert_stream d (stream_id r) (encode_stream_kind (append_request.stream_kind r))"
    and valid: "validate_append r = Inr ()" and fresh: "eid \<notin> event_id ` set es"
    and room: "int (length (stream_log es (stream_id r))) + 1 < i64_max"
    and dup: "\<And>e. e \<in> set (stream_log es (stream_id r)) \<Longrightarrow> deduplication_key r \<noteq> None \<Longrightarrow>
      deduplication_key (request e) \<noteq> deduplication_key r"
    and kind: "\<And>e. e \<in> set (stream_log es (stream_id r)) \<Longrightarrow> append_request.stream_kind (request e) = append_request.stream_kind r"
  shows "\<exists>d2. insert_event en d1 r eid (int (length (stream_log es (stream_id r))) + 1) at = (d2, Inr ()) \<and>
    represents d2 (es @ [new_event es r eid at]) \<and> same_state d d2"
proof -
  let ?n = "int (length (stream_log es (stream_id r))) + 1" and ?k = "encode_stream_kind (append_request.stream_kind r)"
  have wf: "log_wf es" and ev: "events d1 = map row_of es" using rep d1 by (simp_all add: represents_def)
  have str: "streams d1 = (stream_table es)(stream_id r \<mapsto> (?k, ?n))"
    unfolding d1 streams_insert_stream[OF rep] using kind by (cases "stream_log es (stream_id r)") simp_all
  have new: "uint (sequence (new_event es r eid at)) = ?n" using room by (intro new_event_sequence) simp
  have "log_wf (es @ [new_event es r eid at])"
    by (rule log_wf_snoc[OF wf]) (use valid new room kind fresh dup in auto)
  note wf' = this
  let ?d2 = "d1\<lparr>events := events d @ [encode_row r eid ?n at], event_search := event_search d @ [search_row_of (new_event es r eid at)],
      streams := (stream_table es)(stream_id r \<mapsto> (?k, ?n + 1))\<rparr>"
  have "row_violation d1 (encode_row r eid ?n at) = None"
    by (rule row_violation_new[OF wf ev]) (use str valid fresh dup in auto)
  then have "insert_event en d1 r eid ?n at = (?d2, Inr ())"
    using str by (simp add: insert_event_def d1 search_row_of_def)
  moreover have "represents ?d2 (es @ [new_event es r eid at])"
    by (rule represents_snoc[OF rep wf' kind]) (simp_all add: d1)
  moreover have "same_state d ?d2" using same_state_insert_stream by (simp add: d1 same_state_def)
  ultimately show ?thesis by blast
qed

lemma event_id_used:
  "represents d es \<Longrightarrow> list_ex (\<lambda>row. c_event_id row = i) (events d) \<longleftrightarrow> i \<in> event_id ` set es"
  unfolding represents_def by (auto simp: list_ex_iff image_iff)

lemma append_new_refines:
  assumes rep: "represents d es" and d1: "db s = insert_stream d (stream_id r) (encode_stream_kind (append_request.stream_kind r))"
    and valid: "validate_append r = Inr ()" and room: "int (length (stream_log es (stream_id r))) + 1 < i64_max"
    and dup: "\<And>e. e \<in> set (stream_log es (stream_id r)) \<Longrightarrow> deduplication_key r \<noteq> None \<Longrightarrow>
      deduplication_key (request e) \<noteq> deduplication_key r"
    and kind: "\<And>e. e \<in> set (stream_log es (stream_id r)) \<Longrightarrow> append_request.stream_kind (request e) = append_request.stream_kind r"
    and call: "append_new en s r (int (length (stream_log es (stream_id r))) + 1) = (s', res)"
  shows "if peek_id s \<in> event_id ` set es then res = Inl (AppendStorage (''event ID collision: '' @ peek_id s))
    else res = Inr (new_event es r (peek_id s) (peek_clock s)) \<and>
      represents (db s') (es @ [new_event es r (peek_id s) (peek_clock s)]) \<and> same_state d (db s')"
proof (cases "peek_id s \<in> event_id ` set es")
  case True
  then have "list_ex (\<lambda>row. c_event_id row = peek_id s) (events (db s))"
    by (simp add: d1 event_id_used[OF rep])
  with True call show ?thesis by (auto simp: append_new_def next_event_id_def peek_id_def)
next
  case False
  let ?n = "int (length (stream_log es (stream_id r))) + 1"
  obtain d2 where ins: "insert_event en (db s) r (peek_id s) ?n (peek_clock s) = (d2, Inr ())"
    and d2: "represents d2 (es @ [new_event es r (peek_id s) (peek_clock s)])" "same_state d d2"
    using insert_event_ok[OF rep d1 valid False room dup kind] by blast
  have "u64_of_i64 ?n = Some (sequence (new_event es r (peek_id s) (peek_clock s)))"
    using room by (simp add: u64_of_i64_def new_event_def)
  moreover have "\<not> list_ex (\<lambda>row. c_event_id row = peek_id s) (events (db s))"
    using False by (simp add: d1 event_id_used[OF rep])
  ultimately have "s' = s\<lparr>metadata := metadata s', db := d2\<rparr>" "res = Inr (new_event es r (peek_id s) (peek_clock s))"
    using call ins by (auto simp: append_new_def next_event_id_def now_ms_def peek_id_def peek_clock_def new_event_def ok_or_def)
  with False d2 show ?thesis by (cases s') auto
qed

lemma append_in_kind_changed:
  assumes rep: "represents (db s) es"
    and none: "rbind (validate_append r) (\<lambda>_. find_duplicate en (db s) r) = Inr None"
    and bad: "\<exists>e \<in> set (stream_log es (stream_id r)). append_request.stream_kind (request e) \<noteq> append_request.stream_kind r"
  shows "snd (append_in en s r) = Inl (InvalidEvent (''stream kind changed for '' @ stream_id r))"
proof -
  have wf: "log_wf es" using rep by (simp add: represents_def)
  obtain x xs where x: "stream_log es (stream_id r) = x # xs" using bad by (cases "stream_log es (stream_id r)") auto
  from bad obtain e where e: "e \<in> set (stream_log es (stream_id r))"
    "append_request.stream_kind (request e) \<noteq> append_request.stream_kind r" by blast
  have "x \<in> set (stream_log es (stream_id r))" using x by simp
  with e(1) have "append_request.stream_kind (request x) = append_request.stream_kind (request e)"
    by (intro log_wf_kind[OF wf]) auto
  with e(2) have "encode_stream_kind (append_request.stream_kind (request x)) \<noteq>
      encode_stream_kind (append_request.stream_kind r)" by simp
  then show ?thesis
    using x unfolding append_in_def none Let_def by (simp add: streams_insert_stream[OF rep])
qed

text \<open>An append inside a transaction does to the log what \<open>log_append\<close> says.\<close>

lemma append_in_refines:
  assumes rep: "represents (db s) es" and call: "append_in en s r = (s', res)"
  shows "case log_append es r (peek_id s) (peek_clock s) of
      Inl e \<Rightarrow> res = Inl e
    | Inr (es', e) \<Rightarrow> res = Inr e \<and> represents (db s') es' \<and> same_state (db s) (db s')"
proof -
  let ?old = "if deduplication_key r = None then None
    else find (\<lambda>e. deduplication_key (request e) = deduplication_key r) (stream_log es (stream_id r))"
  let ?n = "int (length (stream_log es (stream_id r))) + 1" and ?k = "encode_stream_kind (append_request.stream_kind r)"
  let ?s = "s\<lparr>db := insert_stream (db s) (stream_id r) ?k\<rparr>"
  show ?thesis
  proof (cases "validate_append r = Inr () \<and> ?old = None")
    case False
    then show ?thesis
      using call rep find_duplicate_refines[OF rep, of en r]
      by (cases "validate_append r") (auto simp: append_in_def log_append_def)
  next
    case True
    note valid = True[THEN conjunct1]
    have none: "rbind (validate_append r) (\<lambda>_. find_duplicate en (db s) r) = Inr None"
      using True find_duplicate_refines[OF rep, of en r] by simp
    have dup: "deduplication_key (request e) \<noteq> deduplication_key r"
      if "e \<in> set (stream_log es (stream_id r))" "deduplication_key r \<noteq> None" for e
      using True that by (auto simp: find_None_iff)
    have spec: "log_append es r eid at = (if \<exists>e \<in> set (stream_log es (stream_id r)). append_request.stream_kind (request e) \<noteq> append_request.stream_kind r
        then Inl (InvalidEvent (''stream kind changed for '' @ stream_id r))
        else if ?n = i64_max then Inl (AppendStorage ''stream sequence exhausted'')
        else if eid \<in> event_id ` set es then Inl (AppendStorage (''event ID collision: '' @ eid))
        else Inr (es @ [new_event es r eid at], new_event es r eid at))" for eid at
      using True by (simp only: log_append_def rbind_simps option.case)
    have wf: "log_wf es" using rep by (simp add: represents_def)
    show ?thesis
    proof (cases "\<exists>e \<in> set (stream_log es (stream_id r)). append_request.stream_kind (request e) \<noteq> append_request.stream_kind r")
      case bad: True
      with append_in_kind_changed[OF rep none bad] call show ?thesis by (simp add: spec)
    next
      case ok: False
      then have kind: "append_request.stream_kind (request e) = append_request.stream_kind r"
        if "e \<in> set (stream_log es (stream_id r))" for e using that by blast
      then have str: "streams (db ?s) (stream_id r) = Some (?k, ?n)"
        by (cases "stream_log es (stream_id r)") (simp_all add: streams_insert_stream[OF rep])
      show ?thesis
      proof (cases "?n = i64_max")
        case True
        then have "res = Inl (AppendStorage ''stream sequence exhausted'')"
          using call str unfolding append_in_def none Let_def by simp
        with ok True show ?thesis by (simp add: spec)
      next
        case False
        with log_wf_bound[OF wf, of "stream_id r"] have room: "?n < i64_max" by simp
        have "append_new en ?s r ?n = (s', res)"
          using call str False unfolding append_in_def none Let_def by simp
        from append_new_refines[OF rep _ valid room dup kind this] ok False show ?thesis
          by (simp add: spec peek_id_def peek_clock_def split: if_splits)
      qed
    qed
  qed
qed

lemma log_append_prefix: "log_append es r eid at = Inr (es', e) \<Longrightarrow> \<exists>new. es' = es @ new \<and> e \<in> set es'"
  unfolding log_append_def by (auto split: option.splits if_splits dest: find_SomeD)

section \<open>Reads\<close>

definition read_log :: "committed_event list \<Rightarrow> stream_id \<Rightarrow> u64 \<Rightarrow> u64 \<Rightarrow> committed_event list" where
  "read_log es stream after limit = take (unat limit) (filter (\<lambda>e. after < sequence e) (stream_log es stream))"

definition text_found :: "engine \<Rightarrow> event_query \<Rightarrow> committed_event \<Rightarrow> bool" where
  "text_found en q e = is_none_or (\<lambda>t. is_some_and (\<lambda>m. fts_match en m (search_row_of e)) (literal_search_query en t)) (text_query q)"

definition query_log :: "engine \<Rightarrow> committed_event list \<Rightarrow> stream_id \<Rightarrow> event_query \<Rightarrow> u64 \<Rightarrow> committed_event list" where
  "query_log en es stream q limit =
     (let found = filter (\<lambda>e. query_matches q e \<and> text_found en q e) (stream_log es stream)
      in take (unat limit) (if descending q then rev found else found))"

lemma sql_limit_small:
  assumes "int (length xs) < i64_max"
  shows "sql_limit n xs = take (unat n) xs"
proof (cases "uint n \<le> i64_max")
  case True
  then show ?thesis unfolding sql_limit_def i64_of_u64_def if_P[OF True] option.case by (simp only: unat_eq_nat_uint)
next
  case False
  then have "length xs \<le> nat i64_max" "length xs \<le> unat n" using assms unfolding unat_eq_nat_uint by linarith+
  then show ?thesis
    unfolding sql_limit_def i64_of_u64_def if_not_P[OF False] option.case by (simp only: take_all)
qed

lemma stream_log_sorted: "log_wf es \<Longrightarrow> sorted (map (\<lambda>e. uint (sequence e)) (filter P (stream_log es i)))"
  by (rule sorted_filter) (simp add: log_wf_sequences)

text \<open>Selecting rows of a stream, ordering them and decoding them gives the events of the log.\<close>

lemma select_rows:
  assumes rep: "represents d es" and P: "\<And>e. e \<in> set es \<Longrightarrow> stream_id (request e) = i \<Longrightarrow> P (row_of e) = Q e"
  shows "sort_key c_sequence (filter (\<lambda>row. c_stream_id row = i \<and> P row) (events d)) = map row_of (filter Q (stream_log es i))"
proof -
  have "filter (\<lambda>row. c_stream_id row = i \<and> P row) (map row_of es) = map row_of (filter (\<lambda>e. stream_id (request e) = i \<and> Q e) es)"
    unfolding filter_map comp_def row_of_simps by (intro arg_cong[where f = "map row_of"] filter_cong refl) (use P in auto)
  then have rows: "filter (\<lambda>row. c_stream_id row = i \<and> P row) (events d) = map row_of (filter Q (stream_log es i))"
    using rep by (simp add: represents_def stream_log_def conj_commute)
  have "sorted (map c_sequence (map row_of (filter Q (stream_log es i))))"
    using stream_log_sorted[of es Q i] rep by (simp add: represents_def comp_def)
  then show ?thesis unfolding rows by (rule sort_key_id_if_sorted)
qed

lemma decode_selected:
  assumes "represents d es" and "xs = filter Q (stream_log es i) \<or> xs = rev (filter Q (stream_log es i))"
  shows "decode_rows en (sql_limit limit (map row_of xs)) = Inr (take (unat limit) xs)"
proof -
  have wf: "log_wf es" using assms(1) by (simp add: represents_def)
  have "int (length xs) \<le> int (length (stream_log es i))" using assms(2) by (auto intro: length_filter_le)
  with log_wf_bound[OF wf, of i] have "sql_limit limit (map row_of xs) = map row_of (take (unat limit) xs)"
    by (simp add: sql_limit_small take_map)
  moreover have "set (take (unat limit) xs) \<subseteq> set es"
    using assms(2) by (auto dest!: in_set_takeD)
  ultimately show ?thesis using decode_rows_of[OF wf] by simp
qed

lemma read_refines:
  assumes "represents (db s) es"
  shows "read_events en s stream after limit = Inr (read_log es stream after limit)"
proof (cases "uint after \<le> i64_max")
  case True
  then have "i64_of_u64 after = Some (uint after)" by (simp add: i64_of_u64_def)
  moreover have "sort_key c_sequence (filter (\<lambda>row. c_stream_id row = stream \<and> uint after < c_sequence row) (events (db s))) =
      map row_of (filter (\<lambda>e. after < sequence e) (stream_log es stream))"
    by (rule select_rows[OF assms]) (simp add: word_less_def)
  ultimately show ?thesis
    unfolding read_events_def read_log_def by (simp add: decode_selected[OF assms disjI1[OF refl]])
next
  case False
  have wf: "log_wf es" using assms by (simp add: represents_def)
  have "\<not> after < sequence e" if "e \<in> set (stream_log es stream)" for e
    using log_wf_sequence_bounds(2)[OF wf, of e] log_wf_bound[OF wf, of stream] that False
    by (auto simp: word_less_def)
  then have "filter (\<lambda>e. after < sequence e) (stream_log es stream) = []" by (simp only: filter_empty_conv) blast
  moreover have "i64_of_u64 after = None" unfolding i64_of_u64_def by (rule if_not_P[OF False])
  ultimately show ?thesis by (simp add: read_events_def read_log_def)
qed

lemma get_refines:
  assumes "represents (db s) es"
  shows "get_event en s eid = Inr (find (\<lambda>e. event_id e = eid) es)"
proof (cases "find (\<lambda>e. event_id e = eid) es")
  case (Some e)
  then have "decode_event (row_of e) = Inr e"
    using assms decode_row_of by (auto simp: represents_def dest!: find_SomeD)
  with Some assms show ?thesis by (simp add: get_event_def represents_def find_map_comp)
qed (use assms in \<open>simp add: get_event_def represents_def find_map_comp\<close>)

lemma search_row_found:
  assumes "log_wf es" and "e \<in> set es"
  shows "list_ex (\<lambda>x. fts_match en m x \<and> s_event_id x = event_id e) (map search_row_of es) = fts_match en m (search_row_of e)"
proof -
  have "x = e" if "x \<in> set es" "event_id x = event_id e" for x
    using log_wf_id_unique[OF assms(1) that(1) assms(2) that(2)] .
  moreover have "s_event_id (search_row_of x) = event_id x" for x by (simp add: search_row_of_def)
  ultimately show ?thesis using assms(2) by (auto simp: list_ex_iff)
qed

lemma query_refines_aux:
  assumes rep: "represents (db s) es" and after: "bind_i64 (after_sequence q) = Some a" and before: "bind_i64 (before_sequence q) = Some b"
    and found: "text_condition en (db s) q = Some P"
  shows "query_events en s stream q limit = Inr (query_log en es stream q limit)"
proof -
  let ?found = "filter (\<lambda>e. query_matches q e \<and> text_found en q e) (stream_log es stream)"
  have wf: "log_wf es" and search: "event_search (db s) = map search_row_of es" using rep by (simp_all add: represents_def)
  have P: "P (row_of e) = text_found en q e" if "e \<in> set es" for e
    using found search_row_found[OF wf that, of en]
    by (auto simp: text_condition_def text_found_def search split: option.splits)
  have "sort_key c_sequence (filter (\<lambda>row. c_stream_id row = stream \<and> is_none_or (\<lambda>a. a < c_sequence row) a \<and>
      is_none_or (\<lambda>b. c_sequence row < b) b \<and> row_matches q row \<and> P row) (events (db s))) = map row_of ?found"
  proof (rule select_rows[OF rep])
    fix e assume "e \<in> set es"
    have "is_none_or (\<lambda>a. a < c_sequence (row_of e)) a = (\<forall>x. after_sequence q = Some x \<longrightarrow> x < sequence e)"
      "is_none_or (\<lambda>b. c_sequence (row_of e) < b) b = (\<forall>x. before_sequence q = Some x \<longrightarrow> sequence e < x)"
      using after before by (auto simp: bind_i64_def i64_of_u64_def word_less_def split: option.splits if_splits)
    moreover have "row_matches q (row_of e) = ((event_types q = [] \<or> event_type (request e) \<in> set (event_types q)) \<and>
        (q_correlation_id q = None \<or> q_correlation_id q = correlation_id (request e)) \<and>
        (q_activity_id q = None \<or> q_activity_id q = activity_id (request e)) \<and>
        (\<forall>t. recorded_from_ms q = Some t \<longrightarrow> t \<le> recorded_at_ms e) \<and> (\<forall>t. recorded_to_ms q = Some t \<longrightarrow> recorded_at_ms e \<le> t))"
      by (cases "recorded_from_ms q"; cases "recorded_to_ms q") (auto simp: row_matches_def row_of_def)
    ultimately show "(is_none_or (\<lambda>a. a < c_sequence (row_of e)) a \<and> is_none_or (\<lambda>b. c_sequence (row_of e) < b) b \<and>
        row_matches q (row_of e) \<and> P (row_of e)) = (query_matches q e \<and> text_found en q e)"
      unfolding query_matches_iff P[OF \<open>e \<in> set es\<close>] by blast
  qed
  then have "query_events en s stream q limit = decode_rows en (sql_limit limit
      (if descending q then rev (map row_of ?found) else map row_of ?found))"
    unfolding query_events_def after before found by simp
  also have "\<dots> = decode_rows en (sql_limit limit (map row_of (if descending q then rev ?found else ?found)))"
    by (simp add: rev_map)
  also have "\<dots> = Inr (query_log en es stream q limit)"
    unfolding query_log_def Let_def
    by (rule decode_selected[OF rep, where i = stream and Q = "\<lambda>e. query_matches q e \<and> text_found en q e"]) simp
  finally show ?thesis .
qed

lemma filter_none: "(\<And>x. x \<in> set xs \<Longrightarrow> \<not> P x) \<Longrightarrow> filter P xs = []"
  by (induction xs) auto

lemma query_log_none:
  "(\<And>e. e \<in> set (stream_log es stream) \<Longrightarrow> \<not> (query_matches q e \<and> text_found en q e)) \<Longrightarrow> query_log en es stream q limit = []"
  by (simp add: query_log_def filter_none del: set_stream_log)

lemma bind_i64_None: "bind_i64 b = None \<longleftrightarrow> (\<exists>n. b = Some n \<and> i64_max < uint n)"
  by (auto simp: bind_i64_def i64_of_u64_def split: option.splits)

lemma sequence_i64: "\<lbrakk>log_wf es; e \<in> set es\<rbrakk> \<Longrightarrow> uint (sequence e) < i64_max"
  using log_wf_sequence_bounds(2) log_wf_bound by (rule le_less_trans)

lemma query_events_bounds:
  assumes rep: "represents (db s) es"
    and before: "bind_i64 (before_sequence q) \<noteq> None"
  shows "query_events en s stream q limit = Inr (query_log en es stream q limit)"
proof (cases "bind_i64 (after_sequence q) = None \<or> text_condition en (db s) q = None")
  case True
  have wf: "log_wf es" using rep by (simp add: represents_def)
  have "\<not> (query_matches q e \<and> text_found en q e)" if "e \<in> set (stream_log es stream)" for e
    using True sequence_i64[OF wf, of e] that
    by (auto simp: bind_i64_None query_matches_iff word_less_def text_condition_def text_found_def split: option.splits)
  then have "query_log en es stream q limit = []" by (rule query_log_none)
  moreover have "query_events en s stream q limit = Inr []"
    using True by (auto simp: query_events_def split: option.splits)
  ultimately show ?thesis by simp
qed (use before query_refines_aux[OF rep] in \<open>auto\<close>)

text \<open>What a query selects from the log, before it is cut at the limit: nothing when its upper bound is no \<open>i64\<close>.\<close>

definition query_answers :: "engine \<Rightarrow> committed_event list \<Rightarrow> stream_id \<Rightarrow> event_query \<Rightarrow> committed_event list" where
  "query_answers en es stream q =
     (if is_some_and (\<lambda>b. i64_max < uint b) (before_sequence q) then []
      else let found = filter (\<lambda>e. query_matches q e \<and> text_found en q e) (stream_log es stream)
        in if descending q then rev found else found)"

lemma query_events_answers:
  assumes "represents (db s) es"
  shows "query_events en s stream q limit = Inr (take (unat limit) (query_answers en es stream q))"
proof (cases "bind_i64 (before_sequence q) = None")
  case True
  then have "query_events en s stream q limit = Inr []" by (simp add: query_events_def split: option.splits)
  moreover have "is_some_and (\<lambda>b. i64_max < uint b) (before_sequence q)"
    using True by (auto simp: bind_i64_None is_some_and_iff)
  ultimately show ?thesis by (simp add: query_answers_def)
next
  case False
  then have "\<not> is_some_and (\<lambda>b. i64_max < uint b) (before_sequence q)" by (auto simp: bind_i64_None is_some_and_iff)
  then show ?thesis using query_events_bounds[OF assms False] by (simp add: query_log_def query_answers_def Let_def)
qed

lemma dedup_unique:
  assumes "distinct (dedup_pairs es)" and "a \<in> set es" "b \<in> set es" and "stream_id (request a) = stream_id (request b)"
    and "deduplication_key (request a) = deduplication_key (request b)" and "deduplication_key (request a) \<noteq> None"
  shows "a = b"
  using assms
proof (induction es)
  case (Cons y ys)
  then show ?case
    by (cases "deduplication_key (request y)") (auto simp: dedup_pairs_def List.map_filter_def image_iff)
qed simp

lemma log_append_event:
  assumes "log_append es r eid at = Inr (es', e)"
  shows "validate_append r = Inr ()" and "e \<in> set es'" and "stream_id (request e) = stream_id r"
    and "deduplication_key r \<noteq> None \<Longrightarrow> deduplication_key (request e) = deduplication_key r"
  using assms by (auto simp: log_append_def split: option.splits if_splits dest!: find_SomeD)

lemma log_append_found:
  assumes new: "log_append es r eid at = Inr (es', e)" and wf: "log_wf es'" and key: "deduplication_key r \<noteq> None"
  shows "find (\<lambda>e. deduplication_key (request e) = deduplication_key r) (stream_log es' (stream_id r)) = Some e"
proof -
  note e = log_append_event[OF new]
  obtain x where x: "find (\<lambda>e. deduplication_key (request e) = deduplication_key r) (stream_log es' (stream_id r)) = Some x"
    using e key by (cases "find (\<lambda>e. deduplication_key (request e) = deduplication_key r) (stream_log es' (stream_id r))")
      (auto simp: find_None_iff)
  have "x = e"
    using dedup_unique[OF log_wf_distinct(2)[OF wf], of x e] find_SomeD[OF x] e key by simp
  with x show ?thesis by simp
qed

text \<open>Sequences are positions, so what follows a sequence is a suffix of the stream.\<close>

lemma filter_positions:
  "\<lbrakk>map f xs = [1..int (length xs)]; 0 \<le> k\<rbrakk> \<Longrightarrow> filter (\<lambda>x. k < f x) xs = drop (nat k) xs"
proof (induction xs rule: rev_induct)
  case (snoc x xs)
  then have "map f xs @ [f x] = [1..int (length xs)] @ [int (length xs) + 1]" by (simp add: upto_rec2)
  then have "map f xs = [1..int (length xs)]" "f x = int (length xs) + 1" by simp_all
  with snoc show ?case by (auto simp: nat_le_iff)
qed simp

lemma read_log_drop:
  assumes "log_wf es"
  shows "read_log es stream after limit = take (unat limit) (drop (unat after) (stream_log es stream))"
proof -
  have "filter (\<lambda>e. after < sequence e) (stream_log es stream) = filter (\<lambda>e. uint after < uint (sequence e)) (stream_log es stream)"
    by (simp add: word_less_def)
  also have "\<dots> = drop (nat (uint after)) (stream_log es stream)"
    by (rule filter_positions) (simp_all add: log_wf_sequences[OF assms])
  finally show ?thesis by (simp add: read_log_def)
qed

lemma stream_log_nth:
  assumes "log_wf es" and "e \<in> set es"
  shows "unat (sequence e) - 1 < length (stream_log es (stream_id (request e)))"
    and "stream_log es (stream_id (request e)) ! (unat (sequence e) - 1) = e"
proof -
  let ?xs = "stream_log es (stream_id (request e))"
  have "e \<in> set ?xs" using assms(2) by simp
  then obtain i where i: "i < length ?xs" "?xs ! i = e" by (meson in_set_conv_nth)
  have "uint (sequence e) = map (\<lambda>e. uint (sequence e)) ?xs ! i" using i by simp
  also have "\<dots> = int i + 1" using i(1) by (simp only: log_wf_sequences[OF assms(1)]) simp
  finally have "unat (sequence e) = Suc i" unfolding unat_eq_nat_uint by simp
  with i show "unat (sequence e) - 1 < length ?xs" "?xs ! (unat (sequence e) - 1) = e" by simp_all
qed

lemma append_event_log:
  assumes "represents (db s) es" and "append_event en s r = (s', res)"
  shows "case log_append es r (peek_id s) (peek_clock s) of
      Inl e \<Rightarrow> res = Inl e \<and> db s' = db s
    | Inr (es', e) \<Rightarrow> res = Inr e \<and> represents (db s') es' \<and> same_state (db s) (db s')"
proof -
  obtain s1 where "append_in en s r = (s1, res)" and "s' = (case res of Inl _ \<Rightarrow> s1\<lparr>db := db s\<rparr> | Inr _ \<Rightarrow> s1)"
    using assms(2) by (auto simp: append_event_def in_transaction_def split: prod.splits sum.splits)
  with append_in_refines[OF assms(1)] show ?thesis by (fastforce split: sum.splits)
qed

text \<open>A successful append extends the log by at most one event, and the log holds what it returned.\<close>

lemma append_event_ok:
  assumes "represents (db s) es" and "append_event en s r = (s', Inr e)"
  obtains es' where "log_append es r (peek_id s) (peek_clock s) = Inr (es', e)" and "represents (db s') es'"
    and "same_state (db s) (db s')" and "e \<in> set es'"
  using append_event_log[OF assms] log_append_prefix
  by (cases "log_append es r (peek_id s) (peek_clock s)") (auto split: prod.splits)

lemma append_event_error:
  assumes "represents (db s) es" and "append_event en s r = (s', Inl e)"
  shows "db s' = db s"
  using append_event_log[OF assms] by (auto split: sum.splits prod.splits)

section \<open>The event store\<close>

lemma found_under_id:
  assumes "log_wf es" and "e \<in> set es"
  shows "find (\<lambda>x. event_id x = event_id e) es = Some e"
proof -
  obtain x where x: "find (\<lambda>x. event_id x = event_id e) es = Some x"
    using assms(2) by (cases "find (\<lambda>x. event_id x = event_id e) es") (auto simp: find_None_iff)
  moreover have "x = e" by (rule log_wf_id_unique[OF assms(1) _ assms(2)]) (use find_SomeD[OF x] in simp_all)
  ultimately show ?thesis by simp
qed

lemma drop_before_event:
  assumes "log_wf es" and "e \<in> set es"
  shows "drop (unat (sequence e - 1)) (stream_log es (stream_id (request e))) = e # drop (unat (sequence e)) (stream_log es (stream_id (request e)))"
proof -
  have pos: "0 < unat (sequence e)" using log_wf_sequence_bounds(1)[OF assms] unfolding unat_eq_nat_uint by linarith
  then have "unat (sequence e - 1) = unat (sequence e) - 1" by (subst unat_minus_one) auto
  with pos Cons_nth_drop_Suc[OF stream_log_nth(1)[OF assms]] stream_log_nth(2)[OF assms] show ?thesis by simp
qed

text \<open>An append returns a new event, which ends its stream, or the event that has its key.\<close>

lemma log_append_new_or_found:
  assumes "log_wf es" and "log_append es r eid at = Inr (es', e)"
  shows "if find (\<lambda>x. event_id x = event_id e) es = None then request e = r \<and> drop (unat (sequence e)) (stream_log es' (stream_id r)) = []
    else find (\<lambda>x. event_id x = event_id e) es = Some e \<and> deduplication_key r \<noteq> None \<and> deduplication_key (request e) = deduplication_key r"
proof (cases "es' = es")
  case True
  with assms(2) have "e \<in> set es" "deduplication_key r \<noteq> None" "deduplication_key (request e) = deduplication_key r"
    by (auto simp: log_append_def split: option.splits if_splits dest!: find_SomeD)
  with found_under_id[OF assms(1)] show ?thesis by simp
next
  case False
  with assms(2) have e: "e = new_event es r eid at" "es' = es @ [e]" "eid \<notin> event_id ` set es"
    by (auto simp: log_append_def split: option.splits if_splits)
  have none: "find (\<lambda>x. event_id x = event_id e) es = None" using e(1,3) by (auto simp: find_None_iff new_event_def)
  have "uint (sequence e) = int (length (stream_log es (stream_id r))) + 1"
    unfolding e(1) by (rule new_event_sequence[OF log_wf_bound[OF assms(1)]])
  then have "unat (sequence e) = length (stream_log es' (stream_id r))" using e by (simp add: stream_log_def unat_eq_nat_uint new_event_def)
  then show ?thesis using none e(1) by (simp add: new_event_def)
qed

text \<open>C2: The SQLite store implements the abstract log. If the tables represent a well-formed log, an append
  behaves as the log's: a request that fails validation, changes the kind of its stream, exhausts the sequence or
  collides on its identifier gives that error and leaves the whole database as it was; a repeated deduplication key gives
  the original event; anything else is stored at the next gapless position of its stream, and the
  tables then represent the extended log, with the state, cursor and credential tables untouched.\<close>

theorem append_refines_log:
  assumes "represents (db s) es" and "append_event en s r = (s', res)"
  shows "case log_append es r (peek_id s) (peek_clock s) of
      Inl e \<Rightarrow> res = Inl e \<and> db s' = db s
    | Inr (es', e) \<Rightarrow> res = Inr e \<and> represents (db s') es' \<and> same_state (db s) (db s')"
  using assms by (rule append_event_log)

abbreviation demo_engine :: engine where
  "demo_engine \<equiv> \<lparr>sql_text = (\<lambda>_. []), fts_match = (\<lambda>_ _. True), is_alphanumeric = (\<lambda>_. True)\<rparr>"

abbreviation demo_store :: store where
  "demo_store \<equiv> \<lparr>metadata = \<lparr>event_ids = (\<lambda>n. replicate n CHR ''x''), clock = int, ids_taken = 0, clock_reads = 0\<rparr>,
     db = empty_database\<rparr>"

abbreviation demo_request :: append_request where
  "demo_request \<equiv> \<lparr>stream_id = ''personal'', stream_kind = AgentStream, observed_at_ms = None,
     event_type = ''capability.completed'', payload_schema = ''test/1'', payload = CanonicalJson ''{}'',
     actor = \<lparr>pr_kind = Component, pr_id = ''shell-1''\<rparr>, authority_id = None, activity_id = None,
     correlation_id = None, causation_id = None, deduplication_key = Some ''call-1''\<rparr>"

abbreviation demo_event :: committed_event where
  "demo_event \<equiv> \<lparr>schema = event_schema, event_id = [], sequence = 1, recorded_at_ms = 0, request = demo_request\<rparr>"

lemma demo_append: "log_append [] demo_request (peek_id demo_store) (peek_clock demo_store) = Inr ([demo_event], demo_event)"
  by (simp add: log_append_def validate_append_def stream_log_def new_event_def peek_id_def peek_clock_def)

theorem append_refines_log_witness:
  "\<exists>s'. append_event demo_engine demo_store demo_request = (s', Inr demo_event) \<and> represents (db s') [demo_event]"
proof -
  obtain s' res where call: "append_event demo_engine demo_store demo_request = (s', res)" by fastforce
  have "represents (db demo_store) []" by (simp add: represents_empty)
  from append_refines_log[OF this call] call show ?thesis by (simp add: demo_append)
qed

text \<open>Appending is idempotent. After a request with a deduplication key was accepted, repeating it
  returns the same event again and changes nothing, not even the source of identifiers.\<close>

theorem append_idempotent:
  assumes "represents (db s) es" and "append_event en s r = (s', Inr e)" and "deduplication_key r \<noteq> None"
  shows "append_event en s' r = (s', Inr e)"
proof -
  from append_event_ok[OF assms(1,2)] obtain es' where new: "log_append es r (peek_id s) (peek_clock s) = Inr (es', e)"
    and rep: "represents (db s') es'" by blast
  have "find (\<lambda>e. deduplication_key (request e) = deduplication_key r) (stream_log es' (stream_id r)) = Some e"
    using rep by (intro log_append_found[OF new _ assms(3)]) (simp add: represents_def)
  then have "find_duplicate en (db s') r = Inr (Some e)"
    unfolding find_duplicate_refines[OF rep] if_not_P[OF assms(3)] by (rule arg_cong)
  with log_append_event(1)[OF new] have "append_in en s' r = (s', Inr e)" by (simp add: append_in_def)
  then show ?thesis by (simp add: append_event_def in_transaction_def)
qed

theorem append_idempotent_witness:
  "\<exists>s'. append_event demo_engine demo_store demo_request = (s', Inr demo_event) \<and>
     append_event demo_engine s' demo_request = (s', Inr demo_event)"
proof -
  obtain s' res where call: "append_event demo_engine demo_store demo_request = (s', res)" by fastforce
  have rep: "represents (db demo_store) []" by (simp add: represents_empty)
  from append_event_log[OF rep call] have "res = Inr demo_event" by (simp add: demo_append)
  with append_idempotent[OF rep, of demo_engine demo_request s' demo_event] call show ?thesis by simp
qed

text \<open>C6: What an append returned can be read back: the event is found under its identifier, and
  reading its stream from just before its sequence gives it first. When no event had this identifier before, the append stored the
  request as it was given, and the event is the last of its stream: nothing is read after it. Otherwise the
  request's deduplication key was taken, and the event is the one that was found under its identifier before.\<close>

theorem append_then_read:
  assumes "represents (db s) es" and "append_event en s r = (s', Inr e)" and "limit \<noteq> 0"
  shows "get_event en s' (event_id e) = Inr (Some e) \<and>
    (\<exists>rest. read_events en s' (stream_id r) (sequence e - 1) limit = Inr (e # rest)) \<and>
    (if get_event en s (event_id e) = Inr None then request e = r \<and> read_events en s' (stream_id r) (sequence e) limit = Inr []
     else get_event en s (event_id e) = Inr (Some e) \<and> deduplication_key r \<noteq> None \<and> deduplication_key (request e) = deduplication_key r)"
proof -
  from append_event_ok[OF assms(1,2)] obtain es' where new: "log_append es r (peek_id s) (peek_clock s) = Inr (es', e)"
    and rep: "represents (db s') es'" and e: "e \<in> set es'" by blast
  then have wf: "log_wf es'" by (simp add: represents_def)
  have id: "stream_id (request e) = stream_id r" by (rule log_append_event(3)[OF new])
  obtain n where n: "unat limit = Suc n" using assms(3) by (cases "unat limit") (simp_all add: unsigned_eq_0_iff)
  have "read_events en s' (stream_id r) (sequence e - 1) limit = Inr (e # take n (drop (unat (sequence e)) (stream_log es' (stream_id r))))"
    unfolding read_refines[OF rep] read_log_drop[OF wf] using drop_before_event[OF wf e] id n by simp
  moreover have "get_event en s' (event_id e) = Inr (Some e)" using found_under_id[OF wf e] by (simp add: get_refines[OF rep])
  moreover have "if get_event en s (event_id e) = Inr None then request e = r \<and> read_events en s' (stream_id r) (sequence e) limit = Inr []
     else get_event en s (event_id e) = Inr (Some e) \<and> deduplication_key r \<noteq> None \<and> deduplication_key (request e) = deduplication_key r"
    using log_append_new_or_found[OF _ new] assms(1) unfolding get_refines[OF assms(1)] read_refines[OF rep] read_log_drop[OF wf]
    by (auto simp: represents_def)
  ultimately show ?thesis by blast
qed

theorem append_then_read_witness:
  "\<exists>s'. append_event demo_engine demo_store demo_request = (s', Inr demo_event) \<and> get_event demo_engine s' [] = Inr (Some demo_event) \<and>
     (\<exists>rest. read_events demo_engine s' ''personal'' 0 1 = Inr (demo_event # rest)) \<and> read_events demo_engine s' ''personal'' 1 1 = Inr []"
proof -
  obtain s' res where call: "append_event demo_engine demo_store demo_request = (s', res)" by fastforce
  have rep: "represents (db demo_store) []" by (simp add: represents_empty)
  from append_event_log[OF rep call] have "res = Inr demo_event" by (simp add: demo_append)
  with append_then_read[OF rep, of demo_engine demo_request s' demo_event 1] call show ?thesis by (simp add: get_refines[OF rep])
qed

text \<open>C5: A history query returns exactly the events of the stream that satisfy \<open>EventQuery::matches\<close> and the full-text
  condition, in sequence order or its reverse, cut at the limit, unless its upper bound exceeds the largest \<open>i64\<close>: then it returns
  nothing.\<close>

theorem query_refines_matches:
  assumes "represents (db s) es"
  shows "query_events en s stream q limit =
    Inr (if is_some_and (\<lambda>b. i64_max < uint b) (before_sequence q) then [] else query_log en es stream q limit)"
  unfolding query_events_answers[OF assms] by (simp add: query_answers_def query_log_def Let_def)

theorem query_refines_matches_witness:
  "\<exists>s'. append_event demo_engine demo_store demo_request = (s', Inr demo_event) \<and>
     query_events demo_engine s' ''personal'' (default_query\<lparr>event_types := [''capability.completed''], before_sequence := Some 5\<rparr>) 10 = Inr [demo_event] \<and>
     query_events demo_engine s' ''personal'' (default_query\<lparr>event_types := [''timer.fired'']\<rparr>) 10 = Inr [] \<and>
     query_events demo_engine s' ''personal'' (default_query\<lparr>before_sequence := Some (- 1)\<rparr>) 10 = Inr []"
proof -
  obtain s' res where call: "append_event demo_engine demo_store demo_request = (s', res)" by fastforce
  have rep: "represents (db demo_store) []" by (simp add: represents_empty)
  from append_event_log[OF rep call] have res: "res = Inr demo_event" and rep': "represents (db s') [demo_event]"
    by (simp_all add: demo_append)
  have "i64_max < uint (- 1 :: u64)" by (simp add: unsigned_minus_1_eq_mask mask_eq_exp_minus_1)
  with query_refines_matches[OF rep'] call res show ?thesis
    by (simp add: query_log_def stream_log_def query_matches_iff default_query_def text_found_def)
qed

text \<open>C11: An upper bound above the largest \<open>i64\<close> makes a query return nothing, although every stored
  event is below the bound and \<open>EventQuery::matches\<close> accepts it.\<close>

theorem query_large_bound_empty:
  assumes "represents (db s) es" and "i64_max < uint b" and "e \<in> set es"
  shows "query_events en s (stream_id (request e)) (default_query\<lparr>before_sequence := Some b\<rparr>) limit = Inr [] \<and>
    query_matches (default_query\<lparr>before_sequence := Some b\<rparr>) e"
proof -
  have "bind_i64 (Some b) = None" using assms(2) by (simp add: bind_i64_None)
  then have "query_events en s (stream_id (request e)) (default_query\<lparr>before_sequence := Some b\<rparr>) limit = Inr []"
    by (simp add: query_events_def split: option.splits)
  moreover have "uint (sequence e) < uint b"
    using sequence_i64[of es e] assms by (auto simp: represents_def)
  ultimately show ?thesis by (simp add: query_matches_iff default_query_def word_less_def)
qed

theorem query_large_bound_empty_witness:
  "\<exists>s'. append_event demo_engine demo_store demo_request = (s', Inr demo_event) \<and>
     query_events demo_engine s' ''personal'' (default_query\<lparr>before_sequence := Some (- 1)\<rparr>) 10 = Inr []"
proof -
  obtain s' res where call: "append_event demo_engine demo_store demo_request = (s', res)" by fastforce
  have rep: "represents (db demo_store) []" by (simp add: represents_empty)
  from append_event_log[OF rep call] have res: "res = Inr demo_event" and rep': "represents (db s') [demo_event]"
    by (simp_all add: demo_append)
  have "i64_max < uint (- 1 :: u64)" by (simp add: unsigned_minus_1_eq_mask mask_eq_exp_minus_1)
  from query_large_bound_empty[OF rep' this, of demo_event demo_engine 10] res call show ?thesis by simp
qed

end
