(* ===== verification/Delivery.thy ===== *)
theory Delivery
  imports Events
begin

text \<open>
  The data of the state and delivery traits of \<open>pluribus-core\<close> (\<open>state.rs\<close>, \<open>delivery.rs\<close>): snapshots, pages
  and mutations of a component's state, and the delivery commit with the checks every store makes on it.
\<close>

section \<open>Component state\<close>

type_synonym state_namespace = string

record state_entry =
  entry_key :: string
  entry_value :: bytes

record state_snapshot =
  snapshot_revision :: u64
  snapshot_value :: "bytes option"

record state_page =
  page_entries :: "state_entry list"
  next_key :: "string option"
  page_revision :: u64

datatype state_mutation = SetKey string bytes | DeleteKey string

datatype state_error =
    StateConflict u64 u64 \<comment> \<open>expected, actual\<close>
  | StateInvalid string
  | StateStorage string

definition state_error_display :: "state_error \<Rightarrow> string" where
  "state_error_display e = (case e of
       StateConflict expected actual \<Rightarrow>
         ''state revision conflict: expected '' @ show_u64 expected @ '', actual '' @ show_u64 actual
     | StateInvalid m \<Rightarrow> ''invalid state operation: '' @ m
     | StateStorage m \<Rightarrow> ''state storage failed: '' @ m)"

section \<open>Deliveries\<close>

record cursor_key =
  cursor_stream :: stream_id
  cursor_namespace :: state_namespace

record delivery_commit =
  cursor :: cursor_key
  expected_checkpoint :: u64
  checkpoint :: "u64 option"
  mutations :: "state_mutation list"
  commit_events :: "append_request list"

record delivery_receipt =
  receipt_events :: "committed_event list"
  receipt_checkpoint :: u64
  receipt_revision :: u64

datatype delivery_error =
    DeliveryConflict u64 u64 \<comment> \<open>expected, actual\<close>
  | Regressed u64 u64 \<comment> \<open>from, to\<close>
  | DeliveryInvalid string
  | DeliveryAppend append_error
  | DeliveryState state_error
  | DeliveryStorage string

definition delivery_error_display :: "delivery_error \<Rightarrow> string" where
  "delivery_error_display e = (case e of
       DeliveryConflict expected actual \<Rightarrow>
         ''delivery checkpoint conflict: expected '' @ show_u64 expected @ '', actual '' @ show_u64 actual
     | Regressed f t \<Rightarrow> ''delivery checkpoint regressed: '' @ show_u64 f @ '' to '' @ show_u64 t
     | DeliveryInvalid m \<Rightarrow> ''invalid delivery: '' @ m
     | DeliveryAppend a \<Rightarrow> append_error_display a
     | DeliveryState s \<Rightarrow> state_error_display s
     | DeliveryStorage m \<Rightarrow> ''delivery storage failed: '' @ m)"

text \<open>\<open>sort_unstable\<close> and \<open>dedup\<close> as the code uses them: adjacent equal keys are dropped after sorting.\<close>

fun dedup :: "'a list \<Rightarrow> 'a list" where
  "dedup (x # y # zs) = (if x = y then dedup (y # zs) else x # dedup (y # zs))"
| "dedup xs = xs"

definition validate_event_of :: "stream_id \<Rightarrow> append_request \<Rightarrow> delivery_error + unit" where
  "validate_event_of stream r =
     (if stream_id r \<noteq> stream then Inl (DeliveryInvalid ''event targets another stream'')
      else map_err DeliveryAppend (validate_append r))"

definition validate_commit :: "delivery_commit \<Rightarrow> delivery_error + unit" where
  "validate_commit c =
     (if cursor_stream (cursor c) = [] then Inl (DeliveryInvalid ''stream ID is empty'')
      else if cursor_namespace (cursor c) = [] then Inl (DeliveryInvalid ''namespace is empty'')
      else case (case checkpoint c of
                   Some n \<Rightarrow> if n < expected_checkpoint c then Some (Regressed (expected_checkpoint c) n) else None
                 | None \<Rightarrow> None) of
          Some e \<Rightarrow> Inl e
        | None \<Rightarrow>
          rbind (for_each (validate_event_of (cursor_stream (cursor c))) (commit_events c)) (\<lambda>_.
            let keys = List.map_filter deduplication_key (commit_events c) in
            if length (dedup (sort keys)) \<noteq> length keys
            then Inl (DeliveryInvalid ''batch repeats a deduplication key'') else Inr ()))"

section \<open>Facts\<close>

lemma set_dedup [simp]: "set (dedup xs) = set xs"
  by (induction xs rule: dedup.induct) auto

lemma length_dedup: "length (dedup xs) \<le> length xs"
  by (induction xs rule: dedup.induct) auto

lemma dedup_sorted:
  "sorted xs \<Longrightarrow> length (dedup xs) = length xs \<longleftrightarrow> distinct xs"
proof (induction xs rule: dedup.induct)
  case (1 x y zs)
  have "x \<notin> set zs" if "x \<noteq> y"
    using 1(3) that by auto
  moreover have "length (dedup (y # zs)) < Suc (length (y # zs))" using length_dedup[of "y # zs"] by simp
  ultimately show ?case using 1 by (cases "x = y") auto
qed simp_all

lemma validate_commit_Inr:
  "validate_commit c = Inr u \<longleftrightarrow>
     cursor_stream (cursor c) \<noteq> [] \<and> cursor_namespace (cursor c) \<noteq> [] \<and>
     (\<forall>n. checkpoint c = Some n \<longrightarrow> expected_checkpoint c \<le> n) \<and>
     (\<forall>r \<in> set (commit_events c). stream_id r = cursor_stream (cursor c) \<and> validate_append r = Inr ()) \<and>
     distinct (List.map_filter deduplication_key (commit_events c))"
proof -
  have "length (dedup (sort ks)) = length ks \<longleftrightarrow> distinct ks" for ks :: "string list"
    using dedup_sorted[of "sort ks"] by simp
  moreover have "validate_event_of i r = Inr () \<longleftrightarrow> stream_id r = i \<and> validate_append r = Inr ()" for i r
    by (auto simp: validate_event_of_def)
  ultimately show ?thesis
    unfolding validate_commit_def by (cases "checkpoint c") (auto simp: Let_def not_less)
qed

end
