(* ===== verification/Sqlite_State.thy ===== *)
theory Sqlite_State
  imports Sqlite_Log Delivery
begin

text \<open>
  Component state and deliveries in the SQLite store. Revisions and cursors are stored as decimal text. A
  delivery commits the events it proposed, the state it changed and its cursor in one transaction. The
  foreign key of \<open>component_state\<close> always holds when a row is inserted, because both callers insert the
  namespace first.
\<close>

section \<open>Component state\<close>

definition state_revision :: "database \<Rightarrow> state_namespace \<Rightarrow> state_error + u64" where
  "state_revision d ns = map_err (\<lambda>m. StateStorage (''invalid state revision: '' @ m))
     (parse_u64 (case state_namespaces d ns of Some t \<Rightarrow> t | None \<Rightarrow> ''0''))"

definition insert_namespace :: "database \<Rightarrow> state_namespace \<Rightarrow> database" where
  "insert_namespace d ns = (case state_namespaces d ns of
       None \<Rightarrow> d\<lparr>state_namespaces := (state_namespaces d)(ns \<mapsto> ''0'')\<rparr>
     | Some _ \<Rightarrow> d)"

definition update_revision :: "database \<Rightarrow> state_namespace \<Rightarrow> u64 \<Rightarrow> database" where
  "update_revision d ns n = (case state_namespaces d ns of
       None \<Rightarrow> d
     | Some _ \<Rightarrow> d\<lparr>state_namespaces := (state_namespaces d)(ns \<mapsto> show_u64 n)\<rparr>)"

definition apply_mutation :: "state_namespace \<Rightarrow> state_mutation \<Rightarrow> database \<Rightarrow> database" where
  "apply_mutation ns m d = (case m of
       SetKey k v \<Rightarrow> d\<lparr>component_state := btree_insert (ns, k) v (component_state d)\<rparr>
     | DeleteKey k \<Rightarrow> d\<lparr>component_state := btree_remove (ns, k) (component_state d)\<rparr>)"

definition state_get :: "store \<Rightarrow> state_namespace \<Rightarrow> string \<Rightarrow> state_error + state_snapshot" where
  "state_get s ns k = rbind (state_revision (db s) ns) (\<lambda>revn.
     Inr \<lparr>snapshot_revision = revn, snapshot_value = btree_get (component_state (db s)) (ns, k)\<rparr>)"

text \<open>SQLite's \<open>length\<close> and \<open>substr\<close> of a text count characters and stop at a NUL.\<close>

definition until_nul :: "string \<Rightarrow> string" where
  "until_nul t = takeWhile (\<lambda>c. c \<noteq> CHR 0x00) t"

definition sql_length :: "string \<Rightarrow> nat" where
  "sql_length t = length (utf8_chunks (until_nul t))"

definition sql_has_prefix :: "string \<Rightarrow> string \<Rightarrow> bool" where
  "sql_has_prefix prefix k \<longleftrightarrow> take_chars (sql_length prefix) (until_nul k) = prefix"

definition state_scan ::
  "store \<Rightarrow> state_namespace \<Rightarrow> string \<Rightarrow> string option \<Rightarrow> u64 \<Rightarrow> state_error + state_page" where
  "state_scan s ns prefix after_key limit =
     rbind (state_revision (db s) ns) (\<lambda>revn.
       let rows = filter (\<lambda>((n, k), v). n = ns \<and> sql_has_prefix prefix k \<and> is_none_or (\<lambda>a. a < k) after_key)
             (component_state (db s));
           rows = sql_limit (saturating_add limit 1) (sort_key (\<lambda>((n, k), v). k) rows);
           entries = map (\<lambda>((n, k), v). \<lparr>entry_key = k, entry_value = v\<rparr>) rows;
           has_more = unat limit < length entries;
           entries = take (unat limit) entries
       in Inr \<lparr>page_entries = entries,
           next_key = (if has_more \<and> entries \<noteq> [] then Some (entry_key (last entries)) else None),
           page_revision = revn\<rparr>)"

definition state_apply_in ::
  "store \<Rightarrow> state_namespace \<Rightarrow> u64 \<Rightarrow> state_mutation list \<Rightarrow> store \<times> (state_error + u64)" where
  "state_apply_in s ns expected ms =
     (let d = insert_namespace (db s) ns; s = s\<lparr>db := d\<rparr> in
      case state_revision d ns of
        Inl e \<Rightarrow> (s, Inl e)
      | Inr actual \<Rightarrow>
        if actual \<noteq> expected then (s, Inl (StateConflict expected actual))
        else if ms = [] then (s, Inr actual)
        else
          let d = fold (apply_mutation ns) ms d in
          case checked_add actual 1 of
            None \<Rightarrow> (s\<lparr>db := d\<rparr>, Inl (StateStorage ''state revision exhausted''))
          | Some revn \<Rightarrow> (s\<lparr>db := update_revision d ns revn\<rparr>, Inr revn))"

definition state_apply ::
  "store \<Rightarrow> state_namespace \<Rightarrow> u64 \<Rightarrow> state_mutation list \<Rightarrow> store \<times> (state_error + u64)" where
  "state_apply s ns expected ms = in_transaction (\<lambda>s. state_apply_in s ns expected ms) s"

section \<open>Deliveries\<close>

definition read_checkpoint :: "database \<Rightarrow> cursor_key \<Rightarrow> delivery_error + u64" where
  "read_checkpoint d c = map_err (\<lambda>m. DeliveryStorage (''invalid delivery checkpoint: '' @ m))
     (parse_u64 (case delivery_cursors d (cursor_stream c, cursor_namespace c) of Some t \<Rightarrow> t | None \<Rightarrow> ''0''))"

definition delivery_checkpoint :: "store \<Rightarrow> cursor_key \<Rightarrow> delivery_error + u64" where
  "delivery_checkpoint s c = read_checkpoint (db s) c"

definition commit_state ::
  "database \<Rightarrow> state_namespace \<Rightarrow> state_mutation list \<Rightarrow> database \<times> (delivery_error + u64)" where
  "commit_state d ns ms =
     (let d = insert_namespace d ns in
      case state_revision d ns of
        Inl e \<Rightarrow> (d, Inl (DeliveryState e))
      | Inr revn \<Rightarrow>
        if ms = [] then (d, Inr revn)
        else
          let d = fold (apply_mutation ns) ms d in
          case checked_add revn 1 of
            None \<Rightarrow> (d, Inl (DeliveryStorage ''state revision exhausted''))
          | Some revn \<Rightarrow> (update_revision d ns revn, Inr revn))"

primrec append_all :: "engine \<Rightarrow> store \<Rightarrow> append_request list \<Rightarrow> store \<times> (append_error + committed_event list)" where
  "append_all en s [] = (s, Inr [])"
| "append_all en s (r # rs) =
     (let (s, a) = append_in en s r in
      case a of
        Inl e \<Rightarrow> (s, Inl e)
      | Inr e \<Rightarrow> let (s, b) = append_all en s rs in (s, rbind b (\<lambda>es. Inr (e # es))))"

definition commit_cursor :: "database \<Rightarrow> cursor_key \<Rightarrow> u64 \<Rightarrow> database" where
  "commit_cursor d c n =
     d\<lparr>delivery_cursors := (delivery_cursors d)((cursor_stream c, cursor_namespace c) \<mapsto> show_u64 n)\<rparr>"

definition commit_in :: "engine \<Rightarrow> delivery_commit \<Rightarrow> store \<Rightarrow> store \<times> (delivery_error + delivery_receipt)" where
  "commit_in en c s =
     (case read_checkpoint (db s) (cursor c) of
        Inl e \<Rightarrow> (s, Inl e)
      | Inr stored \<Rightarrow>
        if stored \<noteq> expected_checkpoint c then (s, Inl (DeliveryConflict (expected_checkpoint c) stored))
        else
          let (d, r) = commit_state (db s) (cursor_namespace (cursor c)) (mutations c); s = s\<lparr>db := d\<rparr> in
          case r of
            Inl e \<Rightarrow> (s, Inl e)
          | Inr revision \<Rightarrow>
            let (s, a) = append_all en s (commit_events c) in
            case a of
              Inl e \<Rightarrow> (s, Inl (DeliveryAppend e))
            | Inr es \<Rightarrow>
              (case checkpoint c of None \<Rightarrow> s | Some n \<Rightarrow> s\<lparr>db := commit_cursor (db s) (cursor c) n\<rparr>,
               Inr \<lparr>receipt_events = es,
                    receipt_checkpoint = (case checkpoint c of None \<Rightarrow> stored | Some n \<Rightarrow> n),
                    receipt_revision = revision\<rparr>))"

definition store_commit :: "engine \<Rightarrow> store \<Rightarrow> delivery_commit \<Rightarrow> store \<times> (delivery_error + delivery_receipt)" where
  "store_commit en s c = (case validate_commit c of
       Inl e \<Rightarrow> (s, Inl e)
     | Inr _ \<Rightarrow> in_transaction (commit_in en c) s)"

definition delivery_discard :: "store \<Rightarrow> cursor_key \<Rightarrow> store \<times> (delivery_error + unit)" where
  "delivery_discard s c = (s\<lparr>db := (db s)\<lparr>
       component_state := filter (\<lambda>((n, k), v). n \<noteq> cursor_namespace c) (component_state (db s)),
       state_namespaces := (state_namespaces (db s))(cursor_namespace c := None),
       delivery_cursors := (delivery_cursors (db s))((cursor_stream c, cursor_namespace c) := None)\<rparr>\<rparr>, Inr ())"

section \<open>Retention\<close>

text \<open>Every durable payload, for finding the blobs still referenced.\<close>

definition retention_payloads :: "store \<Rightarrow> bytes list" where
  "retention_payloads s =
     map (\<lambda>row. if c_payload_kind row = 0 then (case c_payload_json row of Some bs \<Rightarrow> bs | None \<Rightarrow> [])
                else (case c_blob_digest row of Some d \<Rightarrow> d | None \<Rightarrow> []))
       (sort_key (\<lambda>row. (c_stream_id row, c_sequence row)) (events (db s))) @
     [concat (map snd (sort_key fst (component_state (db s))))]"

section \<open>Invariant\<close>

definition state_wf :: "database \<Rightarrow> bool" where
  "state_wf d \<longleftrightarrow> btree_wf (component_state d) \<and>
     (\<forall>ns t. state_namespaces d ns = Some t \<longrightarrow> (\<exists>n. t = show_u64 n)) \<and>
     (\<forall>c t. delivery_cursors d c = Some t \<longrightarrow> (\<exists>n. t = show_u64 n)) \<and>
     (\<forall>ns k. btree_get (component_state d) (ns, k) \<noteq> None \<longrightarrow> state_namespaces d ns \<noteq> None)"

definition store_wf :: "store \<Rightarrow> committed_event list \<Rightarrow> bool" where
  "store_wf s es \<longleftrightarrow> represents (db s) es \<and> state_wf (db s)"

text \<open>What the tables say of a namespace: its revision and its entries.\<close>

definition revision_of :: "database \<Rightarrow> state_namespace \<Rightarrow> u64" where
  "revision_of d ns = (case state_revision d ns of Inr n \<Rightarrow> n | Inl _ \<Rightarrow> 0)"

definition entries_of :: "database \<Rightarrow> state_namespace \<Rightarrow> string \<rightharpoonup> bytes" where
  "entries_of d ns k = btree_get (component_state d) (ns, k)"

definition cursor_of :: "database \<Rightarrow> cursor_key \<Rightarrow> u64" where
  "cursor_of d c = (case read_checkpoint d c of Inr n \<Rightarrow> n | Inl _ \<Rightarrow> 0)"

definition mutate :: "state_mutation \<Rightarrow> (string \<rightharpoonup> bytes) \<Rightarrow> (string \<rightharpoonup> bytes)" where
  "mutate m f = (case m of SetKey k v \<Rightarrow> f(k \<mapsto> v) | DeleteKey k \<Rightarrow> f(k := None))"

lemma state_wf_empty: "state_wf empty_database"
  by (simp add: state_wf_def empty_database_def)

lemma show_u64_zero: "show_u64 0 = ''0''"
proof -
  have "char_of (48 :: nat) = CHR ''0''" by code_simp
  then show ?thesis by (simp add: show_u64_def show_nat.simps digit_def)
qed

lemma parse_zero: "parse_u64 ''0'' = Inr 0"
  by (metis parse_show_u64 show_u64_zero)

lemma state_revision_wf: "state_wf d \<Longrightarrow> state_revision d ns = Inr (revision_of d ns)"
proof (cases "state_namespaces d ns")
  case (Some t)
  moreover assume "state_wf d"
  ultimately obtain n where "t = show_u64 n" unfolding state_wf_def by blast
  with Some show ?thesis by (simp add: state_revision_def revision_of_def)
qed (simp add: state_revision_def revision_of_def parse_zero)

lemma read_checkpoint_wf: "state_wf d \<Longrightarrow> read_checkpoint d c = Inr (cursor_of d c)"
proof (cases "delivery_cursors d (cursor_stream c, cursor_namespace c)")
  case (Some t)
  moreover assume "state_wf d"
  ultimately obtain n where "t = show_u64 n" unfolding state_wf_def by blast
  with Some show ?thesis by (simp add: read_checkpoint_def cursor_of_def)
qed (simp add: read_checkpoint_def cursor_of_def parse_zero)

section \<open>State operations keep the invariant\<close>

lemma show_zero: "\<exists>n. ''0'' = show_u64 n"
  by (metis show_u64_zero)

lemma insert_namespace_simps [simp]:
  "events (insert_namespace d ns) = events d" "event_search (insert_namespace d ns) = event_search d"
  "streams (insert_namespace d ns) = streams d" "component_state (insert_namespace d ns) = component_state d"
  "delivery_cursors (insert_namespace d ns) = delivery_cursors d" "plugin_credentials (insert_namespace d ns) = plugin_credentials d"
  "state_namespaces (insert_namespace d ns) ns \<noteq> None"
  "ns' \<noteq> ns \<Longrightarrow> state_namespaces (insert_namespace d ns) ns' = state_namespaces d ns'"
  by (auto simp: insert_namespace_def split: option.splits)

lemma insert_namespace_wf: "state_wf d \<Longrightarrow> state_wf (insert_namespace d ns)"
  unfolding state_wf_def insert_namespace_def by (auto simp: show_zero split: option.splits)

lemma state_revision_insert [simp]: "state_revision (insert_namespace d ns) ns' = state_revision d ns'"
  by (auto simp: state_revision_def insert_namespace_def split: option.splits)

lemma update_revision_simps [simp]:
  "events (update_revision d ns n) = events d" "event_search (update_revision d ns n) = event_search d"
  "streams (update_revision d ns n) = streams d" "component_state (update_revision d ns n) = component_state d"
  "delivery_cursors (update_revision d ns n) = delivery_cursors d" "plugin_credentials (update_revision d ns n) = plugin_credentials d"
  "state_namespaces d ns \<noteq> None \<Longrightarrow> state_namespaces (update_revision d ns n) = (state_namespaces d)(ns \<mapsto> show_u64 n)"
  by (auto simp: update_revision_def split: option.splits)

lemma fold_mutation_simps [simp]:
  "events (fold (apply_mutation ns) ms d) = events d" "event_search (fold (apply_mutation ns) ms d) = event_search d"
  "streams (fold (apply_mutation ns) ms d) = streams d" "state_namespaces (fold (apply_mutation ns) ms d) = state_namespaces d"
  "delivery_cursors (fold (apply_mutation ns) ms d) = delivery_cursors d"
  "plugin_credentials (fold (apply_mutation ns) ms d) = plugin_credentials d"
  by (induction ms arbitrary: d; simp add: apply_mutation_def split: state_mutation.splits)+

lemma fold_mutation_wf:
  "btree_wf (component_state d) \<Longrightarrow> btree_wf (component_state (fold (apply_mutation ns) ms d))"
  by (induction ms arbitrary: d) (simp_all add: apply_mutation_def split: state_mutation.splits)

lemma entries_of_mutation:
  assumes "btree_wf (component_state d)"
  shows "entries_of (fold (apply_mutation ns) ms d) ns' =
    (if ns' = ns then fold mutate ms (entries_of d ns) else entries_of d ns')"
  using assms
proof (induction ms arbitrary: d)
  case (Cons m ms)
  have "btree_wf (component_state (apply_mutation ns m d))"
    using fold_mutation_wf[OF Cons.prems, of ns "[m]"] by simp
  moreover have "entries_of (apply_mutation ns m d) ns' = (if ns' = ns then mutate m (entries_of d ns) else entries_of d ns')" for ns'
    using Cons.prems by (cases m) (auto simp: entries_of_def apply_mutation_def mutate_def fun_eq_iff)
  ultimately show ?case using Cons.IH by simp
qed simp

lemma represents_state:
  assumes "represents d es" and "events d' = events d" "event_search d' = event_search d" "streams d' = streams d"
  shows "represents d' es"
  using assms by (simp add: represents_def)

text \<open>The two steps that change the state of a namespace share one lemma: insert the namespace, apply the mutations,
  advance the revision.\<close>

lemma mutated_wf:
  assumes "state_wf d" and "d' = update_revision (fold (apply_mutation ns) ms (insert_namespace d ns)) ns n"
  shows "state_wf d'" and "revision_of d' ns = n" and "entries_of d' ns = fold mutate ms (entries_of d ns)"
    and "ns' \<noteq> ns \<Longrightarrow> revision_of d' ns' = revision_of d ns' \<and> entries_of d' ns' = entries_of d ns'"
    and "delivery_cursors d' = delivery_cursors d" and "plugin_credentials d' = plugin_credentials d"
    and "represents d es \<Longrightarrow> represents d' es"
proof -
  let ?d = "fold (apply_mutation ns) ms (insert_namespace d ns)"
  have wf: "btree_wf (component_state d)" using assms(1) by (simp add: state_wf_def)
  then have wf': "btree_wf (component_state ?d)" by (intro fold_mutation_wf) simp
  have comp: "component_state d' = component_state ?d" by (simp add: assms(2))
  have names: "state_namespaces d' = (state_namespaces (insert_namespace d ns))(ns \<mapsto> show_u64 n)"
    by (simp add: assms(2))
  have ent: "entries_of d' = entries_of ?d" by (simp add: entries_of_def comp fun_eq_iff)
  have ins: "entries_of (insert_namespace d ns) = entries_of d" by (simp add: entries_of_def fun_eq_iff)
  have ent': "entries_of d' ns' = (if ns' = ns then fold mutate ms (entries_of d ns) else entries_of d ns')" for ns'
    using entries_of_mutation[of "insert_namespace d ns" ns ms ns'] wf by (simp add: ent ins)
  then show "entries_of d' ns = fold mutate ms (entries_of d ns)" by simp
  show "revision_of d' ns = n" by (simp add: revision_of_def state_revision_def names)
  show "delivery_cursors d' = delivery_cursors d" "plugin_credentials d' = plugin_credentials d" by (simp_all add: assms(2))
  show "represents d es \<Longrightarrow> represents d' es" by (erule represents_state) (simp_all add: assms(2))
  show "revision_of d' ns' = revision_of d ns' \<and> entries_of d' ns' = entries_of d ns'" if "ns' \<noteq> ns"
    using that ent'[of ns'] by (simp add: revision_of_def state_revision_def names)
  have "state_namespaces d' a \<noteq> None" if "btree_get (component_state d') (a, k) \<noteq> None" for a k
  proof (cases "a = ns")
    case False
    have "entries_of d' a k = entries_of d a k" using ent'[of a] False by simp
    with that have "btree_get (component_state d) (a, k) \<noteq> None" by (simp add: entries_of_def)
    then have "state_namespaces d a \<noteq> None" using assms(1) unfolding state_wf_def by blast
    with False show ?thesis by (simp add: names)
  qed (simp add: names)
  then show "state_wf d'"
    using assms(1) insert_namespace_wf[OF assms(1), of ns] wf' unfolding state_wf_def comp
    by (auto simp: names assms(2))
qed

lemma inserted_wf:
  assumes "state_wf d" and "d' = insert_namespace d ns"
  shows "state_wf d'" and "revision_of d' ns' = revision_of d ns'" and "entries_of d' ns' = entries_of d ns'"
    and "delivery_cursors d' = delivery_cursors d" and "plugin_credentials d' = plugin_credentials d"
    and "represents d es \<Longrightarrow> represents d' es"
  using assms insert_namespace_wf
  by (auto simp: revision_of_def entries_of_def fun_eq_iff elim: represents_state)

lemma checked_add_max: "checked_add (- 1) 1 = None"
  by (simp add: checked_add_def unsigned_minus_1_eq_mask mask_eq_exp_minus_1)

lemma in_transaction_simps:
  "f s = (s', Inl e) \<Longrightarrow> in_transaction f s = (s'\<lparr>db := db s\<rparr>, Inl e)"
  "f s = (s', Inr x) \<Longrightarrow> in_transaction f s = (s', Inr x)"
  by (simp_all add: in_transaction_def)

lemma state_apply_eq:
  assumes wf: "state_wf (db s)"
  shows "state_apply s ns expected ms =
    (if revision_of (db s) ns \<noteq> expected then (s, Inl (StateConflict expected (revision_of (db s) ns)))
     else if ms = [] then (s\<lparr>db := insert_namespace (db s) ns\<rparr>, Inr expected)
     else if expected = - 1 then (s, Inl (StateStorage ''state revision exhausted''))
     else (s\<lparr>db := update_revision (fold (apply_mutation ns) ms (insert_namespace (db s) ns)) ns (expected + 1)\<rparr>,
           Inr (expected + 1)))"
proof -
  note unf = state_apply_in_def Let_def state_revision_insert state_revision_wf[OF wf] sum.case
  consider "revision_of (db s) ns \<noteq> expected" | "revision_of (db s) ns = expected" "ms = []"
    | "revision_of (db s) ns = expected" "ms \<noteq> []" "expected = - 1"
    | "revision_of (db s) ns = expected" "ms \<noteq> []" "expected \<noteq> - 1" by blast
  then show ?thesis
  proof cases
    case 1
    then have "state_apply_in s ns expected ms =
        (s\<lparr>db := insert_namespace (db s) ns\<rparr>, Inl (StateConflict expected (revision_of (db s) ns)))" by (simp add: unf)
    with 1 show ?thesis by (simp add: state_apply_def in_transaction_simps)
  next
    case 2
    then have "state_apply_in s ns expected ms = (s\<lparr>db := insert_namespace (db s) ns\<rparr>, Inr expected)" by (simp add: unf)
    with 2 show ?thesis by (simp add: state_apply_def in_transaction_simps)
  next
    case 3
    then have "state_apply_in s ns expected ms = (s\<lparr>db := fold (apply_mutation ns) ms (insert_namespace (db s) ns)\<rparr>,
        Inl (StateStorage ''state revision exhausted''))" by (simp add: unf checked_add_max)
    with 3 show ?thesis by (simp add: state_apply_def in_transaction_simps)
  next
    case 4
    then have "state_apply_in s ns expected ms =
        (s\<lparr>db := update_revision (fold (apply_mutation ns) ms (insert_namespace (db s) ns)) ns (expected + 1)\<rparr>, Inr (expected + 1))"
      by (simp add: unf checked_add_one)
    with 4 show ?thesis by (simp add: state_apply_def in_transaction_simps)
  qed
qed

lemma state_apply_spec:
  assumes wf: "store_wf s es" and call: "state_apply s ns expected ms = (s', r)"
  shows "store_wf s' es \<and> (case r of
      Inl e \<Rightarrow> s' = s \<and> (e = StateConflict expected (revision_of (db s) ns) \<and> revision_of (db s) ns \<noteq> expected \<or>
        e = StateStorage ''state revision exhausted'' \<and> expected = - 1)
    | Inr n \<Rightarrow> revision_of (db s) ns = expected \<and> n = (if ms = [] then expected else expected + 1) \<and>
        revision_of (db s') ns = n \<and> entries_of (db s') ns = fold mutate ms (entries_of (db s) ns) \<and>
        (\<forall>ns'. ns' \<noteq> ns \<longrightarrow> revision_of (db s') ns' = revision_of (db s) ns' \<and> entries_of (db s') ns' = entries_of (db s) ns'))"
proof -
  have st: "state_wf (db s)" and rep: "represents (db s) es" using wf by (simp_all add: store_wf_def)
  consider "s' = s" "r = Inl (StateConflict expected (revision_of (db s) ns))" "revision_of (db s) ns \<noteq> expected"
    | "revision_of (db s) ns = expected" "ms = []" "s' = s\<lparr>db := insert_namespace (db s) ns\<rparr>" "r = Inr expected"
    | "s' = s" "r = Inl (StateStorage ''state revision exhausted'')" "expected = - 1"
    | "revision_of (db s) ns = expected" "ms \<noteq> []" "r = Inr (expected + 1)"
      "s' = s\<lparr>db := update_revision (fold (apply_mutation ns) ms (insert_namespace (db s) ns)) ns (expected + 1)\<rparr>"
    using call unfolding state_apply_eq[OF st] by (auto split: if_splits)
  then show ?thesis
  proof cases
    case 2
    with inserted_wf[OF st refl, where ns = ns] rep show ?thesis by (simp add: store_wf_def)
  next
    case 4
    with mutated_wf[OF st refl, where ns = ns and ms = ms and n = "expected + 1"] rep show ?thesis by (simp add: store_wf_def)
  qed (use wf in auto)
qed

section \<open>Deliveries are atomic\<close>

lemma commit_state_eq:
  assumes wf: "state_wf d"
  shows "commit_state d ns ms =
    (if ms = [] then (insert_namespace d ns, Inr (revision_of d ns))
     else if revision_of d ns = - 1
     then (fold (apply_mutation ns) ms (insert_namespace d ns), Inl (DeliveryStorage ''state revision exhausted''))
     else (update_revision (fold (apply_mutation ns) ms (insert_namespace d ns)) ns (revision_of d ns + 1),
           Inr (revision_of d ns + 1)))"
  by (simp add: commit_state_def state_revision_wf[OF wf] checked_add_max checked_add_one Let_def)

lemma commit_state_ok:
  assumes wf: "state_wf d" and call: "commit_state d ns ms = (d', Inr n)"
  shows "state_wf d'" and "revision_of d' ns = n" and "n = (if ms = [] then revision_of d ns else revision_of d ns + 1)"
    and "entries_of d' ns = fold mutate ms (entries_of d ns)"
    and "ns' \<noteq> ns \<Longrightarrow> revision_of d' ns' = revision_of d ns' \<and> entries_of d' ns' = entries_of d ns'"
    and "delivery_cursors d' = delivery_cursors d" and "represents d es \<Longrightarrow> represents d' es"
  using call inserted_wf[OF wf refl, where ns = ns] mutated_wf[OF wf refl, where ns = ns and ms = ms]
  unfolding commit_state_eq[OF wf] by (auto split: if_splits)

lemma same_state_wf: "same_state d d' \<Longrightarrow> state_wf d \<Longrightarrow> state_wf d'"
  by (simp add: same_state_def state_wf_def)

lemma same_state_views:
  "same_state d d' \<Longrightarrow> revision_of d' = revision_of d" "same_state d d' \<Longrightarrow> entries_of d' = entries_of d"
  "same_state d d' \<Longrightarrow> cursor_of d' = cursor_of d"
  by (simp_all add: same_state_def revision_of_def state_revision_def entries_of_def cursor_of_def read_checkpoint_def fun_eq_iff)

text \<open>The event a store returns for a proposal: the proposal itself, or the earlier event with its key.\<close>

definition answers :: "append_request \<Rightarrow> committed_event \<Rightarrow> bool" where
  "answers r e \<longleftrightarrow> request e = r \<or>
     (deduplication_key r \<noteq> None \<and> stream_id (request e) = stream_id r \<and> deduplication_key (request e) = deduplication_key r)"

lemma log_append_answers:
  "log_append es r eid at = Inr (es', e) \<Longrightarrow> answers r e \<and> e \<in> set es' \<and>
     (\<exists>new. es' = es @ new \<and> set new \<subseteq> {e} \<and> request ` set new \<subseteq> {r})"
  unfolding log_append_def answers_def by (auto simp: new_event_def split: option.splits if_splits dest!: find_SomeD)

lemma append_all_refines:
  assumes "represents (db s) es" and "append_all en s rs = (s', Inr xs)"
  shows "\<exists>new. represents (db s') (es @ new) \<and> same_state (db s) (db s') \<and> list_all2 answers rs xs \<and>
    set xs \<subseteq> set (es @ new) \<and> set new \<subseteq> set xs \<and> request ` set new \<subseteq> set rs"
  using assms
proof (induction rs arbitrary: s es xs)
  case (Cons r rs)
  obtain s1 a where a: "append_in en s r = (s1, a)" by fastforce
  with Cons.prems(2) obtain e ys where e: "a = Inr e" and ys: "append_all en s1 rs = (s', Inr ys)" "xs = e # ys"
    by (auto split: sum.splits prod.splits)
  from append_in_refines[OF Cons.prems(1) a] e obtain es1 where l: "log_append es r (peek_id s) (peek_clock s) = Inr (es1, e)"
    and rep: "represents (db s1) es1" and same: "same_state (db s) (db s1)"
    by (auto split: sum.splits)
  from log_append_answers[OF l] obtain n1 where n1: "es1 = es @ n1" "set n1 \<subseteq> {e}" "request ` set n1 \<subseteq> {r}" "answers r e" "e \<in> set es1" by blast
  from Cons.IH[OF rep ys(1)] obtain n2 where "represents (db s') (es1 @ n2)" "same_state (db s1) (db s')"
    "list_all2 answers rs ys" "set ys \<subseteq> set (es1 @ n2)" "set n2 \<subseteq> set ys" "request ` set n2 \<subseteq> set rs" by blast
  with n1 ys(2) same show ?case
    by (intro exI[of _ "n1 @ n2"]) (auto intro: same_state_trans)
qed auto

lemma commit_cursor_simps [simp]:
  "cursor_of (commit_cursor d c n) c' = (if c' = c then n else cursor_of d c')"
  "revision_of (commit_cursor d c n) = revision_of d" "entries_of (commit_cursor d c n) = entries_of d"
proof -
  have "(cursor_stream c', cursor_namespace c') = (cursor_stream c, cursor_namespace c) \<longleftrightarrow> c' = c"
    by (cases c; cases c') simp
  then show "cursor_of (commit_cursor d c n) c' = (if c' = c then n else cursor_of d c')"
    by (auto simp: cursor_of_def read_checkpoint_def commit_cursor_def)
qed (simp_all add: commit_cursor_def revision_of_def state_revision_def entries_of_def fun_eq_iff)

lemma commit_cursor_wf: "state_wf d \<Longrightarrow> state_wf (commit_cursor d c n)"
  by (auto simp: state_wf_def commit_cursor_def)

lemma commit_cursor_represents: "represents d es \<Longrightarrow> represents (commit_cursor d c n) es"
  by (erule represents_state) (simp_all add: commit_cursor_def)

text \<open>What a successful commit did, relative to the log before it.\<close>

definition commit_effect :: "delivery_commit \<Rightarrow> delivery_receipt \<Rightarrow> database \<Rightarrow> database \<Rightarrow> bool" where
  "commit_effect c rc d d' \<longleftrightarrow>
     cursor_of d (cursor c) = expected_checkpoint c \<and>
     receipt_checkpoint rc = (case checkpoint c of None \<Rightarrow> expected_checkpoint c | Some n \<Rightarrow> n) \<and>
     cursor_of d' (cursor c) = receipt_checkpoint rc \<and>
     (\<forall>k. k \<noteq> cursor c \<longrightarrow> cursor_of d' k = cursor_of d k) \<and>
     receipt_revision rc = (if mutations c = [] then revision_of d (cursor_namespace (cursor c))
                            else revision_of d (cursor_namespace (cursor c)) + 1) \<and>
     revision_of d' (cursor_namespace (cursor c)) = receipt_revision rc \<and>
     entries_of d' (cursor_namespace (cursor c)) = fold mutate (mutations c) (entries_of d (cursor_namespace (cursor c))) \<and>
     (\<forall>ns. ns \<noteq> cursor_namespace (cursor c) \<longrightarrow> revision_of d' ns = revision_of d ns \<and> entries_of d' ns = entries_of d ns)"

lemma commit_in_ok:
  assumes wf: "store_wf s es" and call: "commit_in en c s = (s', Inr rc)"
  shows "commit_effect c rc (db s) (db s') \<and> (\<exists>new. store_wf s' (es @ new) \<and> list_all2 answers (commit_events c) (receipt_events rc) \<and>
    set (receipt_events rc) \<subseteq> set (es @ new) \<and> set new \<subseteq> set (receipt_events rc) \<and> request ` set new \<subseteq> set (commit_events c))"
proof -
  let ?ns = "cursor_namespace (cursor c)"
  have st: "state_wf (db s)" and rep: "represents (db s) es" using wf by (simp_all add: store_wf_def)
  obtain d n where d: "commit_state (db s) ?ns (mutations c) = (d, Inr n)" and exp: "cursor_of (db s) (cursor c) = expected_checkpoint c"
    using call by (auto simp: commit_in_def read_checkpoint_wf[OF st] Let_def split: if_splits sum.splits prod.splits)
  then obtain s2 xs where a: "append_all en (s\<lparr>db := d\<rparr>) (commit_events c) = (s2, Inr xs)"
    and s': "s' = (case checkpoint c of None \<Rightarrow> s2 | Some n \<Rightarrow> s2\<lparr>db := commit_cursor (db s2) (cursor c) n\<rparr>)"
    and rc: "rc = \<lparr>receipt_events = xs, receipt_checkpoint = (case checkpoint c of None \<Rightarrow> expected_checkpoint c | Some n \<Rightarrow> n),
      receipt_revision = n\<rparr>"
    using call by (auto simp: commit_in_def read_checkpoint_wf[OF st] split: sum.splits prod.splits)
  note cs = commit_state_ok[OF st d]
  have cur: "cursor_of d k = cursor_of (db s) k" for k using cs(6) by (simp add: cursor_of_def read_checkpoint_def)
  have "represents (db (s\<lparr>db := d\<rparr>)) es" using cs(7)[OF rep] by simp
  from append_all_refines[OF this a] obtain new where new: "represents (db s2) (es @ new)" "same_state d (db s2)"
    "list_all2 answers (commit_events c) xs" "set xs \<subseteq> set (es @ new)" "set new \<subseteq> set xs" "request ` set new \<subseteq> set (commit_events c)" by auto
  note v = same_state_views[OF new(2)]
  have st2: "state_wf (db s2)" using same_state_wf[OF new(2) cs(1)] .
  have "store_wf s' (es @ new)"
    using new(1) st2 by (cases "checkpoint c") (simp_all add: s' store_wf_def commit_cursor_wf commit_cursor_represents)
  moreover have "commit_effect c rc (db s) (db s')"
    unfolding commit_effect_def using cs exp v cur by (cases "checkpoint c") (simp_all add: s' rc)
  ultimately show ?thesis using new rc by auto
qed

lemma store_commit_cases:
  assumes "store_commit en s c = (s', r)"
  obtains e where "r = Inl e" and "db s' = db s" | rc where "r = Inr rc" and "commit_in en c s = (s', Inr rc)" and "validate_commit c = Inr ()"
  using assms by (auto simp: store_commit_def in_transaction_def split: sum.splits prod.splits)

lemma delivery_discard_spec:
  assumes wf: "store_wf s es"
  shows "store_wf (fst (delivery_discard s c)) es"
    and "cursor_of (db (fst (delivery_discard s c))) k = (if k = c then 0 else cursor_of (db s) k)"
    and "entries_of (db (fst (delivery_discard s c))) ns = (if ns = cursor_namespace c then Map.empty else entries_of (db s) ns)"
    and "revision_of (db (fst (delivery_discard s c))) ns = (if ns = cursor_namespace c then 0 else revision_of (db s) ns)"
proof -
  let ?d = "db (fst (delivery_discard s c))"
  have get: "map_of (filter (\<lambda>((n, k), v). n \<noteq> a) m) (n, k) = (if n = a then None else map_of m (n, k))" for m :: "((string \<times> string) \<times> bytes) list" and a n k
    by (induction m) auto
  have "btree_wf (filter P m)" if "btree_wf m" for P and m :: "(string \<times> string, bytes) btree"
    using that unfolding btree_wf_def by (induction m) auto
  then have "state_wf ?d" using wf by (auto simp: store_wf_def state_wf_def delivery_discard_def get split: if_splits)
  moreover have "represents ?d es"
    using wf by (auto simp: store_wf_def delivery_discard_def elim!: represents_state)
  ultimately show "store_wf (fst (delivery_discard s c)) es" by (simp add: store_wf_def)
  have "(cursor_stream k, cursor_namespace k) = (cursor_stream c, cursor_namespace c) \<longleftrightarrow> k = c"
    by (cases c; cases k) simp
  then show "cursor_of ?d k = (if k = c then 0 else cursor_of (db s) k)"
    by (auto simp: cursor_of_def read_checkpoint_def delivery_discard_def parse_zero)
  show "entries_of ?d ns = (if ns = cursor_namespace c then Map.empty else entries_of (db s) ns)"
    by (auto simp: entries_of_def delivery_discard_def get fun_eq_iff)
  show "revision_of ?d ns = (if ns = cursor_namespace c then 0 else revision_of (db s) ns)"
    by (auto simp: revision_of_def state_revision_def delivery_discard_def parse_zero)
qed

end
