(* ===== verification/Blobs.thy ===== *)
theory Blobs
  imports Events
begin

text \<open>
  Content-addressed blobs. The trait \<open>BlobStore\<close> is the record \<open>blob_ops\<close> of its methods over a store
  state; \<open>InMemoryBlobStore\<close> (\<open>blob.rs\<close>) provides one. The locale \<open>blob_store\<close> is the contract
  its callers rely on: what an upload has received, what is stored under a digest, and that a
  failing call changes neither. SHA-256 itself is an argument (\<open>sha\<close>, 32 bytes from any input).
  A mutex is held for a whole method, so a method is one step of the state.
\<close>

section \<open>The trait\<close>

type_synonym upload_id = string

record blob_chunk =
  chunk_bytes :: bytes
  eof :: bool

record 's blob_ops =
  op_begin_put :: "'s \<Rightarrow> string \<Rightarrow> u64 option \<Rightarrow> 's \<times> (blob_error + upload_id)"
  op_write :: "'s \<Rightarrow> upload_id \<Rightarrow> u64 \<Rightarrow> bytes \<Rightarrow> 's \<times> (blob_error + u64)"
  op_finish_put :: "'s \<Rightarrow> upload_id \<Rightarrow> 's \<times> (blob_error + blob_ref)"
  op_abort_put :: "'s \<Rightarrow> upload_id \<Rightarrow> 's \<times> (blob_error + unit)"
  op_read :: "'s \<Rightarrow> blob_ref \<Rightarrow> u64 \<Rightarrow> u64 \<Rightarrow> 's \<times> (blob_error + blob_chunk)"

text \<open>The digest as text: two lowercase hexadecimal digits for each byte.\<close>

definition hex_digit :: "nat \<Rightarrow> byte" where
  "hex_digit n = (if n < 10 then char_of (48 + n) else char_of (87 + n))"

definition hex_byte :: "byte \<Rightarrow> string" where
  "hex_byte b = [hex_digit (byte_val b div 16), hex_digit (byte_val b mod 16)]"

definition sha256_hex :: "(bytes \<Rightarrow> bytes) \<Rightarrow> bytes \<Rightarrow> string" where
  "sha256_hex sha bs = concat (map hex_byte (sha bs))"

section \<open>The in-memory store\<close>

record memory_upload =
  mu_media_type :: string
  expected_size :: "u64 option"
  mu_bytes :: bytes
  previous_write :: "(u64 \<times> bytes) option"

record memory_blobs =
  max_blob_bytes :: u64
  next_upload :: u64
  uploads :: "upload_id \<rightharpoonup> memory_upload"
  blobs :: "string \<rightharpoonup> bytes"

definition new_memory_blobs :: "u64 \<Rightarrow> memory_blobs" where
  "new_memory_blobs limit =
     \<lparr>max_blob_bytes = limit, next_upload = 0, uploads = Map.empty, blobs = Map.empty\<rparr>"

definition memory_upload_id :: "u64 \<Rightarrow> upload_id" where
  "memory_upload_id n = ''memory-upload-'' @ show_u64 n"

definition mem_begin_put ::
  "memory_blobs \<Rightarrow> string \<Rightarrow> u64 option \<Rightarrow> memory_blobs \<times> (blob_error + upload_id)" where
  "mem_begin_put s m sz =
     (case validate_media_type m of
        Inl e \<Rightarrow> (s, Inl e)
      | Inr _ \<Rightarrow>
        if is_some_and (\<lambda>n. max_blob_bytes s < n) sz
        then (s, Inl (ResourceExhausted ''expected size exceeds blob limit''))
        else case checked_add (next_upload s) 1 of
            None \<Rightarrow> (s, Inl (BlobStorage ''upload identifier exhausted''))
          | Some n \<Rightarrow>
            let i = memory_upload_id n;
                up = \<lparr>mu_media_type = m, expected_size = sz, mu_bytes = [], previous_write = None\<rparr>
            in (s\<lparr>next_upload := n, uploads := (uploads s)(i \<mapsto> up)\<rparr>, Inr i))"

definition mem_write ::
  "memory_blobs \<Rightarrow> upload_id \<Rightarrow> u64 \<Rightarrow> bytes \<Rightarrow> memory_blobs \<times> (blob_error + u64)" where
  "mem_write s i offset bs =
     (case uploads s i of
        None \<Rightarrow> (s, Inl BlobNotFound)
      | Some up \<Rightarrow>
        case u64_of_len (length (mu_bytes up)) of
          None \<Rightarrow> (s, Inl (ResourceExhausted ''blob size exceeds u64''))
        | Some current \<Rightarrow>
          if offset \<noteq> current then
            if is_some_and (\<lambda>(previous_offset, previous). previous_offset = offset \<and> previous = bs)
                 (previous_write up)
            then (s, Inr current) else (s, Inl (BlobConflict current offset))
          else case u64_of_len (length bs) of
              None \<Rightarrow> (s, Inl (ResourceExhausted ''chunk size exceeds u64''))
            | Some len \<Rightarrow>
              case checked_add current len of
                None \<Rightarrow> (s, Inl (ResourceExhausted ''blob size exceeds u64''))
              | Some next \<Rightarrow>
                if max_blob_bytes s < next \<or> is_some_and (\<lambda>n. n < next) (expected_size up)
                then (s, Inl (ResourceExhausted ''write exceeds declared or configured blob size''))
                else (s\<lparr>uploads := (uploads s)(i \<mapsto>
                        up\<lparr>mu_bytes := mu_bytes up @ bs, previous_write := Some (offset, bs)\<rparr>)\<rparr>,
                      Inr next))"

definition mem_finish_put ::
  "(bytes \<Rightarrow> bytes) \<Rightarrow> memory_blobs \<Rightarrow> upload_id \<Rightarrow> memory_blobs \<times> (blob_error + blob_ref)" where
  "mem_finish_put sha s i =
     (case uploads s i of
        None \<Rightarrow> (s, Inl BlobNotFound)
      | Some up \<Rightarrow>
        let s = s\<lparr>uploads := (uploads s)(i := None)\<rparr> in
        case u64_of_len (length (mu_bytes up)) of
          None \<Rightarrow> (s, Inl (ResourceExhausted ''blob size exceeds u64''))
        | Some sz \<Rightarrow>
          if is_some_and (\<lambda>n. n \<noteq> sz) (expected_size up)
          then (s, Inl (BlobInvalid (''expected '' @
                  show_u64 (case expected_size up of Some n \<Rightarrow> n | None \<Rightarrow> 0) @
                  '' bytes, received '' @ show_u64 sz)))
          else
            let d = sha256_hex sha (mu_bytes up);
                stored = (case blobs s d of None \<Rightarrow> (blobs s)(d \<mapsto> mu_bytes up) | Some _ \<Rightarrow> blobs s)
            in (s\<lparr>blobs := stored\<rparr>,
                Inr \<lparr>algorithm = sha256_algorithm, digest = d, blob_size = sz,
                     media_type = mu_media_type up\<rparr>))"

definition mem_abort_put :: "memory_blobs \<Rightarrow> upload_id \<Rightarrow> memory_blobs \<times> (blob_error + unit)" where
  "mem_abort_put s i = (s\<lparr>uploads := (uploads s)(i := None)\<rparr>, Inr ())"

definition mem_read ::
  "(bytes \<Rightarrow> bytes) \<Rightarrow> memory_blobs \<Rightarrow> blob_ref \<Rightarrow> u64 \<Rightarrow> u64 \<Rightarrow> memory_blobs \<times> (blob_error + blob_chunk)"
where
  "mem_read sha s b offset max_bytes = (s,
     rbind (validate_blob_ref b) (\<lambda>_.
     rbind (ok_or BlobNotFound (blobs s (digest b))) (\<lambda>bs.
     rbind (ok_or (Corrupt ''stored size exceeds u64'') (u64_of_len (length bs))) (\<lambda>actual.
       if actual \<noteq> blob_size b \<or> sha256_hex sha bs \<noteq> digest b
       then Inl (Corrupt ''reference does not match stored bytes'')
       else if length bs < unat offset then Inl (BlobInvalid ''offset exceeds blob size'')
       else let stop = min (unat (saturating_add offset max_bytes)) (length bs)
            in Inr \<lparr>chunk_bytes = drop (unat offset) (take stop bs), eof = (stop = length bs)\<rparr>))))"

definition mem_ops :: "(bytes \<Rightarrow> bytes) \<Rightarrow> memory_blobs blob_ops" where
  "mem_ops sha = \<lparr>op_begin_put = mem_begin_put, op_write = mem_write,
     op_finish_put = mem_finish_put sha, op_abort_put = mem_abort_put, op_read = mem_read sha\<rparr>"

section \<open>The contract\<close>

text \<open>
  \<open>exhausted s\<close> is a store that has given out every upload identifier,
  \<open>upload s i\<close> is what the store knows of an upload (media type, declared size, bytes received) and
  \<open>stored s d\<close> the bytes under a digest. A digest is trusted to identify its content only as far as the
  premise of \<open>finish_ok\<close> says: no other content is already stored under it.
\<close>

locale blob_store =
  fixes ops :: "'s blob_ops"
    and hex :: "bytes \<Rightarrow> string"
    and invar :: "'s \<Rightarrow> bool"
    and limit :: "'s \<Rightarrow> u64"
    and upload :: "'s \<Rightarrow> upload_id \<rightharpoonup> string \<times> u64 option \<times> bytes"
    and stored :: "'s \<Rightarrow> string \<rightharpoonup> bytes"
    and exhausted :: "'s \<Rightarrow> bool"
  assumes begin_total:
      "\<lbrakk>invar s; \<not> exhausted s; validate_media_type m = Inr (); is_none_or (\<lambda>n. n \<le> limit s) sz\<rbrakk> \<Longrightarrow>
         \<exists>s' i. op_begin_put ops s m sz = (s', Inr i)"
    and begin_ok:
      "\<lbrakk>invar s; op_begin_put ops s m sz = (s', Inr i)\<rbrakk> \<Longrightarrow>
         validate_media_type m = Inr () \<and> upload s i = None \<and>
         upload s' = (upload s)(i \<mapsto> (m, sz, [])) \<and>
         stored s' = stored s \<and> limit s' = limit s \<and> invar s'"
    and begin_error: "op_begin_put ops s m sz = (s', Inl e) \<Longrightarrow> s' = s"
    and write_ok:
      "\<lbrakk>invar s; upload s i = Some (m, sz, b); unat off = length b;
        length b + length bs \<le> unat (limit s); is_none_or (\<lambda>n. length b + length bs \<le> unat n) sz\<rbrakk> \<Longrightarrow>
         \<exists>s'. op_write ops s i off bs = (s', Inr (off + of_nat (length bs))) \<and>
           upload s' = (upload s)(i \<mapsto> (m, sz, b @ bs)) \<and>
           stored s' = stored s \<and> limit s' = limit s \<and> invar s'"
    and write_replay:
      "\<lbrakk>invar s; op_write ops s i off bs = (s', Inr n)\<rbrakk> \<Longrightarrow>
         \<exists>s''. op_write ops s' i off bs = (s'', Inr n) \<and> upload s'' = upload s' \<and> stored s'' = stored s'"
    and write_error: "\<lbrakk>invar s; op_write ops s i off bs = (s', Inl e)\<rbrakk> \<Longrightarrow> s' = s"
    and write_end:
      "\<lbrakk>invar s; upload s i = Some (m, sz, b); unat off = length b; op_write ops s i off bs = (s', Inr n)\<rbrakk> \<Longrightarrow>
         unat n = length b + length bs \<and> upload s' = (upload s)(i \<mapsto> (m, sz, b @ bs)) \<and>
         stored s' = stored s \<and> limit s' = limit s \<and> invar s'"
    and finish_size:
      "\<lbrakk>invar s; upload s i = Some (m, sz, b); op_finish_put ops s i = (s', Inr r)\<rbrakk> \<Longrightarrow>
         is_none_or (\<lambda>n. unat n = length b) sz"
    and finish_error:
      "\<lbrakk>invar s; op_finish_put ops s i = (s', Inl e)\<rbrakk> \<Longrightarrow>
         upload s' = (upload s)(i := None) \<and> stored s' = stored s \<and> limit s' = limit s \<and> invar s'"
    and finish_ok:
      "\<lbrakk>invar s; upload s i = Some (m, sz, b); is_none_or (\<lambda>n. unat n = length b) sz;
        stored s (hex b) \<in> {None, Some b}\<rbrakk> \<Longrightarrow>
         \<exists>s' r. op_finish_put ops s i = (s', Inr r) \<and>
           algorithm r = sha256_algorithm \<and> digest r = hex b \<and> unat (blob_size r) = length b \<and>
           media_type r = m \<and> upload s' = (upload s)(i := None) \<and>
           stored s' = (stored s)(hex b \<mapsto> b) \<and> limit s' = limit s \<and> invar s'"
    and abort_ok:
      "invar s \<Longrightarrow> \<exists>s'. op_abort_put ops s i = (s', Inr ()) \<and> upload s' = (upload s)(i := None) \<and>
         stored s' = stored s \<and> limit s' = limit s \<and> invar s'"
    and read_ok:
      "\<lbrakk>invar s; stored s (digest r) = Some b; validate_blob_ref r = Inr ();
        unat (blob_size r) = length b; unat off \<le> length b\<rbrakk> \<Longrightarrow>
         \<exists>s'. op_read ops s r off n = (s', Inr \<lparr>chunk_bytes = take (unat n) (drop (unat off) b),
             eof = (length b \<le> unat off + unat n)\<rparr>) \<and>
           upload s' = upload s \<and> stored s' = stored s \<and> limit s' = limit s \<and> invar s'"
    and upload_le: "\<lbrakk>invar s; upload s i = Some (m, sz, b)\<rbrakk> \<Longrightarrow> length b \<le> unat (limit s)"

section \<open>The in-memory store keeps the contract\<close>

definition mem_upload :: "memory_blobs \<Rightarrow> upload_id \<rightharpoonup> string \<times> u64 option \<times> bytes" where
  "mem_upload s i = map_option (\<lambda>up. (mu_media_type up, expected_size up, mu_bytes up)) (uploads s i)"

definition upload_wf :: "u64 \<Rightarrow> memory_upload \<Rightarrow> bool" where
  "upload_wf limit up \<longleftrightarrow> length (mu_bytes up) \<le> unat limit \<and>
     is_none_or (\<lambda>(o', p). \<exists>front. mu_bytes up = front @ p \<and> unat o' = length front) (previous_write up)"

definition mem_invar :: "(bytes \<Rightarrow> bytes) \<Rightarrow> memory_blobs \<Rightarrow> bool" where
  "mem_invar sha s \<longleftrightarrow>
     (\<forall>i up. uploads s i = Some up \<longrightarrow> upload_wf (max_blob_bytes s) up \<and>
        (\<exists>n. unat n \<le> unat (next_upload s) \<and> i = memory_upload_id n)) \<and>
     (\<forall>d b. blobs s d = Some b \<longrightarrow> d = sha256_hex sha b)"

lemma memory_upload_id_inject [simp]: "memory_upload_id a = memory_upload_id b \<longleftrightarrow> a = b"
  by (simp add: memory_upload_id_def)

lemma mem_invar_new: "mem_invar sha (new_memory_blobs limit)"
  by (simp add: mem_invar_def new_memory_blobs_def)

lemma mem_upload_Some:
  "mem_upload s i = Some (m, sz, b) \<longleftrightarrow>
     (\<exists>up. uploads s i = Some up \<and> mu_media_type up = m \<and> expected_size up = sz \<and> mu_bytes up = b)"
  by (auto simp: mem_upload_def)

lemma mem_begin_put_ok:
  assumes "mem_invar sha s" and call: "mem_begin_put s m sz = (s', Inr i)"
  shows "validate_media_type m = Inr () \<and> mem_upload s i = None \<and>
    mem_upload s' = (mem_upload s)(i \<mapsto> (m, sz, [])) \<and> blobs s' = blobs s \<and>
    max_blob_bytes s' = max_blob_bytes s \<and> mem_invar sha s'"
proof -
  obtain n where n: "checked_add (next_upload s) 1 = Some n" and i: "i = memory_upload_id n"
    and s': "s' = s\<lparr>next_upload := n, uploads := (uploads s)(i \<mapsto>
        \<lparr>mu_media_type = m, expected_size = sz, mu_bytes = [], previous_write = None\<rparr>)\<rparr>"
    and m: "validate_media_type m = Inr ()"
    using call by (auto simp: mem_begin_put_def Let_def split: sum.splits option.splits if_splits)
  from n have nxt: "unat n = unat (next_upload s) + 1" by (simp add: rust_simps)
  with assms(1) i have "uploads s i = None"
    by (cases "uploads s i") (fastforce simp: mem_invar_def)+
  moreover from assms(1) nxt i s' have "mem_invar sha s'"
    by (auto simp: mem_invar_def upload_wf_def intro: exI[of _ n]) fastforce+
  ultimately show ?thesis
    using m s' by (auto simp: mem_upload_def fun_eq_iff)
qed

lemma mem_write_ok:
  assumes inv: "mem_invar sha s" and up: "mem_upload s i = Some (m, sz, b)"
    and off: "unat off = length b" and lim: "length b + length bs \<le> unat (max_blob_bytes s)"
    and decl: "is_none_or (\<lambda>n. length b + length bs \<le> unat n) sz"
  shows "\<exists>s'. mem_write s i off bs = (s', Inr (off + of_nat (length bs))) \<and>
    mem_upload s' = (mem_upload s)(i \<mapsto> (m, sz, b @ bs)) \<and>
    blobs s' = blobs s \<and> max_blob_bytes s' = max_blob_bytes s \<and> mem_invar sha s'"
proof -
  obtain u where u: "uploads s i = Some u" "mu_media_type u = m" "expected_size u = sz" "mu_bytes u = b"
    using up by (auto simp: mem_upload_Some)
  let ?u = "u\<lparr>mu_bytes := b @ bs, previous_write := Some (off, bs)\<rparr>"
  have small: "length b + length bs < 2 ^ 64"
    using le_less_trans[OF lim unat_u64_less] by simp
  then have len: "u64_of_len (length b) = Some off" and len': "u64_of_len (length bs) = Some (of_nat (length bs))"
    using off by (simp_all add: rust_simps unat_of_nat)
  have sum: "unat (off + of_nat (length bs)) = length b + length bs"
    using small off by (simp add: unat_word_ariths unat_of_nat)
  have add: "checked_add off (of_nat (length bs)) = Some (off + of_nat (length bs))"
    using small off by (simp add: rust_simps sum unat_of_nat)
  have "\<not> max_blob_bytes s < off + of_nat (length bs)"
    using lim sum by (simp add: word_less_nat_alt)
  moreover have "\<not> is_some_and (\<lambda>n. n < off + of_nat (length bs)) sz"
    using decl sum by (cases sz) (simp_all add: word_less_nat_alt)
  ultimately have w: "mem_write s i off bs =
      (s\<lparr>uploads := (uploads s)(i \<mapsto> ?u)\<rparr>, Inr (off + of_nat (length bs)))"
    using u len len' add by (simp add: mem_write_def)
  moreover have "upload_wf (max_blob_bytes s) ?u"
    using lim off by (simp add: upload_wf_def)
  then have "mem_invar sha (s\<lparr>uploads := (uploads s)(i \<mapsto> ?u)\<rparr>)"
    using inv u(1) by (auto simp: mem_invar_def)
  ultimately show ?thesis using u by (auto simp: mem_upload_def fun_eq_iff)
qed

lemma mem_write_cases:
  assumes "mem_invar sha s" and "mem_write s i off bs = (s', Inr n)"
  obtains u where "uploads s i = Some u" "unat n = length (mu_bytes u)" "s' = s"
      "previous_write u = Some (off, bs)" "off \<noteq> n"
    | u where "uploads s i = Some u" "unat off = length (mu_bytes u)" "unat n = unat off + length bs"
      "s' = s\<lparr>uploads := (uploads s)(i \<mapsto>
         u\<lparr>mu_bytes := mu_bytes u @ bs, previous_write := Some (off, bs)\<rparr>)\<rparr>"
      "unat n \<le> unat (max_blob_bytes s)" "\<not> is_some_and (\<lambda>k. k < n) (expected_size u)"
  using assms(2) unfolding mem_write_def
  by (auto simp: rust_simps word_less_nat_alt is_some_and_iff split: option.splits if_splits)

lemma mem_write_replay:
  assumes "mem_invar sha s" and "mem_write s i off bs = (s', Inr n)"
  shows "\<exists>s''. mem_write s' i off bs = (s'', Inr n) \<and> mem_upload s'' = mem_upload s' \<and> blobs s'' = blobs s'"
  using assms
proof (cases rule: mem_write_cases)
  case (1 u)
  with assms(2) show ?thesis by blast
next
  case (2 u)
  have "u64_of_len (length (mu_bytes u) + length bs) = Some n"
    using 2(2,3) unat_u64_less[of n] by (simp del: unat_u64_less add: rust_simps)
  moreover have "u64_of_len (length bs) = Some (of_nat (length bs))"
    using 2(3) unat_u64_less[of n] by (simp del: unat_u64_less add: rust_simps unat_of_nat)
  ultimately have u': "uploads s' i = Some (u\<lparr>mu_bytes := mu_bytes u @ bs, previous_write := Some (off, bs)\<rparr>)"
    and len: "u64_of_len (length (mu_bytes u @ bs)) = Some n"
    using 2(4) by simp_all
  show ?thesis
  proof (cases "off = n")
    case False
    then show ?thesis unfolding mem_write_def u' by (simp add: len[simplified])
  next
    case True
    with 2(3) have "bs = []" by simp
    moreover have "checked_add n 0 = Some n" "u64_of_len 0 = Some 0" by (simp_all add: rust_simps)
    moreover have "\<not> max_blob_bytes s < n" using 2(5) by (simp add: word_less_nat_alt)
    ultimately have "mem_write s' i off bs =
        (s'\<lparr>uploads := (uploads s')(i \<mapsto> u\<lparr>mu_bytes := mu_bytes u, previous_write := Some (n, [])\<rparr>)\<rparr>, Inr n)"
      unfolding mem_write_def u' using True len 2(4,6) by simp
    with u' \<open>bs = []\<close> show ?thesis by (auto simp: mem_upload_def fun_eq_iff)
  qed
qed

lemma mem_finish_ok:
  assumes inv: "mem_invar sha s" and up: "mem_upload s i = Some (m, sz, b)"
    and decl: "is_none_or (\<lambda>n. unat n = length b) sz"
    and fresh: "blobs s (sha256_hex sha b) \<in> {None, Some b}"
  shows "\<exists>s' r. mem_finish_put sha s i = (s', Inr r) \<and>
    algorithm r = sha256_algorithm \<and> digest r = sha256_hex sha b \<and> unat (blob_size r) = length b \<and>
    media_type r = m \<and> mem_upload s' = (mem_upload s)(i := None) \<and>
    blobs s' = (blobs s)(sha256_hex sha b \<mapsto> b) \<and>
    max_blob_bytes s' = max_blob_bytes s \<and> mem_invar sha s'"
proof -
  obtain u where u: "uploads s i = Some u" "mu_media_type u = m" "expected_size u = sz" "mu_bytes u = b"
    using up by (auto simp: mem_upload_Some)
  with inv have "length b \<le> unat (max_blob_bytes s)" by (auto simp: mem_invar_def upload_wf_def)
  then obtain k where k: "u64_of_len (length b) = Some k"
    using le_less_trans[OF _ unat_u64_less] by (auto simp: u64_of_len_def)
  then have len: "unat k = length b" by (simp add: rust_simps)
  with decl have "\<not> is_some_and (\<lambda>n. n \<noteq> k) sz"
    by (cases sz) (auto simp: word_unat_eq_iff)
  then have "mem_finish_put sha s i =
     (s\<lparr>uploads := (uploads s)(i := None), blobs := (blobs s)(sha256_hex sha b \<mapsto> b)\<rparr>,
      Inr \<lparr>algorithm = sha256_algorithm, digest = sha256_hex sha b, blob_size = k, media_type = m\<rparr>)"
    using u k fresh by (auto simp: mem_finish_put_def Let_def fun_upd_idem)
  moreover have "mem_invar sha (s\<lparr>uploads := (uploads s)(i := None),
      blobs := (blobs s)(sha256_hex sha b \<mapsto> b)\<rparr>)"
    using inv by (auto simp: mem_invar_def)
  ultimately show ?thesis using len by (auto simp: mem_upload_def fun_eq_iff)
qed

lemma mem_write_end:
  assumes inv: "mem_invar sha s" and up: "mem_upload s i = Some (m, sz, b)" and off: "unat off = length b"
    and call: "mem_write s i off bs = (s', Inr n)"
  shows "unat n = length b + length bs \<and> mem_upload s' = (mem_upload s)(i \<mapsto> (m, sz, b @ bs)) \<and>
    blobs s' = blobs s \<and> max_blob_bytes s' = max_blob_bytes s \<and> mem_invar sha s'"
proof -
  obtain u where u: "uploads s i = Some u" "mu_media_type u = m" "expected_size u = sz" "mu_bytes u = b"
    using up by (auto simp: mem_upload_Some)
  have cur: "u64_of_len (length b) = Some off"
    using off unat_u64_less[of off] by (auto simp: u64_of_len_def simp flip: off)
  obtain len where len: "u64_of_len (length bs) = Some len" and add: "checked_add off len = Some n"
    and lim: "\<not> max_blob_bytes s < n" and decl: "\<not> is_some_and (\<lambda>k. k < n) sz"
    using call u cur by (auto simp: mem_write_def split: option.splits if_splits)
  have "unat n = length b + length bs" using len add off by (simp add: rust_simps)
  moreover have "length b + length bs \<le> unat (max_blob_bytes s)" "is_none_or (\<lambda>k. length b + length bs \<le> unat k) sz"
    using calculation lim decl by (cases sz; simp add: word_less_nat_alt)+
  ultimately show ?thesis
    using mem_write_ok[OF inv up off, of bs] call by auto
qed

lemma mem_finish_size:
  assumes "mem_upload s i = Some (m, sz, b)" and "mem_finish_put sha s i = (s', Inr r)"
  shows "is_none_or (\<lambda>n. unat n = length b) sz"
  using assms by (cases sz) (auto simp: mem_upload_Some mem_finish_put_def Let_def rust_simps split: option.splits if_splits)

lemma mem_finish_error:
  assumes "mem_invar sha s" and "mem_finish_put sha s i = (s', Inl e)"
  shows "mem_upload s' = (mem_upload s)(i := None) \<and> blobs s' = blobs s \<and>
    max_blob_bytes s' = max_blob_bytes s \<and> mem_invar sha s'"
  using assms by (auto simp: mem_finish_put_def Let_def mem_upload_def mem_invar_def fun_eq_iff split: option.splits if_splits)

lemma mem_read_ok:
  assumes inv: "mem_invar sha s" and st: "blobs s (digest r) = Some b"
    and "validate_blob_ref r = Inr ()" and sz: "unat (blob_size r) = length b"
    and off: "unat off \<le> length b"
  shows "mem_read sha s r off n = (s, Inr \<lparr>chunk_bytes = take (unat n) (drop (unat off) b),
    eof = (length b \<le> unat off + unat n)\<rparr>)"
proof -
  have len: "length b < 2 ^ 64" using unat_u64_less[of "blob_size r"] sz by simp
  then have k: "u64_of_len (length b) = Some (blob_size r)"
    using sz by (simp add: rust_simps)
  have hex: "sha256_hex sha b = digest r" using inv st by (auto simp: mem_invar_def)
  have stop: "min (unat (saturating_add off n)) (length b) = min (unat off + unat n) (length b)"
    using len by (simp add: rust_simps)
  have "drop (unat off) (take (min (unat off + unat n) (length b)) b) = take (unat n) (drop (unat off) b)"
    using off by (auto simp: drop_take min_def)
  moreover have "(min (unat off + unat n) (length b) = length b) = (length b \<le> unat off + unat n)"
    by auto
  ultimately show ?thesis
    using assms(3) st k hex off by (simp add: mem_read_def stop)
qed

interpretation mem: blob_store "mem_ops sha" "sha256_hex sha" "mem_invar sha" max_blob_bytes mem_upload blobs
    "\<lambda>s. next_upload s = - 1"
  for sha
proof unfold_locales
  fix s :: memory_blobs and m sz assume "next_upload s \<noteq> - 1" "validate_media_type m = Inr ()"
    "is_none_or (\<lambda>n. n \<le> max_blob_bytes s) sz"
  then show "\<exists>s' i. op_begin_put (mem_ops sha) s m sz = (s', Inr i)"
    by (cases sz) (auto simp: mem_ops_def mem_begin_put_def checked_add_one Let_def)
next
  fix s s' m sz i assume "mem_invar sha s" "op_begin_put (mem_ops sha) s m sz = (s', Inr i)"
  then show "validate_media_type m = Inr () \<and> mem_upload s i = None \<and>
      mem_upload s' = (mem_upload s)(i \<mapsto> (m, sz, [])) \<and> blobs s' = blobs s \<and>
      max_blob_bytes s' = max_blob_bytes s \<and> mem_invar sha s'"
    using mem_begin_put_ok by (simp add: mem_ops_def)
next
  fix s s' :: memory_blobs and m sz e assume "op_begin_put (mem_ops sha) s m sz = (s', Inl e)"
  then show "s' = s"
    by (auto simp: mem_ops_def mem_begin_put_def Let_def split: sum.splits option.splits if_splits)
next
  fix s s' :: memory_blobs and i off bs e
  assume "op_write (mem_ops sha) s i off bs = (s', Inl e)"
  then show "s' = s"
    by (auto simp: mem_ops_def mem_write_def Let_def split: option.splits if_splits)
next
  fix s i assume "mem_invar sha s"
  then show "\<exists>s'. op_abort_put (mem_ops sha) s i = (s', Inr ()) \<and> mem_upload s' = (mem_upload s)(i := None) \<and>
      blobs s' = blobs s \<and> max_blob_bytes s' = max_blob_bytes s \<and> mem_invar sha s'"
    by (auto simp: mem_ops_def mem_abort_put_def mem_upload_def mem_invar_def fun_eq_iff)
next
  fix s i m sz b assume "mem_invar sha s" "mem_upload s i = Some (m, sz, b)"
  then show "length b \<le> unat (max_blob_bytes s)"
    by (auto simp: mem_invar_def upload_wf_def mem_upload_Some)
next
  fix s s' i m sz b off bs n
  assume "mem_invar sha s" "mem_upload s i = Some (m, sz, b)" "unat off = length b"
    "op_write (mem_ops sha) s i off bs = (s', Inr n)"
  then show "unat n = length b + length bs \<and> mem_upload s' = (mem_upload s)(i \<mapsto> (m, sz, b @ bs)) \<and>
      blobs s' = blobs s \<and> max_blob_bytes s' = max_blob_bytes s \<and> mem_invar sha s'"
    using mem_write_end[of sha s i m sz b off bs s' n] by (simp add: mem_ops_def)
next
  fix s s' i m sz b r
  assume "mem_invar sha s" "mem_upload s i = Some (m, sz, b)" "op_finish_put (mem_ops sha) s i = (s', Inr r)"
  then show "is_none_or (\<lambda>n. unat n = length b) sz"
    using mem_finish_size[of s i m sz b sha s' r] by (simp add: mem_ops_def)
next
  fix s s' i e
  assume "mem_invar sha s" "op_finish_put (mem_ops sha) s i = (s', Inl e)"
  then show "mem_upload s' = (mem_upload s)(i := None) \<and> blobs s' = blobs s \<and> max_blob_bytes s' = max_blob_bytes s \<and> mem_invar sha s'"
    using mem_finish_error[of sha s i s' e] by (simp add: mem_ops_def)
qed (simp_all add: mem_ops_def mem_write_ok mem_write_replay mem_finish_ok mem_read_ok)

end
