(* ===== verification/File_Blobs.thy ===== *)
theory File_Blobs
  imports Blobs
begin

text \<open>
  The durable blob store (\<open>pluribus-store-fs\<close>): uploads are temporary files, a finished upload is
  published under a path made of its digest, and a cache remembers which references were verified.
  A file is its contents, the object directory a map from paths to contents; a failing write to a
  temporary file is an argument of \<open>file_write\<close> (how many bytes reached the file, and the error), and the other
  system calls succeed. As the trait \<open>file_ops\<close>, with writes that succeed, the store meets the same contract as the in-memory one.
\<close>

record previous_file_write =
  pw_offset :: u64
  pw_length :: nat
  pw_digest :: bytes

record file_upload =
  fu_file :: bytes
  fu_media_type :: string
  fu_expected_size :: "u64 option"
  fu_size :: u64
  fu_previous_write :: "previous_file_write option"

type_synonym object_path = "string \<times> string"

record file_store =
  objects :: "object_path \<rightharpoonup> bytes"
  fs_max_blob_bytes :: u64
  fs_next_upload :: u64
  fs_uploads :: "upload_id \<rightharpoonup> file_upload"
  verified :: "blob_ref set"

definition open_file_store :: "(object_path \<rightharpoonup> bytes) \<Rightarrow> u64 \<Rightarrow> file_store" where
  "open_file_store objs limit = \<lparr>objects = objs, fs_max_blob_bytes = limit, fs_next_upload = 0,
     fs_uploads = Map.empty, verified = {}\<rparr>"

definition object_path :: "string \<Rightarrow> object_path" where
  "object_path d = (take 2 d, drop 2 d)"

definition file_upload_id :: "u64 \<Rightarrow> upload_id" where
  "file_upload_id n = ''file-upload-'' @ show_u64 n"

definition file_begin_put ::
  "file_store \<Rightarrow> string \<Rightarrow> u64 option \<Rightarrow> file_store \<times> (blob_error + upload_id)" where
  "file_begin_put s m sz =
     (case validate_media_type m of
        Inl e \<Rightarrow> (s, Inl e)
      | Inr _ \<Rightarrow>
        if is_some_and (\<lambda>n. fs_max_blob_bytes s < n) sz
        then (s, Inl (ResourceExhausted ''expected size exceeds blob limit''))
        else case checked_add (fs_next_upload s) 1 of
            None \<Rightarrow> (s, Inl (BlobStorage ''upload identifier exhausted''))
          | Some n \<Rightarrow>
            let i = file_upload_id n;
                up = \<lparr>fu_file = [], fu_media_type = m, fu_expected_size = sz, fu_size = 0,
                      fu_previous_write = None\<rparr>
            in (s\<lparr>fs_next_upload := n, fs_uploads := (fs_uploads s)(i \<mapsto> up)\<rparr>, Inr i))"

text \<open>One write to an upload. \<open>io = Some (k, e)\<close>: only the first \<open>k\<close> bytes reached the file before the
  error \<open>e\<close>; the file is then cut back to its size.\<close>

definition file_upload_write ::
  "(bytes \<Rightarrow> bytes) \<Rightarrow> (nat \<times> string) option \<Rightarrow> file_upload \<Rightarrow> u64 \<Rightarrow> bytes \<Rightarrow> u64 \<Rightarrow>
     file_upload \<times> (blob_error + u64)" where
  "file_upload_write sha io up offset bs limit =
     (let d = sha bs in
      if offset \<noteq> fu_size up then
        if is_some_and (\<lambda>p. pw_offset p = offset \<and> pw_length p = length bs \<and> pw_digest p = d)
             (fu_previous_write up)
        then (up, Inr (fu_size up)) else (up, Inl (BlobConflict (fu_size up) offset))
      else case u64_of_len (length bs) of
          None \<Rightarrow> (up, Inl (BlobStorage ''out of range integral type conversion attempted''))
        | Some len \<Rightarrow>
          case checked_add (fu_size up) len of
            None \<Rightarrow> (up, Inl (ResourceExhausted ''blob size exceeds u64''))
          | Some next \<Rightarrow>
            if limit < next \<or> is_some_and (\<lambda>n. n < next) (fu_expected_size up)
            then (up, Inl (ResourceExhausted ''write exceeds declared or configured blob size''))
            else case io of
                Some (k, e) \<Rightarrow>
                  (up\<lparr>fu_file := take (unat (fu_size up)) (fu_file up @ take k bs)\<rparr>, Inl (BlobStorage e))
              | None \<Rightarrow>
                  (up\<lparr>fu_file := fu_file up @ bs, fu_size := next,
                      fu_previous_write :=
                        Some \<lparr>pw_offset = offset, pw_length = length bs, pw_digest = d\<rparr>\<rparr>, Inr next))"

definition file_write ::
  "(bytes \<Rightarrow> bytes) \<Rightarrow> (nat \<times> string) option \<Rightarrow> file_store \<Rightarrow> upload_id \<Rightarrow> u64 \<Rightarrow> bytes \<Rightarrow>
     file_store \<times> (blob_error + u64)" where
  "file_write sha io s i offset bs =
     (case fs_uploads s i of
        None \<Rightarrow> (s, Inl BlobNotFound)
      | Some up \<Rightarrow>
        let (up', r) = file_upload_write sha io up offset bs (fs_max_blob_bytes s)
        in (s\<lparr>fs_uploads := (fs_uploads s)(i \<mapsto> up')\<rparr>, r))"

definition verify_file ::
  "(bytes \<Rightarrow> bytes) \<Rightarrow> file_store \<Rightarrow> blob_ref \<Rightarrow> object_path \<Rightarrow> file_store \<times> (blob_error + unit)" where
  "verify_file sha s b path =
     (if b \<in> verified s then (s, Inr ())
      else case objects s path of
          None \<Rightarrow> (s, Inl BlobNotFound)
        | Some content \<Rightarrow>
          if length content \<noteq> unat (blob_size b) \<or> sha256_hex sha content \<noteq> digest b
          then (s, Inl (Corrupt ''reference does not match stored bytes''))
          else (s\<lparr>verified := insert b (verified s)\<rparr>, Inr ()))"

definition file_finish_put ::
  "(bytes \<Rightarrow> bytes) \<Rightarrow> file_store \<Rightarrow> upload_id \<Rightarrow> file_store \<times> (blob_error + blob_ref)" where
  "file_finish_put sha s i =
     (case fs_uploads s i of
        None \<Rightarrow> (s, Inl BlobNotFound)
      | Some up \<Rightarrow>
        let s = s\<lparr>fs_uploads := (fs_uploads s)(i := None)\<rparr> in
        if is_some_and (\<lambda>n. n \<noteq> fu_size up) (fu_expected_size up)
        then (s, Inl (BlobInvalid (''expected '' @
                show_u64 (case fu_expected_size up of Some n \<Rightarrow> n | None \<Rightarrow> 0) @
                '' bytes, received '' @ show_u64 (fu_size up))))
        else
          let b = \<lparr>algorithm = sha256_algorithm, digest = sha256_hex sha (fu_file up),
                   blob_size = fu_size up, media_type = fu_media_type up\<rparr>;
              path = object_path (digest b);
              (s, r) = (case objects s path of
                  None \<Rightarrow> (s\<lparr>objects := (objects s)(path \<mapsto> fu_file up)\<rparr>, Inr ())
                | Some _ \<Rightarrow> verify_file sha s b path)
          in case r of
              Inl e \<Rightarrow> (s, Inl e)
            | Inr _ \<Rightarrow> (s\<lparr>verified := insert b (verified s)\<rparr>, Inr b))"

definition file_abort_put :: "file_store \<Rightarrow> upload_id \<Rightarrow> file_store \<times> (blob_error + unit)" where
  "file_abort_put s i = (s\<lparr>fs_uploads := (fs_uploads s)(i := None)\<rparr>, Inr ())"

definition file_read ::
  "(bytes \<Rightarrow> bytes) \<Rightarrow> file_store \<Rightarrow> blob_ref \<Rightarrow> u64 \<Rightarrow> u64 \<Rightarrow> file_store \<times> (blob_error + blob_chunk)" where
  "file_read sha s b offset max_bytes =
     (case validate_blob_ref b of
        Inl e \<Rightarrow> (s, Inl e)
      | Inr _ \<Rightarrow>
        if blob_size b < offset then (s, Inl (BlobInvalid ''offset exceeds blob size''))
        else
          let path = object_path (digest b); (s, r) = verify_file sha s b path in
          case r of
            Inl e \<Rightarrow> (s, Inl e)
          | Inr _ \<Rightarrow>
            case objects s path of
              None \<Rightarrow> (s, Inl (BlobStorage ''No such file or directory (os error 2)''))
            | Some content \<Rightarrow>
              let limit = min max_bytes (blob_size b - offset);
                  bs = take (unat limit) (drop (unat offset) content)
              in (s, Inr \<lparr>chunk_bytes = bs, eof = (unat offset + length bs = unat (blob_size b))\<rparr>))"

definition file_ops :: "(bytes \<Rightarrow> bytes) \<Rightarrow> file_store blob_ops" where
  "file_ops sha = \<lparr>op_begin_put = file_begin_put, op_write = file_write sha None,
     op_finish_put = file_finish_put sha, op_abort_put = file_abort_put, op_read = file_read sha\<rparr>"

section \<open>Invariant\<close>

definition file_upload_wf :: "(bytes \<Rightarrow> bytes) \<Rightarrow> u64 \<Rightarrow> file_upload \<Rightarrow> bool" where
  "file_upload_wf sha limit up \<longleftrightarrow> unat (fu_size up) = length (fu_file up) \<and> fu_size up \<le> limit"

definition file_invar :: "(bytes \<Rightarrow> bytes) \<Rightarrow> file_store \<Rightarrow> bool" where
  "file_invar sha s \<longleftrightarrow>
     (\<forall>i up. fs_uploads s i = Some up \<longrightarrow> file_upload_wf sha (fs_max_blob_bytes s) up \<and>
        (\<exists>n. unat n \<le> unat (fs_next_upload s) \<and> i = file_upload_id n)) \<and>
     (\<forall>p c. objects s p = Some c \<longrightarrow> p = object_path (sha256_hex sha c)) \<and>
     (\<forall>b \<in> verified s. \<exists>c. objects s (object_path (digest b)) = Some c \<and>
        unat (blob_size b) = length c \<and> digest b = sha256_hex sha c)"

definition file_stored :: "file_store \<Rightarrow> string \<rightharpoonup> bytes" where
  "file_stored s d = objects s (object_path d)"

definition file_uploads :: "file_store \<Rightarrow> upload_id \<rightharpoonup> string \<times> u64 option \<times> bytes" where
  "file_uploads s i =
     map_option (\<lambda>up. (fu_media_type up, fu_expected_size up, fu_file up)) (fs_uploads s i)"

lemma object_path_inject [simp]: "object_path a = object_path b \<longleftrightarrow> a = b"
  by (auto simp: object_path_def) (metis append_take_drop_id)

lemma file_upload_id_inject [simp]: "file_upload_id a = file_upload_id b \<longleftrightarrow> a = b"
  by (simp add: file_upload_id_def)

lemma file_invar_open:
  "(\<forall>p c. objs p = Some c \<longrightarrow> p = object_path (sha256_hex sha c)) \<Longrightarrow> file_invar sha (open_file_store objs limit)"
  by (simp add: file_invar_def open_file_store_def)

section \<open>The contract\<close>

lemma file_uploads_Some:
  "file_uploads s i = Some (m, sz, b) \<longleftrightarrow>
     (\<exists>up. fs_uploads s i = Some up \<and> fu_media_type up = m \<and> fu_expected_size up = sz \<and> fu_file up = b)"
  by (auto simp: file_uploads_def)

lemma file_invarD:
  assumes "file_invar sha s"
  shows "fs_uploads s i = Some up \<Longrightarrow> file_upload_wf sha (fs_max_blob_bytes s) up"
    and "objects s p = Some c \<Longrightarrow> p = object_path (sha256_hex sha c)"
    and "b \<in> verified s \<Longrightarrow> \<exists>c. objects s (object_path (digest b)) = Some c \<and>
        unat (blob_size b) = length c \<and> digest b = sha256_hex sha c"
  using assms unfolding file_invar_def by blast+

lemma file_begin_put_ok:
  assumes inv: "file_invar sha s" and call: "file_begin_put s m sz = (s', Inr i)"
  shows "validate_media_type m = Inr () \<and> file_uploads s i = None \<and>
    file_uploads s' = (file_uploads s)(i \<mapsto> (m, sz, [])) \<and> file_stored s' = file_stored s \<and>
    fs_max_blob_bytes s' = fs_max_blob_bytes s \<and> file_invar sha s'"
proof -
  obtain n where n: "checked_add (fs_next_upload s) 1 = Some n" and i: "i = file_upload_id n"
    and s': "s' = s\<lparr>fs_next_upload := n, fs_uploads := (fs_uploads s)(i \<mapsto>
        \<lparr>fu_file = [], fu_media_type = m, fu_expected_size = sz, fu_size = 0, fu_previous_write = None\<rparr>)\<rparr>"
    and m: "validate_media_type m = Inr ()"
    using call by (auto simp: file_begin_put_def Let_def split: sum.splits option.splits if_splits)
  from n have nxt: "unat n = unat (fs_next_upload s) + 1" by (simp add: rust_simps)
  with inv i have "fs_uploads s i = None"
    by (cases "fs_uploads s i") (fastforce simp: file_invar_def)+
  moreover from inv nxt i s' have "file_invar sha s'"
    by (auto simp: file_invar_def file_upload_wf_def intro: exI[of _ n]) fastforce+
  ultimately show ?thesis
    using m s' by (auto simp: file_uploads_def file_stored_def fun_eq_iff)
qed

lemma file_write_ok:
  assumes inv: "file_invar sha s" and up: "file_uploads s i = Some (m, sz, b)"
    and off: "unat off = length b" and lim: "length b + length bs \<le> unat (fs_max_blob_bytes s)"
    and decl: "is_none_or (\<lambda>n. length b + length bs \<le> unat n) sz"
  shows "\<exists>s'. file_write sha None s i off bs = (s', Inr (off + of_nat (length bs))) \<and>
    file_uploads s' = (file_uploads s)(i \<mapsto> (m, sz, b @ bs)) \<and>
    file_stored s' = file_stored s \<and> fs_max_blob_bytes s' = fs_max_blob_bytes s \<and> file_invar sha s'"
proof -
  obtain u where u: "fs_uploads s i = Some u" "fu_media_type u = m" "fu_expected_size u = sz" "fu_file u = b"
    using up by (auto simp: file_uploads_Some)
  with inv have size: "fu_size u = off"
    using off by (auto simp: file_upload_wf_def word_unat_eq_iff dest: file_invarD(1))
  let ?u = "u\<lparr>fu_file := b @ bs, fu_size := off + of_nat (length bs), fu_previous_write :=
      Some \<lparr>pw_offset = off, pw_length = length bs, pw_digest = sha bs\<rparr>\<rparr>"
  have small: "length b + length bs < 2 ^ 64"
    using le_less_trans[OF lim unat_u64_less] by simp
  then have len: "u64_of_len (length bs) = Some (of_nat (length bs))"
    by (simp add: rust_simps unat_of_nat)
  have sum: "unat (off + of_nat (length bs)) = length b + length bs"
    using small off by (simp add: unat_word_ariths unat_of_nat)
  have add: "checked_add off (of_nat (length bs)) = Some (off + of_nat (length bs))"
    using small off by (simp add: rust_simps sum unat_of_nat)
  have "\<not> fs_max_blob_bytes s < off + of_nat (length bs)"
    using lim sum by (simp add: word_less_nat_alt)
  moreover have "\<not> is_some_and (\<lambda>n. n < off + of_nat (length bs)) sz"
    using decl sum by (cases sz) (simp_all add: word_less_nat_alt)
  ultimately have "file_write sha None s i off bs =
      (s\<lparr>fs_uploads := (fs_uploads s)(i \<mapsto> ?u)\<rparr>, Inr (off + of_nat (length bs)))"
    using u len add size by (simp add: file_write_def file_upload_write_def Let_def)
  moreover have "file_upload_wf sha (fs_max_blob_bytes s) ?u"
    using lim sum by (simp add: file_upload_wf_def word_le_nat_alt)
  then have "file_invar sha (s\<lparr>fs_uploads := (fs_uploads s)(i \<mapsto> ?u)\<rparr>)"
    using inv u(1) by (auto simp: file_invar_def)
  ultimately show ?thesis using u by (auto simp: file_uploads_def file_stored_def fun_eq_iff)
qed

text \<open>A write that fails part-way leaves the upload as it was.\<close>

lemma file_upload_write_failed:
  assumes "unat (fu_size up) = length (fu_file up)"
    and "file_upload_write sha io up off bs limit = (up', Inl e)"
  shows "up' = up"
  using assms by (auto simp: file_upload_write_def Let_def split: option.splits if_splits)

lemma file_write_error:
  assumes "file_invar sha s" and "file_write sha io s i off bs = (s', Inl e)"
  shows "s' = s"
proof (cases "fs_uploads s i")
  case (Some up)
  with assms obtain up' where w: "file_upload_write sha io up off bs (fs_max_blob_bytes s) = (up', Inl e)"
    and s': "s' = s\<lparr>fs_uploads := (fs_uploads s)(i \<mapsto> up')\<rparr>"
    by (auto simp: file_write_def split: prod.splits)
  from assms(1) Some have "unat (fu_size up) = length (fu_file up)"
    by (auto simp: file_upload_wf_def dest: file_invarD(1))
  with w have "up' = up" by (rule file_upload_write_failed[rotated])
  with s' Some show ?thesis by (simp add: fun_upd_idem)
qed (use assms in \<open>simp add: file_write_def\<close>)

lemma file_upload_write_cases:
  assumes "file_upload_write sha None up off bs limit = (up', Inr n)"
  obtains "up' = up" "n = fu_size up" "off \<noteq> n"
    | "off = fu_size up" "unat n = unat off + length bs" "\<not> limit < n"
      "\<not> is_some_and (\<lambda>k. k < n) (fu_expected_size up)"
      "up' = up\<lparr>fu_file := fu_file up @ bs, fu_size := n, fu_previous_write :=
          Some \<lparr>pw_offset = off, pw_length = length bs, pw_digest = sha bs\<rparr>\<rparr>"
  using assms by (auto simp: file_upload_write_def Let_def rust_simps split: option.splits if_splits)

lemma file_upload_write_replay:
  assumes "file_upload_write sha None up off bs limit = (up', Inr n)"
  shows "\<exists>up''. file_upload_write sha None up' off bs limit = (up'', Inr n) \<and>
    fu_media_type up'' = fu_media_type up' \<and> fu_expected_size up'' = fu_expected_size up' \<and> fu_file up'' = fu_file up'"
  using assms
proof (cases rule: file_upload_write_cases)
  case 1
  with assms show ?thesis by auto
next
  case 2
  show ?thesis
  proof (cases "off = n")
    case False
    with 2 show ?thesis by (simp add: file_upload_write_def)
  next
    case True
    with 2 have "bs = []" by simp
    moreover have "checked_add n 0 = Some n" "u64_of_len 0 = Some 0" by (simp_all add: rust_simps)
    ultimately show ?thesis
      using 2(3,4) True unfolding 2(5) by (simp add: file_upload_write_def)
  qed
qed

lemma file_write_replay:
  assumes "file_write sha None s i off bs = (s', Inr n)"
  shows "\<exists>s''. file_write sha None s' i off bs = (s'', Inr n) \<and> file_uploads s'' = file_uploads s' \<and>
    file_stored s'' = file_stored s'"
proof -
  obtain up up' where up: "fs_uploads s i = Some up"
    and w: "file_upload_write sha None up off bs (fs_max_blob_bytes s) = (up', Inr n)"
    and s': "s' = s\<lparr>fs_uploads := (fs_uploads s)(i \<mapsto> up')\<rparr>"
    using assms by (auto simp: file_write_def split: option.splits prod.splits)
  from file_upload_write_replay[OF w] obtain up'' where
    "file_upload_write sha None up' off bs (fs_max_blob_bytes s) = (up'', Inr n)"
    "fu_media_type up'' = fu_media_type up'" "fu_expected_size up'' = fu_expected_size up'"
    "fu_file up'' = fu_file up'" by blast
  with s' show ?thesis by (auto simp: file_write_def file_uploads_def file_stored_def fun_eq_iff)
qed

lemma file_write_end:
  assumes inv: "file_invar sha s" and up: "file_uploads s i = Some (m, sz, b)" and off: "unat off = length b"
    and call: "file_write sha None s i off bs = (s', Inr n)"
  shows "unat n = length b + length bs \<and> file_uploads s' = (file_uploads s)(i \<mapsto> (m, sz, b @ bs)) \<and>
    file_stored s' = file_stored s \<and> fs_max_blob_bytes s' = fs_max_blob_bytes s \<and> file_invar sha s'"
proof -
  obtain u u' where u: "fs_uploads s i = Some u" "fu_expected_size u = sz" "fu_file u = b"
    and w: "file_upload_write sha None u off bs (fs_max_blob_bytes s) = (u', Inr n)"
    using up call by (auto simp: file_uploads_Some file_write_def split: prod.splits)
  from inv u have size: "fu_size u = off"
    using off by (auto simp: file_upload_wf_def word_unat_eq_iff dest: file_invarD(1))
  from w have "unat n = length b + length bs \<and> length b + length bs \<le> unat (fs_max_blob_bytes s) \<and>
      is_none_or (\<lambda>k. length b + length bs \<le> unat k) sz"
  proof (cases rule: file_upload_write_cases)
    case 2
    with u off show ?thesis by (cases sz) (auto simp: word_less_nat_alt)
  qed (use size in simp)
  then show ?thesis using file_write_ok[OF inv up off, of bs] call by auto
qed

lemma verify_file_ok:
  assumes "file_invar sha s" and "objects s (object_path (digest b)) = Some c" and "unat (blob_size b) = length c"
  obtains "verify_file sha s b (object_path (digest b)) = (s\<lparr>verified := insert b (verified s)\<rparr>, Inr ())"
proof -
  have "digest b = sha256_hex sha c"
    using file_invarD(2)[OF assms(1,2)] by simp
  with assms show thesis by (intro that) (auto simp: verify_file_def insert_absorb)
qed

lemma file_invar_verified:
  assumes "file_invar sha s" and "objects s (object_path (digest b)) = Some c" and "unat (blob_size b) = length c"
  shows "file_invar sha (s\<lparr>verified := insert b (verified s)\<rparr>)"
proof -
  have "digest b = sha256_hex sha c"
    using file_invarD(2)[OF assms(1,2)] by simp
  with assms show ?thesis by (simp add: file_invar_def)
qed

lemma file_finish_ok:
  assumes inv: "file_invar sha s" and up: "file_uploads s i = Some (m, sz, b)"
    and decl: "is_none_or (\<lambda>n. unat n = length b) sz"
    and fresh: "file_stored s (sha256_hex sha b) \<in> {None, Some b}"
  shows "\<exists>s' r. file_finish_put sha s i = (s', Inr r) \<and>
    algorithm r = sha256_algorithm \<and> digest r = sha256_hex sha b \<and> unat (blob_size r) = length b \<and>
    media_type r = m \<and> file_uploads s' = (file_uploads s)(i := None) \<and>
    file_stored s' = (file_stored s)(sha256_hex sha b \<mapsto> b) \<and>
    fs_max_blob_bytes s' = fs_max_blob_bytes s \<and> file_invar sha s'"
proof -
  obtain u where u: "fs_uploads s i = Some u" "fu_media_type u = m" "fu_expected_size u = sz" "fu_file u = b"
    using up by (auto simp: file_uploads_Some)
  with inv have size: "unat (fu_size u) = length b"
    by (auto simp: file_upload_wf_def dest: file_invarD(1))
  let ?r = "\<lparr>algorithm = sha256_algorithm, digest = sha256_hex sha b, blob_size = fu_size u, media_type = m\<rparr>"
  let ?path = "object_path (sha256_hex sha b)"
  let ?s = "s\<lparr>fs_uploads := (fs_uploads s)(i := None), objects := (objects s)(?path \<mapsto> b)\<rparr>"
  have inv': "file_invar sha ?s"
    unfolding file_invar_def
  proof (intro conjI ballI)
    fix v assume "v \<in> verified ?s"
    then have "v \<in> verified s" by simp
    then obtain c where "objects s (object_path (digest v)) = Some c" "unat (blob_size v) = length c"
        "digest v = sha256_hex sha c"
      using file_invarD(3)[OF inv] by blast
    note c = this
    have "objects ?s (object_path (digest v)) = Some c"
    proof (cases "digest v = sha256_hex sha b")
      case True
      with fresh c(1) have "c = b" unfolding file_stored_def by (metis insertE option.distinct(1) option.inject singletonD)
      with True show ?thesis by simp
    next
      case False
      with c(1) show ?thesis by simp
    qed
    with c show "\<exists>c. objects ?s (object_path (digest v)) = Some c \<and>
        unat (blob_size v) = length c \<and> digest v = sha256_hex sha c" by blast
  qed (use inv in \<open>auto simp: file_invar_def\<close>)
  have "\<not> is_some_and (\<lambda>n. n \<noteq> fu_size u) sz"
    using decl size by (cases sz) (auto simp: word_unat_eq_iff)
  moreover have "?s = s\<lparr>fs_uploads := (fs_uploads s)(i := None)\<rparr>" if "objects s ?path = Some b"
    using that by (simp add: fun_upd_idem)
  ultimately have "file_finish_put sha s i = (?s\<lparr>verified := insert ?r (verified s)\<rparr>, Inr ?r)"
    using u fresh size by (auto simp: file_finish_put_def Let_def file_stored_def verify_file_def)
  moreover have "file_invar sha (?s\<lparr>verified := insert ?r (verified ?s)\<rparr>)"
    by (rule file_invar_verified[OF inv', of _ b]) (simp_all add: size)
  ultimately show ?thesis using size by (auto simp: file_uploads_def file_stored_def fun_eq_iff)
qed

lemma file_finish_size:
  assumes "file_invar sha s" and "file_uploads s i = Some (m, sz, b)" and "file_finish_put sha s i = (s', Inr r)"
  shows "is_none_or (\<lambda>n. unat n = length b) sz"
proof -
  obtain u where u: "fs_uploads s i = Some u" "fu_expected_size u = sz" "fu_file u = b"
    using assms(2) by (auto simp: file_uploads_Some)
  with assms(1) have "unat (fu_size u) = length b" by (auto simp: file_upload_wf_def dest: file_invarD(1))
  with u assms(3) show ?thesis by (cases sz) (auto simp: file_finish_put_def Let_def split: if_splits)
qed

lemma file_finish_error:
  assumes "file_invar sha s" and "file_finish_put sha s i = (s', Inl e)"
  shows "file_uploads s' = (file_uploads s)(i := None) \<and> file_stored s' = file_stored s \<and>
    fs_max_blob_bytes s' = fs_max_blob_bytes s \<and> file_invar sha s'"
proof -
  have "s' = s\<lparr>fs_uploads := (fs_uploads s)(i := None)\<rparr>"
    using assms(2) by (auto simp: file_finish_put_def verify_file_def Let_def fun_upd_idem
        split: option.splits if_splits sum.splits prod.splits)
  with assms(1) show ?thesis by (auto simp: file_uploads_def file_stored_def file_invar_def fun_eq_iff)
qed

lemma file_read_ok:
  assumes inv: "file_invar sha s" and st: "file_stored s (digest r) = Some b"
    and valid: "validate_blob_ref r = Inr ()" and sz: "unat (blob_size r) = length b"
    and off: "unat off \<le> length b"
  shows "\<exists>s'. file_read sha s r off n = (s', Inr \<lparr>chunk_bytes = take (unat n) (drop (unat off) b),
    eof = (length b \<le> unat off + unat n)\<rparr>) \<and> file_uploads s' = file_uploads s \<and>
    file_stored s' = file_stored s \<and> fs_max_blob_bytes s' = fs_max_blob_bytes s \<and> file_invar sha s'"
proof -
  have obj: "objects s (object_path (digest r)) = Some b" using st by (simp add: file_stored_def)
  have le: "off \<le> blob_size r" using off sz by (simp add: word_le_nat_alt)
  have lim: "unat (min n (blob_size r - off)) = min (unat n) (length b - unat off)"
    using sz le by (simp add: min_def word_le_nat_alt unat_sub)
  have bytes: "take (min (unat n) (length b - unat off)) (drop (unat off) b) = take (unat n) (drop (unat off) b)"
    by (simp add: min_def)
  have eof: "(unat off + min (length b - unat off) (unat n) = unat (blob_size r)) = (length b \<le> unat off + unat n)"
    using off sz by auto
  obtain v: "verify_file sha s r (object_path (digest r)) = (s\<lparr>verified := insert r (verified s)\<rparr>, Inr ())"
    by (rule verify_file_ok[OF inv obj sz])
  have "file_read sha s r off n = (s\<lparr>verified := insert r (verified s)\<rparr>,
      Inr \<lparr>chunk_bytes = take (unat n) (drop (unat off) b), eof = (length b \<le> unat off + unat n)\<rparr>)"
    unfolding file_read_def valid v Let_def using le obj by (simp add: leD lim bytes eof)
  then show ?thesis
    using file_invar_verified[OF inv obj sz] by (auto simp: file_uploads_def file_stored_def fun_eq_iff)
qed

interpretation fsb: blob_store "file_ops sha" "sha256_hex sha" "file_invar sha" fs_max_blob_bytes
    file_uploads file_stored "\<lambda>s. fs_next_upload s = - 1"
  for sha
proof unfold_locales
  fix s :: file_store and m sz assume "fs_next_upload s \<noteq> - 1" "validate_media_type m = Inr ()"
    "is_none_or (\<lambda>n. n \<le> fs_max_blob_bytes s) sz"
  then show "\<exists>s' i. op_begin_put (file_ops sha) s m sz = (s', Inr i)"
    by (cases sz) (auto simp: file_ops_def file_begin_put_def checked_add_one Let_def)
next
  fix s s' :: file_store and m sz e assume "op_begin_put (file_ops sha) s m sz = (s', Inl e)"
  then show "s' = s"
    by (auto simp: file_ops_def file_begin_put_def Let_def split: sum.splits option.splits if_splits)
next
  fix s s' i off bs e
  assume "file_invar sha s" "op_write (file_ops sha) s i off bs = (s', Inl e)"
  then show "s' = s" using file_write_error by (simp add: file_ops_def)
next
  fix s s' m sz i assume "file_invar sha s" "op_begin_put (file_ops sha) s m sz = (s', Inr i)"
  then show "validate_media_type m = Inr () \<and> file_uploads s i = None \<and>
      file_uploads s' = (file_uploads s)(i \<mapsto> (m, sz, [])) \<and> file_stored s' = file_stored s \<and>
      fs_max_blob_bytes s' = fs_max_blob_bytes s \<and> file_invar sha s'"
    using file_begin_put_ok by (simp add: file_ops_def)
next
  fix s i assume "file_invar sha s"
  then show "\<exists>s'. op_abort_put (file_ops sha) s i = (s', Inr ()) \<and> file_uploads s' = (file_uploads s)(i := None) \<and>
      file_stored s' = file_stored s \<and> fs_max_blob_bytes s' = fs_max_blob_bytes s \<and> file_invar sha s'"
    by (auto simp: file_ops_def file_abort_put_def file_uploads_def file_stored_def file_invar_def fun_eq_iff)
next
  fix s i m sz b assume "file_invar sha s" "file_uploads s i = Some (m, sz, b)"
  then show "length b \<le> unat (fs_max_blob_bytes s)"
    by (auto simp: file_uploads_Some file_upload_wf_def word_le_nat_alt dest!: file_invarD(1))
next
  fix s s' i m sz b off bs n
  assume "file_invar sha s" "file_uploads s i = Some (m, sz, b)" "unat off = length b"
    "op_write (file_ops sha) s i off bs = (s', Inr n)"
  then show "unat n = length b + length bs \<and> file_uploads s' = (file_uploads s)(i \<mapsto> (m, sz, b @ bs)) \<and>
      file_stored s' = file_stored s \<and> fs_max_blob_bytes s' = fs_max_blob_bytes s \<and> file_invar sha s'"
    using file_write_end[of sha s i m sz b off bs s' n] by (simp add: file_ops_def)
next
  fix s s' i m sz b r
  assume "file_invar sha s" "file_uploads s i = Some (m, sz, b)" "op_finish_put (file_ops sha) s i = (s', Inr r)"
  then show "is_none_or (\<lambda>n. unat n = length b) sz"
    using file_finish_size[of sha s i m sz b s' r] by (simp add: file_ops_def)
next
  fix s s' i e
  assume "file_invar sha s" "op_finish_put (file_ops sha) s i = (s', Inl e)"
  then show "file_uploads s' = (file_uploads s)(i := None) \<and> file_stored s' = file_stored s \<and> fs_max_blob_bytes s' = fs_max_blob_bytes s \<and> file_invar sha s'"
    using file_finish_error[of sha s i s' e] by (simp add: file_ops_def)
qed (simp_all add: file_ops_def file_write_ok file_write_replay file_finish_ok file_read_ok)

end
