(* ===== verification/Host_Blobs.thy ===== *)
theory Host_Blobs
  imports File_Blobs
begin

text \<open>
  Two callers of the blob trait: the blob imports the Wasm host gives a component
  (\<open>blobs::Host for HostState\<close> in \<open>pluribus-runtime-wasm\<close>), which add chunk limits, upload ownership and
  per-delivery visibility, and the HTTP transport that streams a response body into a blob
  (\<open>pluribus-host-http\<close>). Both take the trait as an argument; what they guarantee is proved once in the
  locale \<open>blob_store\<close> and holds for both stores.
\<close>

section \<open>Host errors\<close>

datatype error_code =
    InvalidArgument | NotFound | PermissionDenied | Unsupported | Conflict | Unavailable
  | CodeResourceExhausted | Cancelled | DeadlineExceeded | Internal

record host_error =
  code :: error_code
  message :: string
  retryable :: bool
  details :: "string option"

definition host_error :: "error_code \<Rightarrow> string \<Rightarrow> host_error" where
  "host_error c m = \<lparr>code = c, message = m,
     retryable = (c = Unavailable \<or> c = CodeResourceExhausted), details = None\<rparr>"

definition host_blob_error :: "blob_error \<Rightarrow> host_error" where
  "host_blob_error e = host_error (case e of
       BlobNotFound \<Rightarrow> NotFound
     | BlobConflict _ _ \<Rightarrow> Conflict
     | BlobInvalid _ \<Rightarrow> InvalidArgument
     | ResourceExhausted _ \<Rightarrow> CodeResourceExhausted
     | Corrupt _ \<Rightarrow> Internal
     | BlobStorage _ \<Rightarrow> Internal) (blob_error_display e)"

section \<open>Blob imports of a component\<close>

definition max_blob_chunk_bytes :: nat where
  "max_blob_chunk_bytes = 1024 * 1024"

text \<open>The two hash sets are lists without repetition; no result depends on their order.\<close>

record 's host_blobs =
  blob_store_state :: 's
  active_uploads :: "upload_id list"
  visible_blobs :: "blob_ref list"

definition host_put ::
  "'s blob_ops \<Rightarrow> 's host_blobs \<Rightarrow> string \<Rightarrow> bytes \<Rightarrow> 's host_blobs \<times> (host_error + blob_ref)" where
  "host_put ops h m bs =
     (if max_blob_chunk_bytes < length bs
      then (h, Inl (host_error CodeResourceExhausted ''use open-write for content above 1 MiB''))
      else let (s, r) = op_begin_put ops (blob_store_state h) m (Some (of_nat (length bs))) in
        case r of
          Inl e \<Rightarrow> (h\<lparr>blob_store_state := s\<rparr>, Inl (host_blob_error e))
        | Inr up \<Rightarrow>
          let (s, w) = op_write ops s up 0 bs;
              (s, result) = (case w of Inl e \<Rightarrow> (s, Inl e) | Inr _ \<Rightarrow> op_finish_put ops s up);
              s = (case result of Inl _ \<Rightarrow> fst (op_abort_put ops s up) | Inr _ \<Rightarrow> s);
              h = h\<lparr>blob_store_state := s, active_uploads := removeAll up (List.insert up (active_uploads h))\<rparr>
          in case result of
              Inl e \<Rightarrow> (h, Inl (host_blob_error e))
            | Inr b \<Rightarrow> (h\<lparr>visible_blobs := List.insert b (visible_blobs h)\<rparr>, Inr b))"

definition host_open_write ::
  "'s blob_ops \<Rightarrow> 's host_blobs \<Rightarrow> string \<Rightarrow> u64 option \<Rightarrow> 's host_blobs \<times> (host_error + upload_id)" where
  "host_open_write ops h m sz =
     (let (s, r) = op_begin_put ops (blob_store_state h) m sz in
      case r of
        Inl e \<Rightarrow> (h\<lparr>blob_store_state := s\<rparr>, Inl (host_blob_error e))
      | Inr up \<Rightarrow> (h\<lparr>blob_store_state := s, active_uploads := List.insert up (active_uploads h)\<rparr>, Inr up))"

definition host_write ::
  "'s blob_ops \<Rightarrow> 's host_blobs \<Rightarrow> upload_id \<Rightarrow> u64 \<Rightarrow> bytes \<Rightarrow> 's host_blobs \<times> (host_error + u64)" where
  "host_write ops h up offset bs =
     (if max_blob_chunk_bytes < length bs
      then (h, Inl (host_error CodeResourceExhausted ''blob chunk exceeds 1 MiB''))
      else if \<not> List.member (active_uploads h) up
      then (h, Inl (host_error PermissionDenied ''upload does not belong to this delivery''))
      else let (s, r) = op_write ops (blob_store_state h) up offset bs
           in (h\<lparr>blob_store_state := s\<rparr>, map_err host_blob_error r))"

definition host_finish ::
  "'s blob_ops \<Rightarrow> 's host_blobs \<Rightarrow> upload_id \<Rightarrow> 's host_blobs \<times> (host_error + blob_ref)" where
  "host_finish ops h up =
     (if \<not> List.member (active_uploads h) up
      then (h, Inl (host_error PermissionDenied ''upload does not belong to this delivery''))
      else let (s, r) = op_finish_put ops (blob_store_state h) up;
               h = h\<lparr>blob_store_state := s, active_uploads := removeAll up (active_uploads h)\<rparr>
           in case r of
               Inl e \<Rightarrow> (h, Inl (host_blob_error e))
             | Inr b \<Rightarrow> (h\<lparr>visible_blobs := List.insert b (visible_blobs h)\<rparr>, Inr b))"

definition ensure_visible_blob :: "'s host_blobs \<Rightarrow> blob_ref \<Rightarrow> host_error + unit" where
  "ensure_visible_blob h b =
     rbind (map_err host_blob_error (validate_blob_ref b)) (\<lambda>_.
       if List.member (visible_blobs h) b then Inr ()
       else Inl (host_error PermissionDenied ''blob is not visible to this delivery''))"

text \<open>The component's record has the fields of \<open>BlobRef\<close>, so crossing the boundary only validates.\<close>

definition core_blob_ref :: "blob_ref \<Rightarrow> host_error + blob_ref" where
  "core_blob_ref b = rbind (map_err host_blob_error (validate_blob_ref b)) (\<lambda>_. Inr b)"

definition host_resolve_visible :: "'s host_blobs \<Rightarrow> string \<Rightarrow> host_error + blob_ref" where
  "host_resolve_visible h d =
     (if length d \<noteq> 64 \<or> \<not> list_all is_lower_hex d
      then Inl (host_error InvalidArgument ''invalid SHA-256 digest'')
      else case filter (\<lambda>b. algorithm b = sha256_algorithm \<and> digest b = d) (visible_blobs h) of
          [] \<Rightarrow> Inl (host_error PermissionDenied ''blob is not visible to this delivery'')
        | b # bs \<Rightarrow>
          if list_ex (\<lambda>c. c \<noteq> b) bs
          then Inl (host_error InvalidArgument ''visible blob digest is ambiguous'')
          else Inr b)"

definition host_read ::
  "'s blob_ops \<Rightarrow> 's host_blobs \<Rightarrow> blob_ref \<Rightarrow> u64 \<Rightarrow> u32 \<Rightarrow> 's host_blobs \<times> (host_error + blob_chunk)" where
  "host_read ops h b offset max_bytes =
     (case rbind (core_blob_ref b) (\<lambda>b. rbind (ensure_visible_blob h b) (\<lambda>_. Inr b)) of
        Inl e \<Rightarrow> (h, Inl e)
      | Inr b \<Rightarrow>
        let (s, r) = op_read ops (blob_store_state h) b offset
              (of_nat (min (unat max_bytes) max_blob_chunk_bytes))
        in (h\<lparr>blob_store_state := s\<rparr>, map_err host_blob_error r))"

text \<open>At the end of a delivery every upload it left open is aborted, whatever a single abort returns;
  the spawned task is run to its end.\<close>

primrec abort_uploads :: "'s blob_ops \<Rightarrow> 's \<Rightarrow> upload_id list \<Rightarrow> 's" where
  "abort_uploads ops s [] = s"
| "abort_uploads ops s (i # is) = abort_uploads ops (fst (op_abort_put ops s i)) is"

definition release_handles :: "'s blob_ops \<Rightarrow> 's host_blobs \<Rightarrow> 's host_blobs" where
  "release_handles ops h = h\<lparr>active_uploads := [],
     blob_store_state := abort_uploads ops (blob_store_state h) (active_uploads h)\<rparr>"

section \<open>Streaming an HTTP response body\<close>

datatype http_error =
    HttpInvalid string
  | HttpUnsupported string
  | HttpPermissionDenied string
  | HttpNotFound string
  | HttpResourceExhausted string
  | HttpTimeout
  | HttpCancelled
  | HttpAuthenticationRequired
  | HttpUnavailable string
  | HttpInternal string

definition http_blob_error :: "blob_error \<Rightarrow> http_error" where
  "http_blob_error e = (case e of
       BlobNotFound \<Rightarrow> HttpNotFound ''blob''
     | BlobConflict _ _ \<Rightarrow> HttpInvalid ''blob operation failed''
     | BlobInvalid _ \<Rightarrow> HttpInvalid ''blob operation failed''
     | ResourceExhausted _ \<Rightarrow> HttpResourceExhausted ''blob store limit''
     | Corrupt _ \<Rightarrow> HttpInternal ''blob is corrupt''
     | BlobStorage _ \<Rightarrow> HttpUnavailable ''blob store failed'')"

primrec str_contains :: "string \<Rightarrow> string \<Rightarrow> bool" where
  "str_contains [] p \<longleftrightarrow> p = []"
| "str_contains (c # cs) p \<longleftrightarrow> starts_with (c # cs) p \<or> str_contains cs p"

definition to_ascii_lowercase :: "string \<Rightarrow> string" where
  "to_ascii_lowercase = map (\<lambda>c. if 65 \<le> byte_val c \<and> byte_val c \<le> 90 then char_of (byte_val c + 32) else c)"

definition transport_error :: "string \<Rightarrow> http_error" where
  "transport_error text =
     (if str_contains (to_ascii_lowercase text) ''timed out'' then HttpTimeout
      else HttpUnavailable ''transport failed'')"

record http_header =
  hh_name :: string
  hh_value :: bytes

record http_response =
  hr_status :: u16
  hr_headers :: "http_header list"
  hr_body :: blob_ref

text \<open>What the HTTP client hands over: \<open>Inl\<close> is a read that failed, with its error text.\<close>

record wire_response =
  wr_status :: u16
  wr_headers :: "http_header list"
  wr_content_length :: "u64 option"
  wr_chunks :: "(string + bytes) list"

definition max_header_bytes :: u64 where
  "max_header_bytes = 64 * 1024"

definition is_hop_by_hop :: "string \<Rightarrow> bool" where
  "is_hop_by_hop name \<longleftrightarrow> List.member [''connection'', ''keep-alive'', ''proxy-authenticate'',
     ''proxy-authorization'', ''te'', ''trailer'', ''transfer-encoding'', ''upgrade'', ''host'',
     ''content-length''] name"

definition header_bytes :: "http_header list \<Rightarrow> u64" where
  "header_bytes hs = foldl (\<lambda>total h. saturating_add (saturating_add total (of_nat (length (hh_name h))))
     (of_nat (length (hh_value h)))) 0 hs"

fun store_chunks ::
  "'s blob_ops \<Rightarrow> u64 \<Rightarrow> upload_id \<Rightarrow> 's \<Rightarrow> u64 \<Rightarrow> (string + bytes) list \<Rightarrow> 's \<times> (http_error + unit)" where
  "store_chunks ops limit i s offset [] = (s, Inr ())"
| "store_chunks ops limit i s offset (Inl e # cs) = (s, Inl (transport_error e))"
| "store_chunks ops limit i s offset (Inr c # cs) =
     (case checked_add offset (of_nat (length c)) of
        None \<Rightarrow> (s, Inl (HttpResourceExhausted ''response size overflow''))
      | Some stop \<Rightarrow>
        if limit < stop then (s, Inl (HttpResourceExhausted ''response body exceeds grant''))
        else let (s, r) = op_write ops s i offset c in
          case r of
            Inl e \<Rightarrow> (s, Inl (http_blob_error e))
          | Inr _ \<Rightarrow> store_chunks ops limit i s stop cs)"

text \<open>The upload's guard spawns an abort on every way out; it is run here when the body is done.\<close>

definition store_body ::
  "'s blob_ops \<Rightarrow> u64 \<Rightarrow> 's \<Rightarrow> upload_id \<Rightarrow> (string + bytes) list \<Rightarrow> 's \<times> (http_error + blob_ref)" where
  "store_body ops limit s i cs =
     (let (s, w) = store_chunks ops limit i s 0 cs;
          (s, body) = (case w of
              Inl e \<Rightarrow> (s, Inl e)
            | Inr _ \<Rightarrow> let (s, f) = op_finish_put ops s i in (s, map_err http_blob_error f))
      in (fst (op_abort_put ops s i), body))"

text \<open>Storing a response; \<open>to_str\<close> reads a header value as text.\<close>

definition response_media_type :: "(bytes \<Rightarrow> string option) \<Rightarrow> wire_response \<Rightarrow> string" where
  "response_media_type to_str response =
     (case Option.bind (find (\<lambda>h. hh_name h = ''content-type'') (wr_headers response))
             (\<lambda>h. to_str (hh_value h)) of
        Some m \<Rightarrow> m | None \<Rightarrow> ''application/octet-stream'')"

definition store_response ::
  "(bytes \<Rightarrow> string option) \<Rightarrow> 's blob_ops \<Rightarrow> 's \<Rightarrow> wire_response \<Rightarrow> u64 \<Rightarrow> 's \<times> (http_error + http_response)"
where
  "store_response to_str ops s response limit =
     (if is_some_and (\<lambda>n. limit < n) (wr_content_length response)
      then (s, Inl (HttpResourceExhausted ''response body exceeds grant''))
      else
        let hs = filter (\<lambda>h. \<not> is_hop_by_hop (hh_name h)) (wr_headers response) in
        if max_header_bytes < header_bytes hs
        then (s, Inl (HttpResourceExhausted ''response headers exceed 64 KiB''))
        else
          let (s, r) = op_begin_put ops s (response_media_type to_str response) (wr_content_length response)
          in case r of
              Inl e \<Rightarrow> (s, Inl (http_blob_error e))
            | Inr i \<Rightarrow>
              let (s, body) = store_body ops limit s i (wr_chunks response)
              in (s, rbind body (\<lambda>b. Inr \<lparr>hr_status = wr_status response, hr_headers = hs, hr_body = b\<rparr>)))"

section \<open>What every store gives its callers\<close>

lemma is_lower_hex_digit: "n < 16 \<Longrightarrow> is_lower_hex (hex_digit n)"
  by (auto simp: is_lower_hex_def is_ascii_digit_def hex_digit_def)

lemma sha256_hex_wf:
  assumes "length (sha bs) = 32"
  shows "length (sha256_hex sha bs) = 64" and "list_all is_lower_hex (sha256_hex sha bs)"
proof -
  have "length (concat (map hex_byte xs)) = 2 * length xs" for xs
    by (induction xs) (simp_all add: hex_byte_def)
  with assms show "length (sha256_hex sha bs) = 64" by (simp add: sha256_hex_def)
  have "byte_val b div 16 < 16" for b :: byte
    by (simp add: less_mult_imp_div_less)
  then have "list_all is_lower_hex (hex_byte b)" for b by (simp add: hex_byte_def is_lower_hex_digit)
  then show "list_all is_lower_hex (sha256_hex sha bs)" by (auto simp: sha256_hex_def list_all_iff)
qed

context blob_store
begin

lemma host_put_ok:
  assumes inv: "invar (blob_store_state h)" and ready: "\<not> exhausted (blob_store_state h)"
    and m: "validate_media_type m = Inr ()" and chunk: "length bs \<le> max_blob_chunk_bytes"
    and lim: "length bs \<le> unat (limit (blob_store_state h))"
    and fresh: "stored (blob_store_state h) (hex bs) \<in> {None, Some bs}"
  shows "\<exists>h' r. host_put ops h m bs = (h', Inr r) \<and> r \<in> set (visible_blobs h') \<and>
    algorithm r = sha256_algorithm \<and> digest r = hex bs \<and> unat (blob_size r) = length bs \<and> media_type r = m \<and>
    upload (blob_store_state h') = upload (blob_store_state h) \<and>
    stored (blob_store_state h') = (stored (blob_store_state h))(hex bs \<mapsto> bs) \<and> invar (blob_store_state h')"
proof -
  let ?s = "blob_store_state h" and ?n = "of_nat (length bs) :: u64"
  have n: "unat ?n = length bs" using le_less_trans[OF lim unat_u64_less] by (simp add: unat_of_nat)
  with lim have "is_none_or (\<lambda>k. k \<le> limit ?s) (Some ?n)" by (simp add: word_le_nat_alt)
  from begin_total[OF inv ready m this] obtain s1 i where b: "op_begin_put ops ?s m (Some ?n) = (s1, Inr i)"
    by blast
  note b1 = begin_ok[OF inv b]
  have "\<exists>s2. op_write ops s1 i 0 bs = (s2, Inr (0 + ?n)) \<and> upload s2 = (upload s1)(i \<mapsto> (m, Some ?n, [] @ bs)) \<and>
      stored s2 = stored s1 \<and> limit s2 = limit s1 \<and> invar s2"
    using b1 lim n by (intro write_ok) auto
  then obtain s2 where w: "op_write ops s1 i 0 bs = (s2, Inr ?n)" and s2: "upload s2 i = Some (m, Some ?n, bs)"
      "upload s2 = (upload s1)(i \<mapsto> (m, Some ?n, bs))" "stored s2 = stored ?s" "invar s2"
    using b1 by auto
  have "is_none_or (\<lambda>k. unat k = length bs) (Some ?n)" "stored s2 (hex bs) \<in> {None, Some bs}"
    using n fresh s2 by auto
  from finish_ok[OF s2(4,1) this] obtain s3 r where f: "op_finish_put ops s2 i = (s3, Inr r)"
    and r: "algorithm r = sha256_algorithm" "digest r = hex bs" "unat (blob_size r) = length bs" "media_type r = m"
    and s3: "upload s3 = (upload s2)(i := None)" "stored s3 = (stored s2)(hex bs \<mapsto> bs)" "invar s3" by blast
  have "upload s3 = upload ?s" using s3(1) s2(2) b1 by (simp add: fun_upd_idem)
  then show ?thesis
    using chunk b w f r s3 s2(3) by (simp add: host_put_def)
qed

lemma host_read_ok:
  assumes "invar (blob_store_state h)" and "r \<in> set (visible_blobs h)" and "validate_blob_ref r = Inr ()"
    and "stored (blob_store_state h) (digest r) = Some bs" and "unat (blob_size r) = length bs"
    and "unat off \<le> length bs"
  shows "\<exists>h'. host_read ops h r off n = (h', Inr \<lparr>
      chunk_bytes = take (min (unat n) max_blob_chunk_bytes) (drop (unat off) bs),
      eof = (length bs \<le> unat off + min (unat n) max_blob_chunk_bytes)\<rparr>)"
proof -
  let ?n = "of_nat (min (unat n) max_blob_chunk_bytes) :: u64"
  have "unat ?n = min (unat n) max_blob_chunk_bytes" by (simp add: unat_of_nat max_blob_chunk_bytes_def)
  with read_ok[OF assms(1,4,3,5,6), of ?n] assms(2,3) show ?thesis
    by (auto simp: host_read_def core_blob_ref_def ensure_visible_blob_def rust_simps split: prod.splits)
qed

lemma store_chunks_frame:
  assumes "invar s" and "upload s i = Some (m, sz, b)" and "unat off = length b" and "length b \<le> unat lim"
    and "store_chunks ops lim i s off cs = (s', r)"
  shows "invar s' \<and> stored s' = stored s \<and> limit s' = limit s \<and> (\<exists>b'. upload s' = (upload s)(i \<mapsto> (m, sz, b')) \<and>
    (r = Inr () \<longrightarrow> length b' \<le> unat lim \<and> (\<exists>ps. cs = map Inr ps \<and> b' = b @ concat ps)))"
  using assms
proof (induction cs arbitrary: s off b)
  case Nil
  then show ?case by (auto intro!: exI[of _ b] simp: fun_upd_idem)
next
  case (Cons x cs)
  have idle: ?case if "s' = s" "r \<noteq> Inr ()"
    using that Cons.prems by (auto intro!: exI[of _ b] simp: fun_upd_idem)
  show ?case
  proof (cases "\<exists>c s1 stop k. x = Inr c \<and> checked_add off (of_nat (length c)) = Some stop \<and> \<not> lim < stop \<and>
      op_write ops s i off c = (s1, Inr k)")
    case False
    have "s' = s \<and> r \<noteq> Inr ()"
    proof (cases x)
      case (Inr c)
      obtain s1 k where w: "op_write ops s i off c = (s1, k)" by fastforce
      show ?thesis
      proof (cases k)
        case (Inl e)
        with w write_error[OF Cons.prems(1)] have "s1 = s" by blast
        with Inr Inl w Cons.prems(5) show ?thesis by (auto split: option.splits if_splits)
      next
        case (Inr n)
        with False \<open>x = Inr c\<close> w
        have "\<forall>stop. checked_add off (of_nat (length c)) = Some stop \<longrightarrow> lim < stop" by blast
        with \<open>x = Inr c\<close> Cons.prems(5) show ?thesis by (auto split: option.splits)
      qed
    qed (use Cons.prems in auto)
    with idle show ?thesis by blast
  next
    case True
    then obtain c s1 stop k where x: "x = Inr c" and stop: "checked_add off (of_nat (length c)) = Some stop"
      "\<not> lim < stop" and w: "op_write ops s i off c = (s1, Inr k)" by blast
    note w1 = write_end[OF Cons.prems(1,2,3) w]
    have "length c < 2 ^ 64"
      using w1 unat_u64_less[of k] by (simp del: unat_u64_less)
    then have "unat stop = length (b @ c)" using stop(1) Cons.prems(3) by (simp add: rust_simps unat_of_nat)
    moreover have "length (b @ c) \<le> unat lim" using calculation stop(2) by (simp add: word_less_nat_alt)
    moreover have "store_chunks ops lim i s1 stop cs = (s', r)" using Cons.prems(5) x stop w by simp
    ultimately have "invar s' \<and> stored s' = stored s1 \<and> limit s' = limit s1 \<and>
        (\<exists>b'. upload s' = (upload s1)(i \<mapsto> (m, sz, b')) \<and>
          (r = Inr () \<longrightarrow> length b' \<le> unat lim \<and> (\<exists>ps. cs = map Inr ps \<and> b' = (b @ c) @ concat ps)))"
      using w1 by (intro Cons.IH[of s1 "b @ c"]) simp_all
    with w1 obtain b' where b': "invar s'" "stored s' = stored s" "limit s' = limit s"
      "upload s' = (upload s)(i \<mapsto> (m, sz, b'))"
      and fin: "r = Inr () \<Longrightarrow> length b' \<le> unat lim \<and> (\<exists>ps. cs = map Inr ps \<and> b' = (b @ c) @ concat ps)"
      by (elim conjE exE) (rule that; simp)
    have all: "\<exists>ps. x # cs = map Inr ps \<and> b' = b @ concat ps" if r: "r = Inr ()"
    proof -
      from fin[OF r] obtain ps where "cs = map Inr ps" "b' = (b @ c) @ concat ps" by blast
      with x show ?thesis by (intro exI[of _ "c # ps"]) simp
    qed
    show ?thesis
      by (intro conjI exI[of _ b'] impI) (use b' fin all in simp_all)
  qed
qed

lemma store_chunks_ok:
  assumes "invar s" and "upload s i = Some (m, sz, b)" and "unat off = length b"
    and "length b + length (concat ps) \<le> unat lim" and "length b + length (concat ps) \<le> unat (limit s)"
    and "is_none_or (\<lambda>n. length b + length (concat ps) \<le> unat n) sz"
  shows "\<exists>s'. store_chunks ops lim i s off (map Inr ps) = (s', Inr ())"
  using assms
proof (induction ps arbitrary: s off b)
  case (Cons c ps)
  have fits: "length b + length c \<le> unat (limit s)" "is_none_or (\<lambda>n. length b + length c \<le> unat n) sz"
    using Cons.prems(5,6) by (cases sz; simp)+
  from write_ok[OF Cons.prems(1,2,3) fits] obtain s1 where w: "op_write ops s i off c = (s1, Inr (off + of_nat (length c)))"
    and s1: "upload s1 i = Some (m, sz, b @ c)" "limit s1 = limit s" "invar s1" by auto
  have "length b + length c < 2 ^ 64" using le_less_trans[OF fits(1) unat_u64_less] by simp
  then have sum: "unat (off + of_nat (length c)) = length (b @ c)"
    and add: "checked_add off (of_nat (length c)) = Some (off + of_nat (length c))"
    using Cons.prems(3) by (simp_all add: rust_simps unat_word_ariths unat_of_nat)
  have "\<exists>s'. store_chunks ops lim i s1 (off + of_nat (length c)) (map Inr ps) = (s', Inr ())"
    using Cons.prems s1 sum by (intro Cons.IH[of s1 "b @ c"]) (auto simp: add.assoc)
  moreover have "\<not> lim < off + of_nat (length c)"
    using Cons.prems(4) sum by (simp add: word_less_nat_alt)
  ultimately show ?case using w add by simp
qed simp

text \<open>Whatever the transport and the store answer, no upload stays open, and content is added only
  by a body that is reported, which then names exactly the bytes received.\<close>

lemma abort_clean:
  assumes "invar t" and "(upload t)(i := None) = up"
  shows "invar (fst (op_abort_put ops t i)) \<and> upload (fst (op_abort_put ops t i)) = up \<and>
    stored (fst (op_abort_put ops t i)) = stored t"
  using abort_ok[OF assms(1), of i] assms(2) by auto

lemma store_body_frame:
  assumes inv: "invar s" and up: "upload s i = Some (m, sz, [])" and call: "store_body ops lim s i cs = (s', r)"
    and fresh: "\<And>ps. cs = map Inr ps \<Longrightarrow> stored s (hex (concat ps)) \<in> {None, Some (concat ps)}"
  shows "invar s' \<and> upload s' = (upload s)(i := None) \<and> (case r of
      Inl e \<Rightarrow> stored s' = stored s
    | Inr p \<Rightarrow> \<exists>ps. cs = map Inr ps \<and> length (concat ps) \<le> unat lim \<and> algorithm p = sha256_algorithm \<and>
        digest p = hex (concat ps) \<and> unat (blob_size p) = length (concat ps) \<and> media_type p = m \<and>
        stored s' = (stored s)(hex (concat ps) \<mapsto> concat ps))"
proof -
  obtain s2 c where c: "store_chunks ops lim i s 0 cs = (s2, c)" by fastforce
  from store_chunks_frame[OF inv up _ _ c] obtain bs where s2: "invar s2" "stored s2 = stored s"
    "upload s2 = (upload s)(i \<mapsto> (m, sz, bs))"
    and bs: "c = Inr () \<Longrightarrow> length bs \<le> unat lim \<and> (\<exists>ps. cs = map Inr ps \<and> bs = concat ps)" by auto
  obtain s3 f where f: "op_finish_put ops s2 i = (s3, f)" by fastforce
  show ?thesis
  proof (cases c)
    case (Inl e)
    then have "s' = fst (op_abort_put ops s2 i)" "r = Inl e" using call c by (simp_all add: store_body_def)
    with abort_clean[OF s2(1) refl, of i] s2(2,3) show ?thesis by simp
  next
    case (Inr u)
    then have out: "s' = fst (op_abort_put ops s3 i)" "r = map_err http_blob_error f"
      using call c f by (simp_all add: store_body_def)
    from bs Inr obtain ps where ps: "length bs \<le> unat lim" "cs = map Inr ps" "bs = concat ps" by auto
    show ?thesis
    proof (cases f)
      case (Inl e)
      with finish_error[OF s2(1) f[unfolded Inl]] s2
      have "invar s3" "(upload s3)(i := None) = (upload s)(i := None)" "stored s3 = stored s" by simp_all
      with abort_clean[of s3] out Inl show ?thesis by (simp add: map_err_def)
    next
      case (Inr p)
      have s2i: "upload s2 i = Some (m, sz, bs)" using s2(3) by simp
      have "stored s2 (hex bs) \<in> {None, Some bs}" using fresh[OF ps(2)] ps(3) s2(2) by simp
      from finish_ok[OF s2(1) s2i finish_size[OF s2(1) s2i f[unfolded Inr]] this] f Inr s2
      have "invar s3" "(upload s3)(i := None) = (upload s)(i := None)" "stored s3 = (stored s)(hex bs \<mapsto> bs)"
        and p: "algorithm p = sha256_algorithm" "digest p = hex bs" "unat (blob_size p) = length bs" "media_type p = m"
        by auto
      with abort_clean[of s3] have "invar s'" "upload s' = (upload s)(i := None)" "stored s' = (stored s)(hex bs \<mapsto> bs)"
        by (simp_all add: out(1))
      with p out(2) Inr ps show ?thesis by (auto simp: map_err_def)
    qed
  qed
qed

lemma store_response_frame:
  assumes inv: "invar s" and call: "store_response to_str ops s w lim = (s', r)"
    and fresh: "\<And>ps. wr_chunks w = map Inr ps \<Longrightarrow> stored s (hex (concat ps)) \<in> {None, Some (concat ps)}"
  shows "invar s' \<and> upload s' = upload s \<and> (case r of
      Inl e \<Rightarrow> stored s' = stored s
    | Inr p \<Rightarrow> hr_status p = wr_status w \<and> algorithm (hr_body p) = sha256_algorithm \<and> validate_media_type (media_type (hr_body p)) = Inr () \<and>
        (\<exists>ps. wr_chunks w = map Inr ps \<and> length (concat ps) \<le> unat lim \<and>
        digest (hr_body p) = hex (concat ps) \<and> unat (blob_size (hr_body p)) = length (concat ps) \<and>
        stored s' = (stored s)(hex (concat ps) \<mapsto> concat ps)))"
proof -
  let ?m = "response_media_type to_str w" and ?sz = "wr_content_length w"
  let ?hs = "filter (\<lambda>h. \<not> is_hop_by_hop (hh_name h)) (wr_headers w)"
  obtain s1 b where b: "op_begin_put ops s ?m ?sz = (s1, b)" by fastforce
  show ?thesis
  proof (cases "is_some_and (\<lambda>n. lim < n) ?sz \<or> max_header_bytes < header_bytes ?hs \<or> (\<exists>e. b = Inl e)")
    case True
    with call b begin_error have "s' = s \<and> (\<exists>e. r = Inl e)"
      by (auto simp: store_response_def Let_def split: if_splits)
    with inv show ?thesis by auto
  next
    case False
    then obtain i where i: "b = Inr i" by (cases b) auto
    note b1 = begin_ok[OF inv b[unfolded i]]
    obtain p where body: "store_body ops lim s1 i (wr_chunks w) = (s', p)"
      and r: "r = rbind p (\<lambda>b. Inr \<lparr>hr_status = wr_status w, hr_headers = ?hs, hr_body = b\<rparr>)"
      using call b i False by (auto simp: store_response_def split: prod.splits)
    have s1: "invar s1" "upload s1 i = Some (?m, ?sz, [])" "(upload s1)(i := None) = upload s" "stored s1 = stored s"
      using b1 by (simp_all add: fun_upd_idem)
    from store_body_frame[OF s1(1,2) body] fresh s1(3,4) r b1 show ?thesis
      by (cases p) auto
  qed
qed

lemma store_response_ok:
  assumes inv: "invar s" and ready: "\<not> exhausted s" and m: "validate_media_type (response_media_type to_str w) = Inr ()"
    and hs: "header_bytes (filter (\<lambda>h. \<not> is_hop_by_hop (hh_name h)) (wr_headers w)) \<le> max_header_bytes"
    and cs: "wr_chunks w = map Inr ps" and lim: "length (concat ps) \<le> unat lim" "length (concat ps) \<le> unat (limit s)"
    and sz: "is_none_or (\<lambda>n. unat n = length (concat ps)) (wr_content_length w)"
    and fresh: "stored s (hex (concat ps)) \<in> {None, Some (concat ps)}"
  shows "\<exists>s' p. store_response to_str ops s w lim = (s', Inr p)"
proof -
  let ?m = "response_media_type to_str w" and ?sz = "wr_content_length w"
  have "is_none_or (\<lambda>n. n \<le> limit s) ?sz" "\<not> is_some_and (\<lambda>n. lim < n) ?sz"
    and le: "is_none_or (\<lambda>n. length [] + length (concat ps) \<le> unat n) ?sz"
    using sz lim by (cases ?sz; simp add: word_le_nat_alt word_less_nat_alt)+
  note fits = this
  from begin_total[OF inv ready m fits(1)] obtain s1 i where b: "op_begin_put ops s ?m ?sz = (s1, Inr i)" by blast
  note b1 = begin_ok[OF inv b]
  then have s1: "invar s1" "upload s1 i = Some (?m, ?sz, [])" "limit s1 = limit s" "stored s1 = stored s" by auto
  have "unat (0 :: u64) = length ([] :: bytes)" by simp
  from store_chunks_ok[OF s1(1,2) this _ _ le, of lim] lim s1(3) obtain s2
    where c: "store_chunks ops lim i s1 0 (map Inr ps) = (s2, Inr ())" by auto
  from store_chunks_frame[OF s1(1,2) _ _ c] have s2: "invar s2" "upload s2 i = Some (?m, ?sz, concat ps)" "stored s2 = stored s"
    using s1(4) by (auto dest: map_injective)
  from finish_ok[OF s2(1,2) sz] fresh s2(3) obtain s3 r where "op_finish_put ops s2 i = (s3, Inr r)" by auto
  with b c cs hs fits(2) show ?thesis by (simp add: store_response_def store_body_def leD)
qed

lemma host_put_read:
  assumes "invar (blob_store_state h)" and "\<not> exhausted (blob_store_state h)" and m: "validate_media_type m = Inr ()"
    and "length bs \<le> max_blob_chunk_bytes" and "length bs \<le> unat (limit (blob_store_state h))"
    and "stored (blob_store_state h) (hex bs) \<in> {None, Some bs}"
    and hex: "length (hex bs) = 64" "list_all is_lower_hex (hex bs)" and off: "unat off \<le> length bs"
  shows "\<exists>h' r h''. host_put ops h m bs = (h', Inr r) \<and> host_read ops h' r off n = (h'', Inr \<lparr>
      chunk_bytes = take (min (unat n) max_blob_chunk_bytes) (drop (unat off) bs),
      eof = (length bs \<le> unat off + min (unat n) max_blob_chunk_bytes)\<rparr>)"
proof -
  from host_put_ok[OF assms(1-6)] obtain h' r where put: "host_put ops h m bs = (h', Inr r)"
    and r: "r \<in> set (visible_blobs h')" "algorithm r = sha256_algorithm" "digest r = hex bs"
      "unat (blob_size r) = length bs" "media_type r = m"
    and s: "stored (blob_store_state h') = (stored (blob_store_state h))(hex bs \<mapsto> bs)" "invar (blob_store_state h')" by blast
  have "validate_blob_ref r = Inr ()" using r m hex by (simp add: validate_blob_ref_Inr)
  from host_read_ok[OF s(2) r(1) this _ r(4) off] put s(1) r(3) show ?thesis by auto
qed

end

section \<open>The durable store behind the host\<close>

text \<open>C13: What a component puts into the durable store through the host, it can read back: any content
  of at most one chunk and within the store's limit is accepted, and reading the returned reference at any offset gives
  the bytes from that offset, at most 1 MiB of them, marked closed exactly when they reach the end. The premise
  on the digest excludes a SHA-256 collision with stored content.\<close>

theorem put_read_file:
  assumes "file_invar sha (blob_store_state h)" and "fs_next_upload (blob_store_state h) \<noteq> - 1"
    and "validate_media_type m = Inr ()" and "length bs \<le> max_blob_chunk_bytes"
    and "length bs \<le> unat (fs_max_blob_bytes (blob_store_state h))"
    and "file_stored (blob_store_state h) (sha256_hex sha bs) \<in> {None, Some bs}"
    and "length (sha bs) = 32" and "unat off \<le> length bs"
  shows "\<exists>h' r h''. host_put (file_ops sha) h m bs = (h', Inr r) \<and> host_read (file_ops sha) h' r off n = (h'', Inr \<lparr>
      chunk_bytes = take (min (unat n) max_blob_chunk_bytes) (drop (unat off) bs),
      eof = (length bs \<le> unat off + min (unat n) max_blob_chunk_bytes)\<rparr>)"
  using assms sha256_hex_wf[of sha bs] by (intro fsb.host_put_read) simp_all

abbreviation demo_sha :: "bytes \<Rightarrow> bytes" where
  "demo_sha \<equiv> \<lambda>bs. replicate 32 (CHR 0x00)"

abbreviation demo_host :: "file_store host_blobs" where
  "demo_host \<equiv> \<lparr>blob_store_state = open_file_store Map.empty 16, active_uploads = [], visible_blobs = []\<rparr>"

theorem put_read_file_witness:
  "\<exists>h' r h''. host_put (file_ops demo_sha) demo_host ''text/plain'' ''hello'' = (h', Inr r) \<and>
     host_read (file_ops demo_sha) h' r 1 2 = (h'', Inr \<lparr>chunk_bytes = ''el'', eof = False\<rparr>)"
proof -
  have "validate_media_type ''text/plain'' = Inr ()" by code_simp
  then show ?thesis
    using put_read_file[of demo_sha demo_host "''text/plain''" "''hello''" 1 2]
    by (simp add: file_invar_open open_file_store_def file_invar_def file_stored_def max_blob_chunk_bytes_def)
qed

text \<open>C12: Storing an HTTP response is all or nothing on the durable store. Whatever the server sends and wherever
  it fails, the call leaves no upload open and keeps the store's invariant. On an error no content was added; on
  success every chunk had arrived, together they are within the grant, the returned reference has their digest and
  size, and exactly these bytes were added under it.\<close>

theorem store_response_atomic:
  assumes "file_invar sha s" and "store_response to_str (file_ops sha) s w lim = (s', r)"
    and "\<And>ps. wr_chunks w = map Inr ps \<Longrightarrow> file_stored s (sha256_hex sha (concat ps)) \<in> {None, Some (concat ps)}"
  shows "file_invar sha s' \<and> file_uploads s' = file_uploads s \<and> (case r of
      Inl e \<Rightarrow> file_stored s' = file_stored s
    | Inr p \<Rightarrow> \<exists>ps. wr_chunks w = map Inr ps \<and> length (concat ps) \<le> unat lim \<and>
        digest (hr_body p) = sha256_hex sha (concat ps) \<and> unat (blob_size (hr_body p)) = length (concat ps) \<and>
        file_stored s' = (file_stored s)(sha256_hex sha (concat ps) \<mapsto> concat ps))"
  using fsb.store_response_frame[OF assms] by (cases r) auto

abbreviation demo_response :: wire_response where
  "demo_response \<equiv> \<lparr>wr_status = 200, wr_headers = [\<lparr>hh_name = ''content-type'', hh_value = ''text/plain''\<rparr>],
     wr_content_length = Some 5, wr_chunks = map Inr [''he'', ''llo'']\<rparr>"

lemma demo_response_headers:
  "header_bytes (filter (\<lambda>h. \<not> is_hop_by_hop (hh_name h)) (wr_headers demo_response)) \<le> max_header_bytes"
  by (simp add: header_bytes_def is_hop_by_hop_def max_header_bytes_def saturating_add_def)

theorem store_response_atomic_witness:
  "\<exists>s' p. store_response Some (file_ops demo_sha) (open_file_store Map.empty 16) demo_response 8 = (s', Inr p) \<and>
     file_stored s' (sha256_hex demo_sha ''hello'') = Some ''hello'' \<and> file_uploads s' = Map.empty"
proof -
  let ?s = "open_file_store Map.empty 16"
  have inv: "file_invar demo_sha ?s" by (simp add: file_invar_open)
  have empty: "file_stored ?s = Map.empty" "file_uploads ?s = Map.empty"
    by (simp_all add: fun_eq_iff file_stored_def file_uploads_def open_file_store_def)
  have m: "response_media_type Some demo_response = ''text/plain''" by (simp add: response_media_type_def)
  have media: "validate_media_type ''text/plain'' = Inr ()" by code_simp
  have "\<exists>s' p. store_response Some (file_ops demo_sha) ?s demo_response 8 = (s', Inr p)"
    by (rule fsb.store_response_ok[where ps = "[''he'', ''llo'']"])
      (use inv m media demo_response_headers empty in \<open>simp_all add: open_file_store_def\<close>)
  then obtain s' p where call: "store_response Some (file_ops demo_sha) ?s demo_response 8 = (s', Inr p)" by blast
  from store_response_atomic[OF inv call] empty obtain ps :: "bytes list" where
    "map Inr ps = map (Inr :: bytes \<Rightarrow> string + bytes) [''he'', ''llo'']"
    "file_stored s' = [sha256_hex demo_sha (concat ps) \<mapsto> concat ps]" "file_uploads s' = Map.empty" by force
  moreover from this(1) have "ps = [''he'', ''llo'']" by (metis inj_Inr inj_map_eq_map)
  ultimately show ?thesis using call by auto
qed

text \<open>C14: A response whose chunks all arrive, within the grant and the store's limit, with small headers, a valid
  media type and a truthful (or no) content length, is stored.\<close>

theorem store_response_succeeds:
  assumes "file_invar sha s" and "fs_next_upload s \<noteq> - 1"
    and "validate_media_type (response_media_type to_str w) = Inr ()"
    and "header_bytes (filter (\<lambda>h. \<not> is_hop_by_hop (hh_name h)) (wr_headers w)) \<le> max_header_bytes"
    and "wr_chunks w = map Inr ps" and "length (concat ps) \<le> unat lim" "length (concat ps) \<le> unat (fs_max_blob_bytes s)"
    and "is_none_or (\<lambda>n. unat n = length (concat ps)) (wr_content_length w)"
    and "file_stored s (sha256_hex sha (concat ps)) \<in> {None, Some (concat ps)}"
  shows "\<exists>s' p. store_response to_str (file_ops sha) s w lim = (s', Inr p)"
  using assms by (rule fsb.store_response_ok)

theorem store_response_succeeds_witness:
  "\<exists>s' p. store_response Some (file_ops demo_sha) (open_file_store Map.empty 16) demo_response 8 = (s', Inr p)"
proof (rule store_response_succeeds[where ps = "[''he'', ''llo'']"])
  show "validate_media_type (response_media_type Some demo_response) = Inr ()" by code_simp
  show "header_bytes (filter (\<lambda>h. \<not> is_hop_by_hop (hh_name h)) (wr_headers demo_response)) \<le> max_header_bytes"
    by (rule demo_response_headers)
qed (simp_all add: file_invar_open file_stored_def open_file_store_def file_invar_def)

end
