(* ===== verification/Json.thy ===== *)
theory Json
  imports Prelude
begin

text \<open>
  JSON values as the sources use them: \<open>serde_json::Value\<close> with its accessors, objects being ordered
  maps, and the record \<open>serde\<close> of the package's functions the sources call (reading and
  writing text, JSON pointers, the text of a number), which every definition that parses or prints
  takes as an argument.
\<close>

datatype json_number = Integer int | Float string

datatype json =
    JNull
  | JBool bool
  | JNumber json_number
  | JString string
  | JArray "json list"
  | JObject "(string \<times> json) list"

record serde =
  from_slice :: "bytes \<Rightarrow> string + json"
  to_vec :: "json \<Rightarrow> string + bytes"
  value_text :: "json \<Rightarrow> string"
  number_text :: "json_number \<Rightarrow> string"
  json_pointer :: "json \<Rightarrow> string \<Rightarrow> json option"

text \<open>\<open>get\<close>, indexing (\<open>Null\<close> where there is no such member), the \<open>as_\<close> conversions, and an
  object literal of the \<open>json!\<close> macro.\<close>

definition json_get :: "json \<Rightarrow> string \<Rightarrow> json option" where
  "json_get v k = (case v of JObject m \<Rightarrow> btree_get m k | _ \<Rightarrow> None)"

definition json_index :: "json \<Rightarrow> string \<Rightarrow> json" where
  "json_index v k = (case json_get v k of None \<Rightarrow> JNull | Some x \<Rightarrow> x)"

definition as_str :: "json \<Rightarrow> string option" where
  "as_str v = (case v of JString s \<Rightarrow> Some s | _ \<Rightarrow> None)"

definition as_array :: "json \<Rightarrow> json list option" where
  "as_array v = (case v of JArray xs \<Rightarrow> Some xs | _ \<Rightarrow> None)"

definition as_object :: "json \<Rightarrow> (string, json) btree option" where
  "as_object v = (case v of JObject m \<Rightarrow> Some m | _ \<Rightarrow> None)"

definition as_i64 :: "json \<Rightarrow> i64 option" where
  "as_i64 v = (case v of
       JNumber (Integer n) \<Rightarrow> if i64_min \<le> n \<and> n \<le> i64_max then Some n else None
     | _ \<Rightarrow> None)"

definition as_u64 :: "json \<Rightarrow> u64 option" where
  "as_u64 v = (case v of
       JNumber (Integer n) \<Rightarrow> if 0 \<le> n \<and> n < 2 ^ 64 then Some (word_of_int n) else None
     | _ \<Rightarrow> None)"

definition as_bool :: "json \<Rightarrow> bool option" where
  "as_bool v = (case v of JBool b \<Rightarrow> Some b | _ \<Rightarrow> None)"

definition json_object :: "(string \<times> json) list \<Rightarrow> json" where
  "json_object ps = JObject (btree_of ps)"

definition json_opt :: "('a \<Rightarrow> json) \<Rightarrow> 'a option \<Rightarrow> json" where
  "json_opt f m = (case m of None \<Rightarrow> JNull | Some x \<Rightarrow> f x)"

definition json_u64 :: "u64 \<Rightarrow> json" where
  "json_u64 w = JNumber (Integer (uint w))"

definition json_i64 :: "i64 \<Rightarrow> json" where
  "json_i64 n = JNumber (Integer n)"

text \<open>Assignment to \<open>value["key"]\<close>: \<open>Null\<close> becomes an object, anything else but an object panics.\<close>

definition json_assign :: "string \<Rightarrow> json \<Rightarrow> json \<Rightarrow> json option" where
  "json_assign k x v = (case v of
       JObject m \<Rightarrow> Some (JObject (btree_insert k x m))
     | JNull \<Rightarrow> Some (JObject [(k, x)])
     | _ \<Rightarrow> None)"

text \<open>What a caller relies on who reads back what it wrote.\<close>

definition reads_back :: "serde \<Rightarrow> bool" where
  "reads_back S \<longleftrightarrow> (\<forall>v b. to_vec S v = Inr b \<longrightarrow> from_slice S b = Inr v)"

lemma json_get_object [simp]: "json_get (json_object ps) k = map_of (rev ps) k"
  by (simp add: json_get_def json_object_def)

lemma json_get_JObject [simp]: "json_get (JObject m) k = btree_get m k"
  by (simp add: json_get_def)

lemma as_str_simps [simp]: "as_str (JString s) = Some s" "as_str JNull = None"
  by (simp_all add: as_str_def)

lemma as_str_eq_Some: "as_str v = Some s \<longleftrightarrow> v = JString s"
  by (cases v) (simp_all add: as_str_def)

lemma json_opt_simps [simp]: "json_opt f None = JNull" "json_opt f (Some x) = f x"
  by (simp_all add: json_opt_def)

lemma reads_backD: "reads_back S \<Longrightarrow> to_vec S v = Inr b \<Longrightarrow> from_slice S b = Inr v"
  by (simp add: reads_back_def)

end
