(* ===== verification/Credentials.thy ===== *)
theory Credentials
  imports Sqlite_State Host_Blobs Json
begin

text \<open>
  Plugin credentials: the host-only records behind an atomic compare-and-swap
  (\<open>PluginCredentialStore\<close>), in memory (\<open>secret.rs\<close>) and in the SQLite store, and the imports through which a
  component reaches those it was granted (\<open>credentials::Host\<close> in \<open>pluribus-runtime-wasm\<close>). The contract of the
  trait is the locale \<open>credential_store\<close>.
\<close>

section \<open>The trait and its two stores\<close>

datatype secret_error =
    SecretNotFound
  | SecretPermissionDenied
  | SecretInvalid string
  | SecretStorage string

definition secret_error_display :: "secret_error \<Rightarrow> string" where
  "secret_error_display e = (case e of
       SecretNotFound \<Rightarrow> ''credential handle not found''
     | SecretPermissionDenied \<Rightarrow> ''credential use is not permitted''
     | SecretInvalid m \<Rightarrow> ''invalid credential: '' @ m
     | SecretStorage m \<Rightarrow> ''credential storage failed: '' @ m)"

record 's credential_ops =
  op_read_credential :: "'s \<Rightarrow> string \<Rightarrow> string \<Rightarrow> secret_error + bytes option"
  op_replace_credential :: "'s \<Rightarrow> string \<Rightarrow> string \<Rightarrow> bytes option \<Rightarrow> bytes \<Rightarrow> 's \<times> (secret_error + bool)"

type_synonym memory_credentials = "string \<times> string \<rightharpoonup> bytes"

definition mem_read_credential :: "memory_credentials \<Rightarrow> string \<Rightarrow> string \<Rightarrow> secret_error + bytes option" where
  "mem_read_credential s handle provider = Inr (s (handle, provider))"

definition mem_replace_credential ::
  "memory_credentials \<Rightarrow> string \<Rightarrow> string \<Rightarrow> bytes option \<Rightarrow> bytes \<Rightarrow> memory_credentials \<times> (secret_error + bool)" where
  "mem_replace_credential s handle provider expected v =
     (if s (handle, provider) \<noteq> expected then (s, Inr False)
      else (s((handle, provider) \<mapsto> v), Inr True))"

definition mem_credential_ops :: "memory_credentials credential_ops" where
  "mem_credential_ops = \<lparr>op_read_credential = mem_read_credential, op_replace_credential = mem_replace_credential\<rparr>"

text \<open>The SQLite statements: how many rows an \<open>UPDATE ... WHERE value = ?\<close> or an \<open>INSERT OR IGNORE\<close> changed.\<close>

definition update_credential ::
  "database \<Rightarrow> string \<times> string \<Rightarrow> bytes \<Rightarrow> bytes \<Rightarrow> database \<times> nat" where
  "update_credential d key v previous =
     (if plugin_credentials d key = Some previous
      then (d\<lparr>plugin_credentials := (plugin_credentials d)(key \<mapsto> v)\<rparr>, 1) else (d, 0))"

definition insert_credential :: "database \<Rightarrow> string \<times> string \<Rightarrow> bytes \<Rightarrow> database \<times> nat" where
  "insert_credential d key v =
     (if plugin_credentials d key = None
      then (d\<lparr>plugin_credentials := (plugin_credentials d)(key \<mapsto> v)\<rparr>, 1) else (d, 0))"

definition sql_read_credential :: "store \<Rightarrow> string \<Rightarrow> string \<Rightarrow> secret_error + bytes option" where
  "sql_read_credential s handle provider = Inr (plugin_credentials (db s) (handle, provider))"

definition sql_replace_credential ::
  "store \<Rightarrow> string \<Rightarrow> string \<Rightarrow> bytes option \<Rightarrow> bytes \<Rightarrow> store \<times> (secret_error + bool)" where
  "sql_replace_credential s handle provider expected v =
     (let (d, changed) = (case expected of
          Some previous \<Rightarrow> update_credential (db s) (handle, provider) v previous
        | None \<Rightarrow> insert_credential (db s) (handle, provider) v)
      in (s\<lparr>db := d\<rparr>, Inr (changed = 1)))"

definition sql_credential_ops :: "store credential_ops" where
  "sql_credential_ops = \<lparr>op_read_credential = sql_read_credential, op_replace_credential = sql_replace_credential\<rparr>"

section \<open>The contract\<close>

locale credential_store =
  fixes ops :: "'s credential_ops"
    and credential :: "'s \<Rightarrow> string \<times> string \<rightharpoonup> bytes"
  assumes read_spec: "op_read_credential ops s h p = Inr (credential s (h, p))"
    and replace_spec: "op_replace_credential ops s h p expected v = (s', r) \<Longrightarrow>
      r = Inr (credential s (h, p) = expected) \<and>
      credential s' = (if credential s (h, p) = expected then (credential s)((h, p) \<mapsto> v) else credential s)"

section \<open>Imports of a component\<close>

record credential_export =
  ce_credential :: string
  ce_provider :: string
  ce_export :: string

record credential_access =
  ca_provider :: string
  granted_handles :: "string set"
  ca_exports :: "string \<rightharpoonup> credential_export"

definition max_credential_bytes :: nat where
  "max_credential_bytes = 1024 * 1024"

definition granted_access :: "credential_access option \<Rightarrow> string \<Rightarrow> host_error + credential_access" where
  "granted_access granted handle =
     ok_or (host_error PermissionDenied ''credential not granted'')
       (Option.bind granted (\<lambda>a. if handle \<in> granted_handles a then Some a else None))"

definition host_credential_get ::
  "'s credential_ops \<Rightarrow> credential_access option \<Rightarrow> 's \<Rightarrow> string \<Rightarrow> host_error + bytes option" where
  "host_credential_get ops granted s handle =
     rbind (granted_access granted handle) (\<lambda>a.
       map_err (\<lambda>_. host_error Unavailable ''credential storage unavailable'')
         (op_read_credential ops s handle (ca_provider a)))"

definition host_compare_and_swap ::
  "'s credential_ops \<Rightarrow> credential_access option \<Rightarrow> 's \<Rightarrow> string \<Rightarrow> bytes option \<Rightarrow> bytes \<Rightarrow> 's \<times> (host_error + bool)"
where
  "host_compare_and_swap ops granted s handle expected v =
     (case granted_access granted handle of
        Inl e \<Rightarrow> (s, Inl e)
      | Inr a \<Rightarrow>
        if max_credential_bytes < length v \<or> is_some_and (\<lambda>b. max_credential_bytes < length b) expected
        then (s, Inl (host_error InvalidArgument ''credential record too large''))
        else
          let (s, r) = op_replace_credential ops s handle (ca_provider a) expected v
          in (s, map_err (\<lambda>_. host_error Unavailable ''credential storage unavailable'') r))"

text \<open>Resolving an export: \<open>now_millis\<close> is the time since the epoch.\<close>

definition export_unavailable :: host_error where
  "export_unavailable = host_error Unavailable ''credential export unavailable''"

definition read_export :: "serde \<Rightarrow> bytes \<Rightarrow> string \<Rightarrow> nat \<Rightarrow> host_error + string" where
  "read_export sd bs name now_millis =
     rbind (map_err (\<lambda>_. export_unavailable) (from_slice sd bs)) (\<lambda>doc.
       let export = json_index (json_index doc ''exports'') name in
       if i64_max < int now_millis then Inl export_unavailable
       else rbind (ok_or export_unavailable (as_i64 (json_index export ''expires_at_ms''))) (\<lambda>expires.
         if expires \<le> i64_saturating_add (int now_millis) 30000 then Inl export_unavailable
         else case as_str (json_index export ''value'') of
             None \<Rightarrow> Inl export_unavailable
           | Some v \<Rightarrow> if v = [] \<or> List.member v (CHR 0x00) then Inl export_unavailable else Inr v))"

definition resolve_export ::
  "serde \<Rightarrow> 's credential_ops \<Rightarrow> credential_access \<Rightarrow> 's \<Rightarrow> string \<Rightarrow> nat \<Rightarrow> host_error + string" where
  "resolve_export sd ops a s binding now_millis =
     rbind (ok_or (host_error PermissionDenied ''credential export not granted'') (ca_exports a binding)) (\<lambda>g.
     rbind (map_err (\<lambda>_. export_unavailable) (op_read_credential ops s (ce_credential g) (ce_provider g))) (\<lambda>stored.
     rbind (ok_or export_unavailable stored) (\<lambda>bs. read_export sd bs (ce_export g) now_millis)))"

definition host_resolve_export ::
  "serde \<Rightarrow> 's credential_ops \<Rightarrow> credential_access option \<Rightarrow> 's \<Rightarrow> string \<Rightarrow> nat \<Rightarrow> host_error + string" where
  "host_resolve_export sd ops granted s binding now_millis =
     rbind (ok_or (host_error PermissionDenied ''credential export not granted'') granted)
       (\<lambda>a. resolve_export sd ops a s binding now_millis)"

context credential_store
begin

text \<open>A swap touches only a record that was granted, under the caller's own provider, and only from the
  expected value; of two swaps from the same value the second fails unless it is the value just written.\<close>

lemma swap_spec:
  assumes call: "host_compare_and_swap ops granted s handle expected v = (s', r)"
  shows "(r = Inr True \<longrightarrow> (\<exists>a. granted = Some a \<and> handle \<in> granted_handles a \<and> credential s (handle, ca_provider a) = expected \<and>
      credential s' = (credential s)((handle, ca_provider a) \<mapsto> v))) \<and>
    (r \<noteq> Inr True \<longrightarrow> credential s' = credential s)"
proof (cases "\<exists>a. granted = Some a \<and> handle \<in> granted_handles a \<and> \<not> (max_credential_bytes < length v \<or>
    is_some_and (\<lambda>b. max_credential_bytes < length b) expected)")
  case True
  then obtain a where a: "granted = Some a" "handle \<in> granted_handles a" by blast
  obtain s1 q where q: "op_replace_credential ops s handle (ca_provider a) expected v = (s1, q)" by fastforce
  have "s' = s1 \<and> r = map_err (\<lambda>_. host_error Unavailable ''credential storage unavailable'') q"
    using call True a q by (auto simp: host_compare_and_swap_def granted_access_def)
  with replace_spec[OF q] a show ?thesis by auto
next
  case False
  then have "s' = s \<and> (\<exists>e. r = Inl e)"
    using call by (cases granted) (auto simp: host_compare_and_swap_def granted_access_def split: if_splits)
  then show ?thesis by auto
qed

lemma second_swap_fails:
  assumes "host_compare_and_swap ops granted s handle expected v = (s1, Inr True)" and "expected \<noteq> Some v"
    and "host_compare_and_swap ops granted s1 handle expected w = (s2, r)"
  shows "r \<noteq> Inr True \<and> credential s2 = credential s1"
  using swap_spec[OF assms(1)] swap_spec[OF assms(3)] assms(2) by auto

end

interpretation memc: credential_store mem_credential_ops "\<lambda>s. s"
  by unfold_locales (auto simp: mem_credential_ops_def mem_read_credential_def mem_replace_credential_def split: if_splits)

interpretation sqlc: credential_store sql_credential_ops "\<lambda>s. plugin_credentials (db s)"
proof unfold_locales
  fix s s' h p expected v r
  assume "op_replace_credential sql_credential_ops s h p expected v = (s', r)"
  then show "r = Inr (plugin_credentials (db s) (h, p) = expected) \<and>
      plugin_credentials (db s') = (if plugin_credentials (db s) (h, p) = expected
        then (plugin_credentials (db s))((h, p) \<mapsto> v) else plugin_credentials (db s))"
    by (cases expected) (auto simp: sql_credential_ops_def sql_replace_credential_def update_credential_def
        insert_credential_def split: if_splits)
qed (simp add: sql_credential_ops_def sql_read_credential_def)

text \<open>C10: A component's compare-and-swap on the SQLite store changes exactly one record, and only
  one it was granted, under its own provider, holding the expected value; in every other case, an error or a refusal,
  no credential changes.\<close>

theorem credential_swap_granted:
  assumes "host_compare_and_swap sql_credential_ops granted s handle expected v = (s', r)"
  shows "(r = Inr True \<longrightarrow> (\<exists>a. granted = Some a \<and> handle \<in> granted_handles a \<and>
      plugin_credentials (db s) (handle, ca_provider a) = expected \<and>
      plugin_credentials (db s') = (plugin_credentials (db s))((handle, ca_provider a) \<mapsto> v))) \<and>
    (r \<noteq> Inr True \<longrightarrow> plugin_credentials (db s') = plugin_credentials (db s))"
  using assms by (rule sqlc.swap_spec)

abbreviation demo_access :: credential_access where
  "demo_access \<equiv> \<lparr>ca_provider = ''dev.pluribus.email'', granted_handles = {''mail:account''}, ca_exports = Map.empty\<rparr>"

theorem credential_swap_granted_witness:
  "\<exists>s'. host_compare_and_swap sql_credential_ops (Some demo_access) demo_store ''mail:account'' None ''token'' = (s', Inr True) \<and>
     plugin_credentials (db s') = [(''mail:account'', ''dev.pluribus.email'') \<mapsto> ''token'']"
proof -
  obtain s' r where call: "host_compare_and_swap sql_credential_ops (Some demo_access) demo_store ''mail:account'' None ''token'' = (s', r)"
    by fastforce
  then have "r = Inr True"
    by (auto simp: host_compare_and_swap_def granted_access_def max_credential_bytes_def sql_credential_ops_def
        sql_replace_credential_def insert_credential_def empty_database_def)
  with call credential_swap_granted[OF call] show ?thesis by (auto simp: empty_database_def)
qed

end
