(* ===== verification/Sqlite_Store.thy ===== *)
theory Sqlite_Store
  imports Credentials
begin

text \<open>
  The SQLite store as a whole: every call that writes is a step, and the invariant of the
  tables holds in every state a sequence of steps can reach. What the events, the state and the cursors
  then guarantee are the properties at the end.
\<close>

section \<open>Steps\<close>

inductive store_step :: "engine \<Rightarrow> store \<Rightarrow> store \<Rightarrow> bool" for en where
  append_step: "append_event en s r = (s', res) \<Longrightarrow> store_step en s s'"
| apply_step: "state_apply s ns expected ms = (s', res) \<Longrightarrow> store_step en s s'"
| commit_step: "store_commit en s c = (s', res) \<Longrightarrow> store_step en s s'"
| discard_step: "delivery_discard s k = (s', res) \<Longrightarrow> store_step en s s'"
| replace_step: "sql_replace_credential s h p expected v = (s', res) \<Longrightarrow> store_step en s s'"

inductive_cases store_stepE: "store_step en s s'"

text \<open>A store reaches another by any number of steps.\<close>

inductive store_steps :: "engine \<Rightarrow> store \<Rightarrow> store \<Rightarrow> bool" for en where
  none: "store_steps en s s"
| more: "\<lbrakk>store_steps en s s'; store_step en s' s''\<rbrakk> \<Longrightarrow> store_steps en s s''"

definition fresh_store :: "metadata_source \<Rightarrow> store" where
  "fresh_store m = \<lparr>metadata = m, db = empty_database\<rparr>"

section \<open>The invariant\<close>

lemma store_wf_fresh: "store_wf (fresh_store m) []"
  by (simp add: store_wf_def fresh_store_def represents_empty state_wf_empty)

lemma append_step_wf:
  assumes wf: "store_wf s es" and call: "append_event en s r = (s', res)"
  shows "\<exists>new. store_wf s' (es @ new)"
proof (cases res)
  case (Inl e)
  have "db s' = db s" using append_event_error[of s es en r s' e] wf call Inl by (simp add: store_wf_def)
  with wf show ?thesis by (intro exI[of _ "[]"]) (simp add: store_wf_def)
next
  case (Inr e)
  from append_event_ok[of s es en r s' e] wf call Inr obtain es' where
    "log_append es r (peek_id s) (peek_clock s) = Inr (es', e)" "represents (db s') es'" "same_state (db s) (db s')"
    by (auto simp: store_wf_def)
  with wf show ?thesis using log_append_prefix same_state_wf by (fastforce simp: store_wf_def)
qed

lemma commit_step_wf:
  assumes wf: "store_wf s es" and call: "store_commit en s c = (s', r)"
  shows "\<exists>new. store_wf s' (es @ new)"
  using call
proof (cases rule: store_commit_cases)
  case (1 e)
  with wf show ?thesis by (intro exI[of _ "[]"]) (simp add: store_wf_def)
next
  case (2 rc)
  with commit_in_ok[OF wf] show ?thesis by blast
qed

lemma replace_step_wf:
  assumes "store_wf s es" and "sql_replace_credential s h p expected v = (s', r)"
  shows "store_wf s' es"
proof -
  obtain x where "db s' = (db s)\<lparr>plugin_credentials := x\<rparr>"
  proof (cases "db s' = db s")
    case True
    then show thesis by (intro that[of "plugin_credentials (db s)"]) simp
  next
    case False
    with assms(2) show thesis
      by (cases expected) (auto simp: sql_replace_credential_def update_credential_def insert_credential_def
          intro: that split: if_splits)
  qed
  then have "state_wf (db s') = state_wf (db s)" "represents (db s') es = represents (db s) es"
    by (simp_all add: state_wf_def represents_def)
  with assms(1) show ?thesis by (simp add: store_wf_def)
qed

lemma store_step_wf:
  assumes "store_step en s s'" and "store_wf s es"
  shows "\<exists>new. store_wf s' (es @ new)"
  using assms
proof (cases rule: store_step.cases)
  case (append_step r res)
  with assms(2) append_step_wf show ?thesis by blast
next
  case (apply_step ns expected ms res)
  with state_apply_spec[OF assms(2)] show ?thesis by (metis append_Nil2)
next
  case (commit_step c res)
  with assms(2) commit_step_wf show ?thesis by blast
next
  case (discard_step k res)
  with delivery_discard_spec(1)[OF assms(2), of k] show ?thesis by (metis append_Nil2 fst_conv)
next
  case (replace_step h p expected v res)
  with assms(2) replace_step_wf show ?thesis by (metis append_Nil2)
qed

lemma store_steps_wf:
  "store_steps en s s' \<Longrightarrow> store_wf s es \<Longrightarrow> \<exists>new. store_wf s' (es @ new)"
proof (induction rule: store_steps.induct)
  case (none s)
  then show ?case by (metis append_Nil2)
next
  case (more s s' s'')
  then obtain n1 where "store_wf s' (es @ n1)" by blast
  with store_step_wf[OF more.hyps(2)] obtain n2 where "store_wf s'' ((es @ n1) @ n2)" by blast
  then show ?case by auto
qed

lemma find_prefix: "find P xs = Some x \<Longrightarrow> find P (xs @ ys) = Some x"
  by (induction xs) (auto split: if_splits)

section \<open>Properties\<close>

text \<open>C3: In every state the store can reach from an empty database, by any sequence of appends, state
  changes, deliveries, discards and credential swaps, the tables represent a well-formed log: each stream has the
  sequences 1, 2, 3, ... without a gap, identifiers are unique, no stream repeats a deduplication
  key or mixes kinds; and state revisions and cursors are readable numbers.\<close>

theorem reachable_store_wf:
  assumes "store_steps en (fresh_store m) s"
  shows "\<exists>es. represents (db s) es \<and> log_wf es \<and> state_wf (db s)"
  using store_steps_wf[OF assms store_wf_fresh] by (auto simp: store_wf_def represents_def)

theorem reachable_store_wf_witness:
  "\<exists>s es. append_event demo_engine demo_store demo_request = (s, Inr demo_event) \<and> represents (db s) es"
proof -
  obtain s res where call: "append_event demo_engine demo_store demo_request = (s, res)" by fastforce
  have "store_steps demo_engine (fresh_store (metadata demo_store)) s"
    using store_steps.more[OF store_steps.none store_step.append_step[OF call]] by (simp add: fresh_store_def)
  from reachable_store_wf[OF this] obtain es where "represents (db s) es" by blast
  moreover have "res = Inr demo_event"
    using append_event_log[OF _ call, of "[]"] by (simp add: represents_empty demo_append)
  ultimately show ?thesis using call by blast
qed

text \<open>C4: History is append-only. An event that can be read by its identifier in a reachable state can be read,
  unchanged, after any further steps.\<close>

theorem history_append_only:
  assumes "store_steps en (fresh_store m) s" and "get_event en s i = Inr (Some e)" and "store_steps en s s'"
  shows "get_event en s' i = Inr (Some e)"
proof -
  obtain es where es: "store_wf s es" using store_steps_wf[OF assms(1) store_wf_fresh] by auto
  obtain new where new: "store_wf s' (es @ new)" using store_steps_wf[OF assms(3) es] by blast
  have "find (\<lambda>e. event_id e = i) es = Some e"
    using assms(2) get_refines[of s es en i] es by (simp add: store_wf_def)
  then show ?thesis using get_refines[of s' "es @ new" en i] new by (simp add: store_wf_def find_prefix)
qed

theorem history_append_only_witness:
  "\<exists>s. append_event demo_engine demo_store demo_request = (s, Inr demo_event) \<and>
     get_event demo_engine (fst (delivery_discard s \<lparr>cursor_stream = ''personal'', cursor_namespace = ''shell-1''\<rparr>)) [] =
       Inr (Some demo_event)"
proof -
  let ?k = "\<lparr>cursor_stream = ''personal'', cursor_namespace = ''shell-1''\<rparr>"
  obtain s res where call: "append_event demo_engine demo_store demo_request = (s, res)" by fastforce
  have steps: "store_steps demo_engine (fresh_store (metadata demo_store)) s"
    using store_steps.more[OF store_steps.none store_step.append_step[OF call]] by (simp add: fresh_store_def)
  have next_step: "store_steps demo_engine s (fst (delivery_discard s ?k))"
    by (rule store_steps.more[OF store_steps.none store_step.discard_step[where k = ?k]]) (rule prod.collapse[symmetric])
  have "res = Inr demo_event" "represents (db s) [demo_event]"
    using append_event_log[OF _ call, of "[]"] by (simp_all add: represents_empty demo_append)
  with history_append_only[OF steps _ next_step, of "[]" demo_event] call show ?thesis
    by (simp add: get_refines)
qed

text \<open>C1: A delivery commits all or nothing. If it fails, the database is exactly what it was. If it succeeds, the
  stored cursor was the expected one and now is the receipt's; the namespace's entries are the old ones with the
  mutations applied in order and its revision advanced by one when there were any; every other cursor and
  namespace is untouched; and the log grew by events of the receipt, which answers the proposals in order.\<close>

theorem delivery_atomic:
  assumes "store_wf s es" and "store_commit en s c = (s', r)"
  shows "case r of
      Inl e \<Rightarrow> db s' = db s
    | Inr rc \<Rightarrow> commit_effect c rc (db s) (db s') \<and> (\<exists>new. store_wf s' (es @ new) \<and>
        list_all2 answers (commit_events c) (receipt_events rc) \<and>
        set (receipt_events rc) \<subseteq> set (es @ new) \<and> set new \<subseteq> set (receipt_events rc) \<and> request ` set new \<subseteq> set (commit_events c))"
  using assms(2)
proof (cases rule: store_commit_cases)
  case (2 rc)
  with commit_in_ok[OF assms(1)] show ?thesis by simp
qed simp

abbreviation demo_commit :: delivery_commit where
  "demo_commit \<equiv> \<lparr>cursor = \<lparr>cursor_stream = ''personal'', cursor_namespace = ''shell-1''\<rparr>, expected_checkpoint = 0,
     checkpoint = Some 4, mutations = [SetKey ''k'' ''v''], commit_events = []\<rparr>"

theorem delivery_atomic_witness:
  "\<exists>s' rc. store_commit demo_engine demo_store demo_commit = (s', Inr rc) \<and>
     cursor_of (db s') (cursor demo_commit) = 4 \<and> entries_of (db s') ''shell-1'' ''k'' = Some ''v''"
proof -
  obtain s' r where call: "store_commit demo_engine demo_store demo_commit = (s', r)" by fastforce
  have wf: "store_wf demo_store []" using store_wf_fresh[of "metadata demo_store"] by (simp add: fresh_store_def)
  have valid: "validate_commit demo_commit = Inr ()" by (simp add: validate_commit_Inr List.map_filter_def)
  have rev0: "revision_of empty_database ''shell-1'' = 0" "cursor_of empty_database k = 0" for k
    by (simp_all add: revision_of_def state_revision_def cursor_of_def read_checkpoint_def empty_database_def parse_zero)
  have "\<exists>rc. r = Inr rc"
    using call by (auto simp: store_commit_def valid in_transaction_def commit_in_def Let_def
        read_checkpoint_wf[OF state_wf_empty] commit_state_eq[OF state_wf_empty] rev0 split: if_splits)
  then obtain rc where rc: "r = Inr rc" ..
  from delivery_atomic[OF wf call] rc have "commit_effect demo_commit rc empty_database (db s')" by simp
  with call rc show ?thesis by (auto simp: commit_effect_def mutate_def)
qed

text \<open>C7: A delivery never moves a cursor backwards.\<close>

theorem cursor_never_regresses:
  assumes "store_wf s es" and "store_commit en s c = (s', r)"
  shows "cursor_of (db s) k \<le> cursor_of (db s') k"
  using assms(2)
proof (cases rule: store_commit_cases)
  case (2 rc)
  have "commit_effect c rc (db s) (db s')" using commit_in_ok[OF assms(1) 2(2)] by blast
  moreover have "\<And>n. checkpoint c = Some n \<Longrightarrow> expected_checkpoint c \<le> n" using 2(3) by (simp add: validate_commit_Inr)
  ultimately show ?thesis
    by (cases "k = cursor c"; cases "checkpoint c") (auto simp: commit_effect_def)
qed simp

theorem cursor_never_regresses_witness:
  "cursor_of (db demo_store) (cursor demo_commit) \<le>
     cursor_of (db (fst (store_commit demo_engine demo_store demo_commit))) (cursor demo_commit)"
proof (rule cursor_never_regresses)
  show "store_wf demo_store []" using store_wf_fresh[of "metadata demo_store"] by (simp add: fresh_store_def)
qed (rule prod.collapse[symmetric])

text \<open>C8: Writing state is a compare-and-swap on the namespace's revision. A write succeeds only from the current
  revision, applies its mutations in order, advances the revision by one unless there were none, and
  leaves every other namespace alone; otherwise the store is unchanged, and the error is the conflict with both revisions
  or, at the largest revision, exhaustion.\<close>

theorem state_write_swap:
  assumes "store_wf s es" and "state_apply s ns expected ms = (s', r)"
  shows "store_wf s' es \<and> (case r of
      Inl e \<Rightarrow> s' = s \<and> (e = StateConflict expected (revision_of (db s) ns) \<and> revision_of (db s) ns \<noteq> expected \<or>
        e = StateStorage ''state revision exhausted'' \<and> expected = - 1)
    | Inr n \<Rightarrow> revision_of (db s) ns = expected \<and> n = (if ms = [] then expected else expected + 1) \<and>
        revision_of (db s') ns = n \<and> entries_of (db s') ns = fold mutate ms (entries_of (db s) ns) \<and>
        (\<forall>ns'. ns' \<noteq> ns \<longrightarrow> revision_of (db s') ns' = revision_of (db s) ns' \<and> entries_of (db s') ns' = entries_of (db s) ns'))"
  using assms by (rule state_apply_spec)

theorem state_write_swap_witness:
  "\<exists>s'. state_apply demo_store ''shell-1'' 0 [SetKey ''k'' ''v''] = (s', Inr 1) \<and> entries_of (db s') ''shell-1'' ''k'' = Some ''v''"
proof -
  obtain s' r where call: "state_apply demo_store ''shell-1'' 0 [SetKey ''k'' ''v''] = (s', r)" by fastforce
  have wf: "store_wf demo_store []" using store_wf_fresh[of "metadata demo_store"] by (simp add: fresh_store_def)
  have "revision_of empty_database ''shell-1'' = 0"
    by (simp add: revision_of_def state_revision_def empty_database_def parse_zero)
  then have "r = Inr 1" using call by (simp add: state_apply_eq state_wf_empty)
  with state_write_swap[OF wf call] call show ?thesis by (simp add: mutate_def)
qed

end
