(* ===== verification/Sqlite_Scan.thy ===== *)
theory Sqlite_Scan
  imports Sqlite_State
begin

text \<open>
  Scanning a namespace. SQLite compares a prefix by counting characters; on the texts Rust
  strings are, this is the prefix of bytes, and a scan returns the namespace's entries in key order, one page
  at a time, the next page starting after the last key of this one.
\<close>

section \<open>Prefixes by characters\<close>

text \<open>Every string of Rust is UTF-8; it may contain NUL, where SQLite stops counting.\<close>

definition utf8_text :: "string \<Rightarrow> bool" where
  "utf8_text t \<longleftrightarrow> from_utf8_lossy t = t"

definition plain_text :: "string \<Rightarrow> bool" where
  "plain_text t \<longleftrightarrow> utf8_text t \<and> CHR 0x00 \<notin> set t"

lemma until_nul_plain: "CHR 0x00 \<notin> set t \<Longrightarrow> until_nul t = t"
  unfolding until_nul_def by (induction t) auto

lemma utf8_chunks_append:
  "\<forall>c \<in> set cs. wf_char c \<Longrightarrow> utf8_chunks (concat cs @ s) = cs @ utf8_chunks s"
proof (induction cs)
  case (Cons c cs)
  then obtain x xs where c: "c = x # xs" by (auto simp: wf_char_def neq_Nil_conv)
  then show ?case using Cons utf8_head_append[of c "concat cs @ s"] by simp
qed simp

lemma sql_has_prefix_plain:
  assumes "plain_text p" and "plain_text k"
  shows "sql_has_prefix p k \<longleftrightarrow> starts_with k p"
proof -
  have p: "concat (utf8_chunks p) = p" and k: "concat (utf8_chunks k) = k"
    using assms by (simp_all add: plain_text_def utf8_text_def from_utf8_lossy_def)
  have plain: "until_nul p = p" "until_nul k = k" using assms by (simp_all add: plain_text_def until_nul_plain)
  have "starts_with k p" if "take_chars (length (utf8_chunks p)) k = p"
  proof -
    let ?n = "length (utf8_chunks p)"
    have "k = concat (take ?n (utf8_chunks k)) @ concat (drop ?n (utf8_chunks k))"
      unfolding concat_append[symmetric] append_take_drop_id k ..
    then have "k = p @ concat (drop ?n (utf8_chunks k))" unfolding that[unfolded take_chars_def] .
    then show ?thesis unfolding starts_with_iff by (rule exI)
  qed
  moreover have "take_chars (length (utf8_chunks p)) k = p" if "k = p @ r" for r
  proof -
    have "utf8_chunks (concat (utf8_chunks p) @ r) = utf8_chunks p @ utf8_chunks r"
      by (rule utf8_chunks_append) (auto dest: utf8_chunks_wf)
    with p that show ?thesis by (simp add: take_chars_def)
  qed
  ultimately show ?thesis unfolding sql_has_prefix_def sql_length_def plain by (auto simp: starts_with_iff)
qed

text \<open>The bytes of a longer character are at least 128, so cutting at NUL cuts between characters.\<close>

lemma wf_char_bytes: "wf_char c \<Longrightarrow> length c \<noteq> 1 \<Longrightarrow> i < length c \<Longrightarrow> 128 \<le> byte_at c i"
proof -
  assume wf: "wf_char c" and len: "length c \<noteq> 1" and i: "i < length c"
  then have "length c \<le> 4" by (auto simp: wf_char_def utf8_head_def Let_def split: if_splits)
  with i have "i = 0 \<or> i = 1 \<or> i = 2 \<or> i = 3" by linarith
  with wf len i show ?thesis
    by (auto simp: wf_char_def utf8_head_def Let_def is_cont_def utf8_second3_def utf8_second4_def split: if_splits)
qed

lemma wf_char_nul: "wf_char c \<Longrightarrow> CHR 0x00 \<in> set c \<Longrightarrow> c = [CHR 0x00]"
proof -
  assume wf: "wf_char c" and nul: "CHR 0x00 \<in> set c"
  then obtain i where i: "i < length c" "c ! i = CHR 0x00" by (auto simp: in_set_conv_nth)
  then have "byte_at c i = 0" by (simp add: byte_at_def)
  with wf_char_bytes[OF wf _ i(1)] have "length c = 1" by fastforce
  with nul show ?thesis by (cases c) auto
qed

lemma until_nul_concat:
  "\<forall>c \<in> set cs. wf_char c \<Longrightarrow> until_nul (concat cs) = concat (takeWhile (\<lambda>c. c \<noteq> [CHR 0x00]) cs)"
proof (induction cs)
  case (Cons c cs)
  show ?case
  proof (cases "c = [CHR 0x00]")
    case False
    then have "CHR 0x00 \<notin> set c" using Cons.prems wf_char_nul by auto
    then have "takeWhile (\<lambda>c. c \<noteq> CHR 0x00) (c @ concat cs) = c @ takeWhile (\<lambda>c. c \<noteq> CHR 0x00) (concat cs)"
      by (intro takeWhile_append2) auto
    with Cons False show ?thesis by (simp add: until_nul_def)
  qed (simp add: until_nul_def)
qed (simp add: until_nul_def)

lemma until_nul_text: "utf8_text k \<Longrightarrow> plain_text (until_nul k)"
proof -
  assume "utf8_text k"
  then have k: "concat (utf8_chunks k) = k" by (simp add: utf8_text_def from_utf8_lossy_def)
  let ?cs = "takeWhile (\<lambda>c. c \<noteq> [CHR 0x00]) (utf8_chunks k)"
  have wf: "\<forall>c \<in> set (utf8_chunks k). wf_char c" by (auto dest: utf8_chunks_wf)
  have eq: "until_nul k = concat ?cs" using until_nul_concat[OF wf] unfolding k .
  have "\<forall>c \<in> set ?cs. wf_char c" using wf by (auto dest: set_takeWhileD)
  then have "utf8_text (until_nul k)" unfolding eq utf8_text_def from_utf8_lossy_def by (simp add: utf8_chunks_concat)
  moreover have "CHR 0x00 \<notin> set (until_nul k)" unfolding until_nul_def by (auto dest: set_takeWhileD)
  ultimately show ?thesis by (simp add: plain_text_def)
qed

lemma starts_until_nul: "CHR 0x00 \<notin> set p \<Longrightarrow> starts_with (until_nul k) p \<longleftrightarrow> starts_with k p"
proof (induction p arbitrary: k)
  case (Cons a p)
  then show ?case by (cases k) (auto simp: until_nul_def starts_with_iff)
qed (simp add: starts_with_iff)

lemma sql_has_prefix_iff:
  assumes "utf8_text p" and "utf8_text k"
  shows "sql_has_prefix p k \<longleftrightarrow> CHR 0x00 \<notin> set p \<and> starts_with k p"
proof (cases "CHR 0x00 \<in> set p")
  case True
  let ?n = "sql_length p"
  have "set (take_chars ?n (until_nul k)) \<subseteq> set (concat (utf8_chunks (until_nul k)))"
    unfolding take_chars_def by (auto dest: in_set_takeD)
  moreover have "concat (utf8_chunks (until_nul k)) = until_nul k"
    using until_nul_text[OF assms(2)] by (simp add: plain_text_def utf8_text_def from_utf8_lossy_def)
  moreover have "CHR 0x00 \<notin> set (until_nul k)" using until_nul_text[OF assms(2)] by (simp add: plain_text_def)
  ultimately have "CHR 0x00 \<notin> set (take_chars ?n (until_nul k))" by auto
  with True show ?thesis unfolding sql_has_prefix_def by metis
next
  case False
  then have p: "plain_text p" using assms(1) by (simp add: plain_text_def)
  have "until_nul (until_nul k) = until_nul k" using until_nul_text[OF assms(2)] by (simp add: plain_text_def until_nul_plain)
  then have "sql_has_prefix p k \<longleftrightarrow> sql_has_prefix p (until_nul k)" by (simp add: sql_has_prefix_def)
  then show ?thesis using False sql_has_prefix_plain[OF p until_nul_text[OF assms(2)]] starts_until_nul[OF False] by simp
qed

section \<open>Pages\<close>

definition scan_entries :: "database \<Rightarrow> state_namespace \<Rightarrow> string \<Rightarrow> string option \<Rightarrow> state_entry list" where
  "scan_entries d ns prefix after =
     map (\<lambda>((n, k), v). \<lparr>entry_key = k, entry_value = v\<rparr>)
       (filter (\<lambda>((n, k), v). n = ns \<and> starts_with k prefix \<and> is_none_or (\<lambda>a. a < k) after) (component_state d))"

lemma sorted_keys:
  assumes "btree_wf m"
  shows "sorted_wrt (<) (map (\<lambda>((n, k), v). k) (filter (\<lambda>((n, k), v). n = (ns :: string) \<and> P k) m))"
  using assms unfolding btree_wf_def
proof (induction m)
  case (Cons x m)
  then show ?case by (cases x) (auto simp: less_prod_def')
qed simp

lemma sorted_entries:
  assumes "btree_wf (component_state d)"
  shows "sorted_wrt (<) (map entry_key (scan_entries d ns prefix after))"
proof -
  have "map entry_key (scan_entries d ns prefix after) = map (\<lambda>((n, k), v). k)
      (filter (\<lambda>((n, k), v). n = ns \<and> starts_with k prefix \<and> is_none_or (\<lambda>a. a < k) after) (component_state d))"
    by (auto simp: scan_entries_def)
  with sorted_keys[OF assms] show ?thesis by simp
qed

text \<open>Keeping what lies after the key of a sorted list's n-th entry drops the first n.\<close>

lemma scan_refines:
  assumes wf: "state_wf (db s)" and p: "plain_text prefix"
    and keys: "\<And>k. entries_of (db s) ns k \<noteq> None \<Longrightarrow> utf8_text k"
    and few: "int (length (component_state (db s))) < i64_max"
  shows "state_scan s ns prefix after limit = (let all = scan_entries (db s) ns prefix after in
    Inr \<lparr>page_entries = take (unat limit) all,
      next_key = (if 0 < unat limit \<and> unat limit < length all then Some (entry_key (all ! (unat limit - 1))) else None),
      page_revision = revision_of (db s) ns\<rparr>)"
proof -
  let ?all = "scan_entries (db s) ns prefix after"
  have bt: "btree_wf (component_state (db s))" using wf by (simp add: state_wf_def)
  let ?P = "\<lambda>k. starts_with k prefix \<and> is_none_or (\<lambda>a. a < k) after"
  have utf8: "utf8_text k" if "((ns, k), v) \<in> set (component_state (db s))" for k v
  proof (rule keys)
    have "(ns, k) \<in> fst ` set (component_state (db s))" using that by force
    then show "entries_of (db s) ns k \<noteq> None" unfolding entries_of_def by (simp add: map_of_eq_None_iff)
  qed
  have rows: "filter (\<lambda>((n, k), v). n = ns \<and> sql_has_prefix prefix k \<and> is_none_or (\<lambda>a. a < k) after) (component_state (db s)) =
      filter (\<lambda>((n, k), v). n = ns \<and> ?P k) (component_state (db s))"
    by (rule filter_cong[OF refl]) (use p sql_has_prefix_iff[OF _ utf8] in \<open>auto simp: plain_text_def\<close>)
  have sorted: "sort_key (\<lambda>((n, k), v). k) (filter (\<lambda>((n, k), v). n = ns \<and> ?P k) (component_state (db s))) =
      filter (\<lambda>((n, k), v). n = ns \<and> ?P k) (component_state (db s))"
    by (rule sort_key_id_if_sorted) (use sorted_keys[OF bt, of ns ?P] in \<open>simp add: strict_sorted_iff\<close>)
  have len: "length ?all \<le> length (component_state (db s))" by (simp add: scan_entries_def)
  define xs where "xs = filter (\<lambda>((n, k), v). n = ns \<and> ?P k) (component_state (db s))"
  have xs: "map (\<lambda>((n, k), v). \<lparr>entry_key = k, entry_value = v\<rparr>) xs = ?all" by (simp add: xs_def scan_entries_def)
  then have lxs: "length xs = length ?all" by (metis length_map)
  have lim: "sql_limit (saturating_add limit 1) xs = take (unat (saturating_add limit 1)) xs"
    by (rule sql_limit_small) (use few len lxs in simp)
  have u: "unat (saturating_add limit 1) = min (unat limit + 1) (2 ^ 64 - 1)" by (simp add: unat_saturating_add)
  have small: "length xs < 2 ^ 63" using few len lxs by simp
  let ?n = "unat limit" and ?m = "unat (saturating_add limit 1)"
  have entries: "map (\<lambda>((n, k), v). \<lparr>entry_key = k, entry_value = v\<rparr>) (sql_limit (saturating_add limit 1) xs) = take ?m ?all"
    unfolding lim take_map[symmetric] xs ..
  have t1: "take ?n (take ?m ?all) = take ?n ?all"
    using unat_u64_less[of limit] unfolding u by (simp add: min_def del: unat_u64_less)
  have t2: "?n < length (take ?m ?all) \<longleftrightarrow> ?n < length ?all"
    using small unat_u64_less[of limit] lxs unfolding u by (simp add: min_def del: unat_u64_less)
  have t3: "(if ?n < length ?all \<and> take ?n ?all \<noteq> [] then Some (entry_key (last (take ?n ?all))) else None) =
      (if 0 < ?n \<and> ?n < length ?all then Some (entry_key (?all ! (?n - 1))) else None)"
    by (cases "?n < length ?all"; cases "?n = 0") (auto simp: last_conv_nth)
  show ?thesis
    unfolding state_scan_def state_revision_wf[OF wf] rbind_simps rows xs_def[symmetric] sorted[folded xs_def] Let_def entries t1 t2 t3 ..
qed

lemma scan_entries_next:
  assumes bt: "btree_wf (component_state d)" and n: "0 < n" "n < length (scan_entries d ns prefix after)"
  shows "scan_entries d ns prefix (Some (entry_key (scan_entries d ns prefix after ! (n - 1)))) = drop n (scan_entries d ns prefix after)"
proof -
  let ?all = "scan_entries d ns prefix after" and ?k = "entry_key (scan_entries d ns prefix after ! (n - 1))"
  have mem: "?all ! (n - 1) \<in> set ?all" using n by simp
  then have low: "is_none_or (\<lambda>a. a < ?k) after" by (auto simp: scan_entries_def simp del: nth_mem)
  have "is_none_or (\<lambda>a. a < k) after" if "?k < k" for k using low that by (cases after) auto
  then have "filter (\<lambda>((x, k), v). x = ns \<and> starts_with k prefix \<and> is_none_or (\<lambda>a. a < k) (Some ?k)) (component_state d) =
      filter (\<lambda>((x, k), v). ?k < k) (filter (\<lambda>((x, k), v). x = ns \<and> starts_with k prefix \<and> is_none_or (\<lambda>a. a < k) after) (component_state d))"
    unfolding filter_filter by (intro filter_cong refl) auto
  then have "scan_entries d ns prefix (Some ?k) = filter (\<lambda>e. ?k < entry_key e) ?all"
    by (simp add: scan_entries_def filter_map comp_def case_prod_unfold)
  also have "\<dots> = drop n ?all" by (rule after_sorted[OF sorted_entries[OF bt]]) (use n in simp_all)
  finally show ?thesis .
qed

lemma scan_nul_prefix:
  assumes wf: "state_wf (db s)" and p: "utf8_text prefix" "CHR 0x00 \<in> set prefix"
    and keys: "\<And>k. entries_of (db s) ns k \<noteq> None \<Longrightarrow> utf8_text k"
  shows "state_scan s ns prefix after limit = Inr \<lparr>page_entries = [], next_key = None, page_revision = revision_of (db s) ns\<rparr>"
proof -
  have "filter (\<lambda>((n, k), v). n = ns \<and> sql_has_prefix prefix k \<and> is_none_or (\<lambda>a. a < k) after) (component_state (db s)) = []"
  proof (rule ccontr)
    assume "\<not> ?thesis"
    then obtain k v where kv: "((ns, k), v) \<in> set (component_state (db s))" "sql_has_prefix prefix k" by (auto simp: filter_empty_conv)
    from kv(1) have "(ns, k) \<in> fst ` set (component_state (db s))" by force
    then have "utf8_text k" by (intro keys) (simp add: entries_of_def map_of_eq_None_iff)
    with kv(2) p sql_has_prefix_iff show False by blast
  qed
  then show ?thesis unfolding state_scan_def state_revision_wf[OF wf] by (simp add: sql_limit_def Let_def split: option.splits)
qed


definition scan_store :: store where
  "scan_store = demo_store\<lparr>db := empty_database\<lparr>state_namespaces := [''ns'' \<mapsto> show_u64 1],
     component_state := [((''ns'', ''a''), ''1''), ((''ns'', ''b''), ''2'')]\<rparr>\<rparr>"


end
