(* ===== verification/Net.thy ===== *)
theory Net
  imports Prelude
begin

text \<open>
  The destination-address policy of \<open>pluribus-core\<close> (\<open>net.rs\<close>), which HTTP and TLS transports
  share: which addresses are on the public internet. The specification beside it is the list of
  reserved blocks as intervals of the 32-bit address, the form in which the registries publish them.
\<close>

unbundle bit_operations_syntax

record ipv4_addr =
  o1 :: u8
  o2 :: u8
  o3 :: u8
  o4 :: u8

record ipv6_addr =
  s0 :: u16
  s1 :: u16
  s2 :: u16
  s3 :: u16
  s4 :: u16
  s5 :: u16
  s6 :: u16
  s7 :: u16

datatype ip_addr = V4 ipv4_addr | V6 ipv6_addr

text \<open>The classification methods of \<open>std::net::Ipv4Addr\<close> and \<open>Ipv6Addr\<close> that the policy calls.\<close>

definition is_private_v4 :: "ipv4_addr \<Rightarrow> bool" where
  "is_private_v4 x \<longleftrightarrow> o1 x = 10 \<or> (o1 x = 172 \<and> 16 \<le> o2 x \<and> o2 x \<le> 31) \<or> (o1 x = 192 \<and> o2 x = 168)"

definition is_loopback_v4 :: "ipv4_addr \<Rightarrow> bool" where
  "is_loopback_v4 x \<longleftrightarrow> o1 x = 127"

definition is_link_local_v4 :: "ipv4_addr \<Rightarrow> bool" where
  "is_link_local_v4 x \<longleftrightarrow> o1 x = 169 \<and> o2 x = 254"

definition is_multicast_v4 :: "ipv4_addr \<Rightarrow> bool" where
  "is_multicast_v4 x \<longleftrightarrow> 224 \<le> o1 x \<and> o1 x \<le> 239"

definition is_unspecified_v4 :: "ipv4_addr \<Rightarrow> bool" where
  "is_unspecified_v4 x \<longleftrightarrow> o1 x = 0 \<and> o2 x = 0 \<and> o3 x = 0 \<and> o4 x = 0"

definition broadcast_v4 :: ipv4_addr where
  "broadcast_v4 = \<lparr>o1 = 255, o2 = 255, o3 = 255, o4 = 255\<rparr>"

definition to_ipv4_mapped :: "ipv6_addr \<Rightarrow> ipv4_addr option" where
  "to_ipv4_mapped x =
     (if s0 x = 0 \<and> s1 x = 0 \<and> s2 x = 0 \<and> s3 x = 0 \<and> s4 x = 0 \<and> s5 x = 0xffff
      then Some \<lparr>o1 = ucast (drop_bit 8 (s6 x)), o2 = ucast (s6 x),
                 o3 = ucast (drop_bit 8 (s7 x)), o4 = ucast (s7 x)\<rparr>
      else None)"

definition high_zero_v6 :: "ipv6_addr \<Rightarrow> bool" where
  "high_zero_v6 x \<longleftrightarrow> s0 x = 0 \<and> s1 x = 0 \<and> s2 x = 0 \<and> s3 x = 0 \<and> s4 x = 0 \<and> s5 x = 0 \<and> s6 x = 0"

definition is_loopback_v6 :: "ipv6_addr \<Rightarrow> bool" where
  "is_loopback_v6 x \<longleftrightarrow> high_zero_v6 x \<and> s7 x = 1"

definition is_unspecified_v6 :: "ipv6_addr \<Rightarrow> bool" where
  "is_unspecified_v6 x \<longleftrightarrow> high_zero_v6 x \<and> s7 x = 0"

definition is_multicast_v6 :: "ipv6_addr \<Rightarrow> bool" where
  "is_multicast_v6 x \<longleftrightarrow> s0 x AND 0xff00 = 0xff00"

section \<open>The policy\<close>

definition is_public_v4 :: "ipv4_addr \<Rightarrow> bool" where
  "is_public_v4 x =
     (let a = o1 x; b = o2 x; c = o3 x in
      \<not> (is_private_v4 x \<or> is_loopback_v4 x \<or> is_link_local_v4 x \<or> is_multicast_v4 x \<or>
         is_unspecified_v4 x \<or> x = broadcast_v4 \<or> a = 0 \<or> 240 \<le> a \<or>
         (a = 100 \<and> 64 \<le> b \<and> b \<le> 127) \<or> (a = 192 \<and> b = 0 \<and> c = 0) \<or>
         (a = 192 \<and> b = 0 \<and> c = 2) \<or> (a = 198 \<and> (b = 18 \<or> b = 19)) \<or>
         (a = 198 \<and> b = 51 \<and> c = 100) \<or> (a = 203 \<and> b = 0 \<and> c = 113)))"

definition is_public_v6 :: "ipv6_addr \<Rightarrow> bool" where
  "is_public_v6 x = (case to_ipv4_mapped x of
       Some mapped \<Rightarrow> is_public_v4 mapped
     | None \<Rightarrow> \<not> (is_loopback_v6 x \<or> is_unspecified_v6 x \<or> is_multicast_v6 x \<or>
                  s0 x AND 0xfe00 = 0xfc00 \<or> s0 x AND 0xffc0 = 0xfe80 \<or>
                  (s0 x = 0x2001 \<and> s1 x = 0x0db8)))"

definition is_public_address :: "ip_addr \<Rightarrow> bool" where
  "is_public_address x = (case x of V4 y \<Rightarrow> is_public_v4 y | V6 y \<Rightarrow> is_public_v6 y)"

section \<open>Reference: reserved blocks\<close>

definition v4_number :: "ipv4_addr \<Rightarrow> nat" where
  "v4_number x = ((unat (o1 x) * 256 + unat (o2 x)) * 256 + unat (o3 x)) * 256 + unat (o4 x)"

text \<open>A block \<open>a.b.c.0/n\<close>, as the interval of its addresses.\<close>

definition block :: "nat \<Rightarrow> nat \<Rightarrow> nat \<Rightarrow> nat \<Rightarrow> nat \<times> nat" where
  "block a b c n = (let base = ((a * 256 + b) * 256 + c) * 256 in (base, base + 2 ^ (32 - n) - 1))"

definition reserved_v4 :: "(nat \<times> nat) list" where
  "reserved_v4 =
     [block 0 0 0 8, block 10 0 0 8, block 100 64 0 10, block 127 0 0 8, block 169 254 0 16,
      block 172 16 0 12, block 192 0 0 24, block 192 0 2 24, block 192 168 0 16,
      block 198 18 0 15, block 198 51 100 24, block 203 0 113 24, block 224 0 0 4, block 240 0 0 4]"

definition in_block :: "nat \<Rightarrow> nat \<times> nat \<Rightarrow> bool" where
  "in_block n r \<longleftrightarrow> fst r \<le> n \<and> n \<le> snd r"

section \<open>Facts\<close>

lemma octet_less [simp]: "unat (w :: u8) < 256"
  using unsigned_less[of w] by simp

lemma octet_eq_iff: "(w :: u8) = numeral n \<longleftrightarrow> unat w = unat (numeral n :: u8)"
  by (rule word_unat_eq_iff)

lemma octet_zero_iff: "(w :: u8) = 0 \<longleftrightarrow> unat w = 0"
  by (simp add: unat_eq_zero)

lemma octet_ge_iff: "numeral n \<le> (w :: u8) \<longleftrightarrow> unat (numeral n :: u8) \<le> unat w"
  by (rule word_le_nat_alt)

lemma octet_le_iff: "(w :: u8) \<le> numeral n \<longleftrightarrow> unat w \<le> unat (numeral n :: u8)"
  by (rule word_le_nat_alt)

lemmas octet_nat = octet_eq_iff octet_zero_iff octet_ge_iff octet_le_iff

lemma unat_numeral_octets:
  "unat (10 :: u8) = 10" "unat (16 :: u8) = 16" "unat (18 :: u8) = 18" "unat (19 :: u8) = 19"
  "unat (31 :: u8) = 31" "unat (51 :: u8) = 51" "unat (64 :: u8) = 64" "unat (100 :: u8) = 100"
  "unat (113 :: u8) = 113" "unat (127 :: u8) = 127" "unat (168 :: u8) = 168" "unat (169 :: u8) = 169"
  "unat (172 :: u8) = 172" "unat (192 :: u8) = 192" "unat (198 :: u8) = 198" "unat (203 :: u8) = 203"
  "unat (224 :: u8) = 224" "unat (239 :: u8) = 239" "unat (240 :: u8) = 240" "unat (254 :: u8) = 254"
  "unat (2 :: u8) = 2"
  by simp_all

lemma broadcast_high: "x = broadcast_v4 \<Longrightarrow> 240 \<le> o1 x"
  by (simp add: broadcast_v4_def)

lemma is_public_v4_octets:
  "is_public_v4 x \<longleftrightarrow>
     (let a = unat (o1 x); b = unat (o2 x); c = unat (o3 x) in
      a \<noteq> 0 \<and> a \<noteq> 10 \<and> \<not> (a = 100 \<and> 64 \<le> b \<and> b \<le> 127) \<and> a \<noteq> 127 \<and> \<not> (a = 169 \<and> b = 254) \<and>
      \<not> (a = 172 \<and> 16 \<le> b \<and> b \<le> 31) \<and> \<not> (a = 192 \<and> b = 0 \<and> c = 0) \<and>
      \<not> (a = 192 \<and> b = 0 \<and> c = 2) \<and> \<not> (a = 192 \<and> b = 168) \<and> \<not> (a = 198 \<and> (b = 18 \<or> b = 19)) \<and>
      \<not> (a = 198 \<and> b = 51 \<and> c = 100) \<and> \<not> (a = 203 \<and> b = 0 \<and> c = 113) \<and> a < 224)"
proof -
  have high: "(\<not> (224 \<le> n \<and> n \<le> 239) \<and> \<not> 240 \<le> n) = (n < 224)" for n :: nat by arith
  have "is_public_v4 x \<longleftrightarrow>
     \<not> (is_private_v4 x \<or> is_loopback_v4 x \<or> is_link_local_v4 x) \<and>
     (\<not> is_multicast_v4 x \<and> \<not> 240 \<le> o1 x) \<and> \<not> o1 x = 0 \<and>
     \<not> ((o1 x = 100 \<and> 64 \<le> o2 x \<and> o2 x \<le> 127) \<or> (o1 x = 192 \<and> o2 x = 0 \<and> o3 x = 0) \<or>
        (o1 x = 192 \<and> o2 x = 0 \<and> o3 x = 2) \<or> (o1 x = 198 \<and> (o2 x = 18 \<or> o2 x = 19)) \<or>
        (o1 x = 198 \<and> o2 x = 51 \<and> o3 x = 100) \<or> (o1 x = 203 \<and> o2 x = 0 \<and> o3 x = 113))"
    using broadcast_high[of x] unfolding is_public_v4_def is_unspecified_v4_def Let_def by argo
  then show ?thesis
    unfolding is_private_v4_def is_loopback_v4_def is_link_local_v4_def is_multicast_v4_def
      octet_nat Let_def unat_numeral_octets high by argo
qed

lemma in_block_wide:
  fixes a b c d :: nat
  assumes "b < 256" "c < 256" "d < 256"
  shows "in_block (((a * 256 + b) * 256 + c) * 256 + d) (block p 0 0 8) \<longleftrightarrow> a = p"
    and "in_block (((a * 256 + b) * 256 + c) * 256 + d) (block p 0 0 4) \<longleftrightarrow> p \<le> a \<and> a < p + 16"
  using assms by (auto simp: in_block_def block_def Let_def)

lemma prefix_interval:
  fixes a b p q w :: nat
  assumes "b < 256" "0 < w" "q + w \<le> 256"
  shows "p * 256 + q \<le> a * 256 + b \<and> a * 256 + b < p * 256 + q + w \<longleftrightarrow> a = p \<and> q \<le> b \<and> b < q + w"
proof
  assume h: "p * 256 + q \<le> a * 256 + b \<and> a * 256 + b < p * 256 + q + w"
  with assms have "a = p" by linarith
  with h show "a = p \<and> q \<le> b \<and> b < q + w" by simp
qed auto

lemma in_block_second:
  fixes a b c d :: nat
  assumes b: "b < 256" and cd: "c < 256" "d < 256" and w: "0 < w" "q + w \<le> 256"
    and n: "2 ^ (32 - n) = w * 65536"
  shows "in_block (((a * 256 + b) * 256 + c) * 256 + d) (block p q 0 n) \<longleftrightarrow>
    a = p \<and> q \<le> b \<and> b < q + w"
proof -
  have "x * 65536 \<le> y * 65536 + (c * 256 + d) \<longleftrightarrow> x \<le> y"
    and "y * 65536 + (c * 256 + d) \<le> x * 65536 + w * 65536 - 1 \<longleftrightarrow> y < x + w" for x y :: nat
    using cd w(1) by linarith+
  from this(1)[of "p * 256 + q" "a * 256 + b"] this(2)[of "a * 256 + b" "p * 256 + q"]
  have "in_block (((a * 256 + b) * 256 + c) * 256 + d) (block p q 0 n) \<longleftrightarrow>
      p * 256 + q \<le> a * 256 + b \<and> a * 256 + b < p * 256 + q + w"
    by (simp add: in_block_def block_def Let_def n algebra_simps)
  then show ?thesis using prefix_interval[OF b w] by simp
qed

lemma digit_eq: "x * 256 + c = y * 256 + r \<longleftrightarrow> x = y \<and> c = r" if "c < 256" "r < 256" for x y c r :: nat
proof
  assume h: "x * 256 + c = y * 256 + r"
  with that have "x = y" by linarith
  with h show "x = y \<and> c = r" by simp
qed simp

lemma in_block_third:
  fixes a b c d :: nat
  assumes "b < 256" "c < 256" "d < 256" "q < 256" "r < 256"
  shows "in_block (((a * 256 + b) * 256 + c) * 256 + d) (block p q r 24) \<longleftrightarrow> a = p \<and> b = q \<and> c = r"
proof -
  have "in_block (x * 256 + d) (y * 256, y * 256 + 256 - 1) \<longleftrightarrow> x = y" for x y
    using assms(3) by (auto simp: in_block_def)
  from this[of "(a * 256 + b) * 256 + c" "(p * 256 + q) * 256 + r"]
  have "in_block (((a * 256 + b) * 256 + c) * 256 + d) (block p q r 24) \<longleftrightarrow>
      (a * 256 + b) * 256 + c = (p * 256 + q) * 256 + r"
    unfolding block_def Let_def by simp
  then show ?thesis using assms by (simp only: digit_eq) simp
qed

definition v4_mapped :: "ipv4_addr \<Rightarrow> ipv6_addr" where
  "v4_mapped y = \<lparr>s0 = 0, s1 = 0, s2 = 0, s3 = 0, s4 = 0, s5 = 0xffff,
     s6 = push_bit 8 (ucast (o1 y)) OR ucast (o2 y), s7 = push_bit 8 (ucast (o3 y)) OR ucast (o4 y)\<rparr>"

lemma octet_pair:
  "ucast (drop_bit 8 (push_bit 8 (ucast (a :: u8))) OR drop_bit 8 (ucast (b :: u8)) :: u16) = a"
  "ucast (push_bit 8 (ucast (a :: u8)) OR ucast (b :: u8) :: u16) = b"
  by (rule bit_word_eqI; auto simp: bit_simps dest: bit_imp_le_length)+

lemma to_ipv4_mapped_v4_mapped: "to_ipv4_mapped (v4_mapped y) = Some y"
  by (simp add: to_ipv4_mapped_def v4_mapped_def octet_pair)

text \<open>An IPv4 address counts as public exactly when its 32-bit number lies in none of the
  fourteen reserved blocks (this network, private, shared, loopback, link-local, protocol
  assignments, documentation, benchmarking, multicast, future use).\<close>

theorem is_public_v4_blocks:
  "is_public_v4 x \<longleftrightarrow> \<not> list_ex (in_block (v4_number x)) reserved_v4"
proof -
  have second:
    "\<And>p. in_block (v4_number x) (block p 0 0 8) \<longleftrightarrow> unat (o1 x) = p"
    "in_block (v4_number x) (block 100 64 0 10) \<longleftrightarrow> unat (o1 x) = 100 \<and> 64 \<le> unat (o2 x) \<and> unat (o2 x) < 64 + 64"
    "in_block (v4_number x) (block 172 16 0 12) \<longleftrightarrow> unat (o1 x) = 172 \<and> 16 \<le> unat (o2 x) \<and> unat (o2 x) < 16 + 16"
    "in_block (v4_number x) (block 198 18 0 15) \<longleftrightarrow> unat (o1 x) = 198 \<and> 18 \<le> unat (o2 x) \<and> unat (o2 x) < 18 + 2"
    "in_block (v4_number x) (block 169 254 0 16) \<longleftrightarrow> unat (o1 x) = 169 \<and> 254 \<le> unat (o2 x) \<and> unat (o2 x) < 254 + 1"
    "in_block (v4_number x) (block 192 168 0 16) \<longleftrightarrow> unat (o1 x) = 192 \<and> 168 \<le> unat (o2 x) \<and> unat (o2 x) < 168 + 1"
    "\<And>p. in_block (v4_number x) (block p 0 0 4) \<longleftrightarrow> p \<le> unat (o1 x) \<and> unat (o1 x) < p + 16"
    unfolding v4_number_def by (intro in_block_wide in_block_second; simp)+
  have third: "\<And>p q r. q < 256 \<Longrightarrow> r < 256 \<Longrightarrow> in_block (v4_number x) (block p q r 24) \<longleftrightarrow>
      unat (o1 x) = p \<and> unat (o2 x) = q \<and> unat (o3 x) = r"
    unfolding v4_number_def by (intro in_block_third; simp)
  have ranges: "n < 64 + 64 \<longleftrightarrow> n \<le> 127" "n < 16 + 16 \<longleftrightarrow> n \<le> 31"
    "18 \<le> n \<and> n < 18 + 2 \<longleftrightarrow> n = 18 \<or> n = 19" "254 \<le> n \<and> n < 254 + 1 \<longleftrightarrow> n = 254"
    "168 \<le> n \<and> n < 168 + 1 \<longleftrightarrow> n = 168" for n :: nat by auto
  have high: "\<not> (224 \<le> unat (o1 x) \<and> unat (o1 x) < 224 + 16) \<and>
      \<not> (240 \<le> unat (o1 x) \<and> unat (o1 x) < 240 + 16) \<longleftrightarrow> unat (o1 x) < 224"
    using octet_less[of "o1 x"] by linarith
  have third':
    "in_block (v4_number x) (block 192 0 0 24) \<longleftrightarrow> unat (o1 x) = 192 \<and> unat (o2 x) = 0 \<and> unat (o3 x) = 0"
    "in_block (v4_number x) (block 192 0 2 24) \<longleftrightarrow> unat (o1 x) = 192 \<and> unat (o2 x) = 0 \<and> unat (o3 x) = 2"
    "in_block (v4_number x) (block 198 51 100 24) \<longleftrightarrow> unat (o1 x) = 198 \<and> unat (o2 x) = 51 \<and> unat (o3 x) = 100"
    "in_block (v4_number x) (block 203 0 113 24) \<longleftrightarrow> unat (o1 x) = 203 \<and> unat (o2 x) = 0 \<and> unat (o3 x) = 113"
    by (rule third; simp)+
  show ?thesis
    by (simp only: is_public_v4_octets Let_def reserved_v4_def list_ex_iff list.set bex_simps second third'
        ranges high[symmetric] simp_thms de_Morgan_disj)
qed

end
