(* ===== verification/Manifest.thy ===== *)
theory Manifest
  imports Json
begin

text \<open>
  The manifest of a plugin package (\<open>manifest.rs\<close> of \<open>pluribus-plugin-package\<close>) and the overlay of an
  operator's configuration on the package's defaults. Parsing the file and checking the JSON schemas is the business
  of third-party packages; the loader is in the theory \<open>Packages\<close>.
\<close>

datatype idempotency = Inherent | Keyed | NonIdempotent

record constraint_part =
  part_pointer :: string
  part_prefix :: string
  part_optional :: bool

record constraint_binding =
  binding_parts :: "constraint_part list"
  binding_required :: bool

record provided_capability =
  pc_capability :: string
  pc_description :: string
  arguments_schema :: string
  result_schema :: string
  constraints_schema :: "string option"
  pc_idempotency :: idempotency
  constraint_bindings :: "(string, constraint_binding) btree"

record model_provider =
  models_pointer :: string

record credential_declaration =
  cd_access :: bool
  cd_components :: "string list"
  cd_id :: string
  cd_display_name :: string
  cd_description :: string
  input_schema :: string
  flow_schema :: string
  flow :: string

record requested_capability =
  rc_name :: string
  rc_required :: bool
  rc_reason :: string
  rc_constraints :: json

record catalog_injection =
  tools_pointer :: string
  components_pointer :: string

record connector_declaration =
  cn_provider :: string
  cn_inherits_origin :: bool
  reply_component :: "string option"

record component_manifest =
  world :: string
  component_path :: string
  component_digest :: string
  imported_interfaces :: "string list"
  cm_config_schema :: string
  provides :: "provided_capability list"
  cm_model_provider :: "model_provider option"
  subscribes :: "string list"
  emits :: "string list"
  rebuilds :: "string list"
  pinned_session :: bool
  requires :: "string list"
  requested_capabilities :: "requested_capability list"
  cm_catalog_injection :: "catalog_injection option"
  cm_connector :: "connector_declaration option"

record manifest =
  manifest_version :: u32
  abi :: string
  manifest_id :: string
  manifest_name :: string
  config_schema :: string
  license :: "string option"
  credentials :: "credential_declaration list"
  components :: "(string, component_manifest) btree"
  the_component :: "component_manifest option"
  config_defaults :: json

definition subscribes_to_stream :: "component_manifest \<Rightarrow> bool" where
  "subscribes_to_stream m = list_ex (\<lambda>pattern. pattern = ''*'') (subscribes m)"

definition normalize :: "manifest \<Rightarrow> manifest" where
  "normalize m =
     (let m = (case the_component m of None \<Rightarrow> m | Some c \<Rightarrow> m\<lparr>components := btree_insert [] c (components m)\<rparr>)
      in if length (components m) = 1
         then m\<lparr>credentials := map (\<lambda>c. if cd_components c = [] then c\<lparr>cd_components := map fst (components m)\<rparr> else c)
                  (credentials m)\<rparr>
         else m)"

definition component_id :: "string \<Rightarrow> string \<Rightarrow> string" where
  "component_id i c = (if c = [] then i else i @ ''/'' @ c)"

text \<open>The overlay: members of the patch go over those of the base in the order of their keys.\<close>

function merge_config :: "json \<Rightarrow> json \<Rightarrow> json" and merge_members :: "(string, json) btree \<Rightarrow> (string, json) btree \<Rightarrow> (string, json) btree"
where
  "merge_config base over = (case (base, over) of
       (JObject b, JObject p) \<Rightarrow> JObject (merge_members b p)
     | _ \<Rightarrow> over)"
| "merge_members b [] = b"
| "merge_members b ((k, v) # p) =
     merge_members (btree_insert k (case btree_get b k of Some e \<Rightarrow> merge_config e v | None \<Rightarrow> v) b) p"
  by pat_completeness auto
termination
  by (relation "measure (case_sum (\<lambda>(b, v). 2 * size v) (\<lambda>(b, p). 2 * size_list (size_prod (\<lambda>_. 0) size) p + 1))") auto

declare merge_config.simps [simp del]

section \<open>Facts\<close>

lemma merge_config_object [simp]: "merge_config (JObject b) (JObject p) = JObject (merge_members b p)"
  by (simp add: merge_config.simps)

lemma merge_config_other: "as_object base = None \<or> as_object over = None \<Longrightarrow> merge_config base over = over"
  by (cases base; cases over) (simp_all add: merge_config.simps as_object_def)

lemma merge_members_wf [simp]: "btree_wf b \<Longrightarrow> btree_wf (merge_members b p)"
  by (induction p arbitrary: b) auto

text \<open>What a merged object holds under a key.\<close>

definition merge_option :: "json option \<Rightarrow> json option \<Rightarrow> json option" where
  "merge_option b p = (case p of None \<Rightarrow> b | Some v \<Rightarrow> Some (case b of None \<Rightarrow> v | Some e \<Rightarrow> merge_config e v))"

lemma merge_members_get:
  "\<lbrakk>btree_wf b; distinct (map fst p)\<rbrakk> \<Longrightarrow> btree_get (merge_members b p) k = merge_option (btree_get b k) (btree_get p k)"
proof (induction p arbitrary: b)
  case (Cons x p)
  obtain j v where x: "x = (j, v)" by fastforce
  have "map_of p j = None" using Cons.prems x by (simp add: map_of_eq_None_iff)
  with Cons x show ?case by (auto simp: merge_option_def split: option.splits)
qed (simp add: merge_option_def)

primrec json_wf :: "json \<Rightarrow> bool" where
  "json_wf JNull = True"
| "json_wf (JBool b) = True"
| "json_wf (JNumber n) = True"
| "json_wf (JString s) = True"
| "json_wf (JArray xs) = list_all id (map json_wf xs)"
| "json_wf (JObject m) = (btree_wf m \<and> list_all snd (map (map_prod id json_wf) m))"

lemma json_wf_object: "json_wf (JObject m) \<longleftrightarrow> btree_wf m \<and> (\<forall>(k, v) \<in> set m. json_wf v)"
  by (auto simp: list_all_iff)

declare json_wf.simps(6) [simp del]

text \<open>Merging the same overrides twice changes nothing more.\<close>

lemma merge_config_idem: "json_wf over \<Longrightarrow> merge_config over over = over"
proof (induction over)
  case (JObject m)
  then have wf: "btree_wf m" "distinct (map fst m)" by (simp_all add: json_wf_object btree_wf_distinct)
  have "merge_option (btree_get m k) (btree_get m k) = btree_get m k" for k
  proof (cases "btree_get m k")
    case (Some v)
    then have v: "(k, v) \<in> set m" by (rule map_of_SomeD)
    then have "json_wf v" using JObject.prems by (auto simp: json_wf_object)
    with v JObject.IH[of "(k, v)" v] have "merge_config v v = v" by (simp add: prod_set_simps)
    with Some show ?thesis by (simp add: merge_option_def)
  qed (simp add: merge_option_def)
  with wf have "merge_members m m = m" by (intro btree_ext ext) (simp_all add: merge_members_get)
  then show ?case by simp
qed (simp_all add: merge_config_other as_object_def)

lemma merge_config_absorb: "json_wf base \<Longrightarrow> json_wf over \<Longrightarrow> merge_config (merge_config base over) over = merge_config base over"
proof (induction over arbitrary: base)
  case (JObject m)
  show ?case
  proof (cases "as_object base")
    case None
    with JObject.prems show ?thesis by (simp add: merge_config_other merge_config_idem del: merge_config_object)
  next
    case (Some b)
    then have base: "base = JObject b" by (cases base) (simp_all add: as_object_def)
    with JObject.prems have wf: "btree_wf b" "btree_wf m" "distinct (map fst m)" by (simp_all add: json_wf_object btree_wf_distinct)
    have "merge_option (merge_option (btree_get b k) (btree_get m k)) (btree_get m k) = merge_option (btree_get b k) (btree_get m k)" for k
    proof (cases "btree_get m k")
      case (Some v)
      then have v: "(k, v) \<in> set m" by (rule map_of_SomeD)
      then have wv: "json_wf v" using JObject.prems by (auto simp: json_wf_object)
      show ?thesis
      proof (cases "btree_get b k")
        case None
        with Some wv show ?thesis by (simp add: merge_option_def merge_config_idem)
      next
        case (Some e)
        then have "json_wf e" using map_of_SomeD[OF Some] JObject.prems base by (auto simp: json_wf_object)
        with v wv JObject.IH[of "(k, v)" v e] have "merge_config (merge_config e v) v = merge_config e v" by (simp add: prod_set_simps)
        with Some \<open>btree_get m k = Some v\<close> show ?thesis by (simp add: merge_option_def)
      qed
    qed (simp add: merge_option_def)
    with wf have "merge_members (merge_members b m) m = merge_members b m"
      by (intro btree_ext ext) (simp_all add: merge_members_get)
    with base show ?thesis by simp
  qed
qed (simp_all add: merge_config_other as_object_def)

end
