(* ===== verification/Packages.thy ===== *)
theory Packages
  imports Manifest Blobs
begin

text \<open>
  Loading a plugin package (\<open>lib.rs\<close>, \<open>path.rs\<close> and \<open>component.rs\<close> of \<open>pluribus-plugin-package\<close>): safe reading below the
  package root, the references inside a manifest, the digest and the interfaces of each component. What third-party
  packages do is in the record \<open>toolchain\<close>: reading TOML, compiling a JSON schema, decoding WebAssembly. The text of an
  operating-system error and of a \<open>Debug\<close> print is there too. A directory is a tree that
  does not change while it is read.
\<close>

section \<open>Paths and files\<close>

type_synonym package_error = string

datatype node = FileNode bytes | DirNode "(string \<times> node) list" | SymlinkNode string

datatype path_component = RootDir | CurDir | ParentDir | Normal string

fun split_on :: "char \<Rightarrow> string \<Rightarrow> string list" where
  "split_on c [] = [[]]"
| "split_on c (x # xs) = (if x = c then [] # split_on c xs
     else case split_on c xs of [] \<Rightarrow> [[x]] | s # ss \<Rightarrow> (x # s) # ss)"

text \<open>\<open>Path::components\<close>: empty segments vanish, and so does a dot that is not the first segment.\<close>

definition path_component_of :: "string \<Rightarrow> path_component list" where
  "path_component_of s = (if s = [] \<or> s = ''.'' then [] else if s = ''..'' then [ParentDir] else [Normal s])"

definition path_components :: "string \<Rightarrow> path_component list" where
  "path_components p = (case split_on CHR ''/'' p of
       [] \<Rightarrow> []
     | s # ss \<Rightarrow> (if s = [] then (if p = [] then [] else [RootDir]) else if s = ''.'' then [CurDir] else path_component_of s) @
         concat (map path_component_of ss))"

definition is_absolute :: "string \<Rightarrow> bool" where
  "is_absolute p = starts_with p ''/''"

definition unsafe_path :: "string \<Rightarrow> package_error" where
  "unsafe_path p = ''unsafe package path: '' @ p"

definition validate_relative_path :: "string \<Rightarrow> package_error + unit" where
  "validate_relative_path p =
     (if p = [] \<or> is_absolute p \<or> list_ex (\<lambda>c. case c of Normal _ \<Rightarrow> False | _ \<Rightarrow> True) (path_components p)
      then Inl (unsafe_path p) else Inr ())"

text \<open>\<open>lstat\<close> on a path below the root; a missing entry and a file in the place of a directory are errors.\<close>

fun lstat :: "node \<Rightarrow> string list \<Rightarrow> node option" where
  "lstat n [] = Some n"
| "lstat n (s # ss) = (case n of DirNode es \<Rightarrow> Option.bind (map_of es s) (\<lambda>m. lstat m ss) | _ \<Rightarrow> None)"

record toolchain =
  io_text :: "string list \<Rightarrow> string"
  utf8_error :: "bytes \<Rightarrow> string"
  debug_list :: "string list \<Rightarrow> string"
  toml_json :: "string \<Rightarrow> string + (string + json)"
  toml_manifest :: "string \<Rightarrow> string + manifest"
  builtin_schema :: "string + (json \<Rightarrow> string + unit)"
  compile_schema :: "json \<Rightarrow> string + (json \<Rightarrow> string + unit)"

definition validate_package_root :: "toolchain \<Rightarrow> node option \<Rightarrow> package_error + node" where
  "validate_package_root tc root = (case root of
       None \<Rightarrow> Inl (''cannot inspect package root: '' @ io_text tc [])
     | Some (DirNode es) \<Rightarrow> Inr (DirNode es)
     | Some _ \<Rightarrow> Inl ''package root must be a directory, not a symlink'')"

definition too_large :: "string \<Rightarrow> u64 \<Rightarrow> package_error" where
  "too_large p n = ''package file exceeds '' @ show_u64 n @ '' bytes: '' @ p"

definition read_bounded :: "bytes \<Rightarrow> string \<Rightarrow> u64 \<Rightarrow> package_error + bytes" where
  "read_bounded bs p n = (if unat n < length bs then Inl (too_large p n) else Inr bs)"

text \<open>The loop that descends one segment at a time and refuses symbolic links.\<close>

fun descend :: "toolchain \<Rightarrow> node \<Rightarrow> string \<Rightarrow> string list \<Rightarrow> path_component list \<Rightarrow> package_error + string list" where
  "descend tc root p cur [] = Inr cur"
| "descend tc root p cur (c # cs) = (case c of
       Normal s \<Rightarrow>
         (case lstat root (cur @ [s]) of
            None \<Rightarrow> Inl (''cannot inspect '' @ p @ '': '' @ io_text tc (cur @ [s]))
          | Some (SymlinkNode _) \<Rightarrow> Inl (''package path contains a symlink: '' @ p)
          | Some _ \<Rightarrow> descend tc root p (cur @ [s]) cs)
     | _ \<Rightarrow> Inl (unsafe_path p))"

definition read_package_file :: "toolchain \<Rightarrow> node \<Rightarrow> string \<Rightarrow> u64 \<Rightarrow> package_error + bytes" where
  "read_package_file tc root p n =
     rbind (validate_relative_path p) (\<lambda>_.
     rbind (descend tc root p [] (path_components p)) (\<lambda>cur.
       case lstat root cur of
         None \<Rightarrow> Inl (''cannot inspect '' @ p @ '': '' @ io_text tc cur)
       | Some (FileNode bs) \<Rightarrow>
           if unat n < length bs then Inl (too_large p n) else read_bounded (take (unat n + 1) bs) p n
       | Some _ \<Rightarrow> Inl (''package path is not a regular file: '' @ p)))"

section \<open>References inside a manifest\<close>

text \<open>The depth-first search for a cycle. The set of active names is restored before a successful return, so it is
  passed down; a name that is no component cannot be indexed.\<close>

lemma rbind_cong [fundef_cong]:
  "\<lbrakk>m = m'; \<And>x. m' = Inr x \<Longrightarrow> f x = f' x\<rbrakk> \<Longrightarrow> rbind m f = rbind m' f'"
  by (cases m') auto

function visit :: "(string, component_manifest) btree \<Rightarrow> string list \<Rightarrow> string \<Rightarrow> string list \<Rightarrow> package_error + string list"
  and visit_all :: "(string, component_manifest) btree \<Rightarrow> string list \<Rightarrow> string list \<Rightarrow> string list \<Rightarrow> package_error + string list"
where
  "visit cs active name finished =
     (if name \<in> set finished then Inr finished
      else if name \<in> set active then Inl ''cyclic component requirements''
      else case btree_get cs name of
          None \<Rightarrow> Inl ''no entry found for key''
        | Some c \<Rightarrow> rbind (visit_all cs (name # active) (requires c) finished) (\<lambda>finished. Inr (name # finished)))"
| "visit_all cs active [] finished = Inr finished"
| "visit_all cs active (d # ds) finished =
     rbind (visit cs active d finished) (\<lambda>finished. visit_all cs active ds finished)"
  by pat_completeness auto
termination
proof (relation "measures [case_sum (\<lambda>(cs, active, n, f). card (fst ` set cs - set active))
      (\<lambda>(cs, active, ds, f). card (fst ` set cs - set active)), case_sum (\<lambda>(cs, active, n, f). 0) (\<lambda>(cs, active, ds, f). Suc (length ds))]")
  fix cs :: "(string, component_manifest) btree" and active name finished c
  assume "name \<notin> set active" and "btree_get cs name = Some c"
  then have "name \<in> fst ` set cs - set active" by (force dest: map_of_SomeD)
  then have "card (fst ` set cs - set (name # active)) < card (fst ` set cs - set active)"
    by (intro psubset_card_mono) auto
  then show "(Inr (cs, name # active, requires c, finished), Inl (cs, active, name, finished))
    \<in> measures [case_sum (\<lambda>(cs, active, n, f). card (fst ` set cs - set active))
      (\<lambda>(cs, active, ds, f). card (fst ` set cs - set active)), case_sum (\<lambda>(cs, active, n, f). 0) (\<lambda>(cs, active, ds, f). Suc (length ds))]"
    by simp
qed simp_all

declare visit.simps [simp del]

definition invalid_requirement :: "string \<Rightarrow> string \<Rightarrow> package_error" where
  "invalid_requirement n r = ''invalid component requirement '' @ n @ '': '' @ r"

primrec claim_capabilities :: "provided_capability list \<Rightarrow> string list \<Rightarrow> package_error + string list" where
  "claim_capabilities [] seen = Inr seen"
| "claim_capabilities (p # ps) seen =
     (if pc_capability p \<in> set seen then Inl (''duplicate capability provider: '' @ pc_capability p)
      else claim_capabilities ps (pc_capability p # seen))"

primrec check_components ::
  "(string, component_manifest) btree \<Rightarrow> (string \<times> component_manifest) list \<Rightarrow> string list \<Rightarrow> string list \<Rightarrow> package_error + unit" where
  "check_components cs [] paths caps = Inr ()"
| "check_components cs (nc # rest) paths caps =
     (let (name, c) = nc in
      if component_path c \<in> set paths then Inl ''duplicate component path''
      else rbind (for_each (\<lambda>r. if r = name \<or> btree_get cs r = None then Inl (invalid_requirement name r) else Inr ()) (requires c)) (\<lambda>_.
           rbind (claim_capabilities (provides c) caps) (\<lambda>caps.
             check_components cs rest (component_path c # paths) caps)))"

primrec visit_roots :: "(string, component_manifest) btree \<Rightarrow> string list \<Rightarrow> string list \<Rightarrow> package_error + string list" where
  "visit_roots cs [] finished = Inr finished"
| "visit_roots cs (n # ns) finished = rbind (visit cs [] n finished) (\<lambda>finished. visit_roots cs ns finished)"

primrec check_credentials ::
  "(string, component_manifest) btree \<Rightarrow> credential_declaration list \<Rightarrow> string list \<Rightarrow> package_error + unit" where
  "check_credentials cs [] ids = Inr ()"
| "check_credentials cs (c # rest) ids =
     (if cd_id c \<in> set ids then Inl ''duplicate credential declaration''
      else if cd_components c = [] then Inl ''multi-component credentials require consumers''
      else rbind (for_each (\<lambda>n. if btree_get cs n = None then Inl (''unknown credential component: '' @ n) else Inr ())
                    (cd_components c)) (\<lambda>_.
        check_credentials cs rest (cd_id c # ids)))"

definition validate_references :: "manifest \<Rightarrow> package_error + unit" where
  "validate_references m =
     rbind (check_components (components m) (components m) [] []) (\<lambda>_.
     rbind (visit_roots (components m) (map fst (components m)) []) (\<lambda>_.
       check_credentials (components m) (credentials m) []))"

section \<open>Components\<close>

text \<open>What decoding WebAssembly yields, as far as it is looked at: the items of a component's world. An interface
  has an identifier unless it is anonymous, and functions unless it only carries types.\<close>

datatype world_item = Interface "string option" bool | WorldFunction | WorldType

datatype decoded_wasm = WitPackage | WasmComponent "world_item list" "world_item list"

definition abi_package :: string where
  "abi_package = ''pluribus:plugin@3.0.0''"

definition lifecycle_export :: string where
  "lifecycle_export = ''pluribus:plugin/lifecycle@3.0.0''"

primrec interface_ids :: "world_item list \<Rightarrow> string \<Rightarrow> bool \<Rightarrow> package_error + string set" where
  "interface_ids [] direction ignore_type_only = Inr {}"
| "interface_ids (i # is) direction ignore_type_only = (case i of
       Interface j functions \<Rightarrow>
         if ignore_type_only \<and> \<not> functions then interface_ids is direction ignore_type_only
         else (case j of
             None \<Rightarrow> Inl (''anonymous component interface '' @ direction)
           | Some j \<Rightarrow> rbind (interface_ids is direction ignore_type_only) (\<lambda>ids. Inr (insert j ids)))
     | _ \<Rightarrow> Inl (''top-level component '' @ direction @ '' is not allowed''))"

text \<open>A \<open>BTreeSet\<close> prints its elements in order.\<close>

definition set_mismatch :: "toolchain \<Rightarrow> string \<Rightarrow> string set \<Rightarrow> string set \<Rightarrow> package_error" where
  "set_mismatch tc label expected actual =
     ''component '' @ label @ '' mismatch: missing '' @ debug_list tc (sorted_list_of_set (expected - actual)) @
     '', unexpected '' @ debug_list tc (sorted_list_of_set (actual - expected))"

definition validate_component ::
  "toolchain \<Rightarrow> (bytes \<Rightarrow> string + decoded_wasm) \<Rightarrow> string \<Rightarrow> component_manifest \<Rightarrow> bytes \<Rightarrow> package_error + unit" where
  "validate_component tc decode a c bs =
     rbind (map_err (\<lambda>e. ''invalid WebAssembly component: '' @ e) (decode bs)) (\<lambda>d.
       case d of
         WitPackage \<Rightarrow> Inl ''plugin.wasm encodes a WIT package, not a component''
       | WasmComponent imports exports \<Rightarrow>
         if a \<noteq> abi_package \<or> world c \<noteq> ''pluribus:plugin/plugin@3.0.0''
         then Inl (''unsupported plugin ABI/world: '' @ a @ ''/'' @ world c)
         else
           rbind (interface_ids imports ''import'' True) (\<lambda>actual.
             if actual \<noteq> set (imported_interfaces c) then Inl (set_mismatch tc ''imports'' (set (imported_interfaces c)) actual)
             else rbind (interface_ids exports ''export'' False) (\<lambda>actual.
               if actual \<noteq> {lifecycle_export} then Inl (set_mismatch tc ''exports'' {lifecycle_export} actual)
               else Inr ())))"

definition package_sha256 :: "(bytes \<Rightarrow> bytes) \<Rightarrow> bytes \<Rightarrow> string" where
  "package_sha256 sha bs = ''sha256:'' @ sha256_hex sha bs"

definition verify_digest :: "(bytes \<Rightarrow> bytes) \<Rightarrow> string \<Rightarrow> bytes \<Rightarrow> package_error + unit" where
  "verify_digest sha expected bs =
     (if expected = ''sha256:dev'' then Inl ''development component digest cannot be activated''
      else let actual = package_sha256 sha bs in
        if expected = actual then Inr ()
        else Inl (''component digest mismatch: expected '' @ expected @ '', got '' @ actual))"

section \<open>The loader\<close>

type_synonym validator = "json \<Rightarrow> string + unit"

record plugin_component =
  pc_name :: string
  pc_manifest :: component_manifest
  pc_bytes :: bytes
  pc_validator :: validator

record plugin_package =
  pp_manifest :: manifest
  pp_components :: "(string, plugin_component) btree"
  pp_validator :: validator

definition max_manifest_bytes :: u64 where "max_manifest_bytes = 1024 * 1024"
definition max_config_schema_bytes :: u64 where "max_config_schema_bytes = 1024 * 1024"
definition max_component_bytes :: u64 where "max_component_bytes = 64 * 1024 * 1024"

definition load_schema :: "toolchain \<Rightarrow> serde \<Rightarrow> node \<Rightarrow> string \<Rightarrow> package_error + validator" where
  "load_schema tc sd root p =
     rbind (read_package_file tc root p max_config_schema_bytes) (\<lambda>bs.
     rbind (map_err (\<lambda>e. ''invalid schema '' @ p @ '': '' @ e) (from_slice sd bs)) (\<lambda>v.
       map_err (\<lambda>e. ''invalid schema '' @ p @ '': '' @ e) (compile_schema tc v)))"

definition load_capability :: "toolchain \<Rightarrow> serde \<Rightarrow> node \<Rightarrow> provided_capability \<Rightarrow> package_error + unit" where
  "load_capability tc sd root p =
     rbind (load_schema tc sd root (arguments_schema p)) (\<lambda>_.
     rbind (load_schema tc sd root (result_schema p)) (\<lambda>_.
       case constraints_schema p of
         None \<Rightarrow> Inr ()
       | Some path \<Rightarrow> rbind (load_schema tc sd root path) (\<lambda>_. Inr ())))"

definition load_component ::
  "toolchain \<Rightarrow> serde \<Rightarrow> (bytes \<Rightarrow> bytes) \<Rightarrow> (bytes \<Rightarrow> string + decoded_wasm) \<Rightarrow> node \<Rightarrow> string \<Rightarrow> string \<times> component_manifest \<Rightarrow>
   package_error + string \<times> plugin_component" where
  "load_component tc sd sha decode root a nc =
     (let (name, c) = nc in
      rbind (read_package_file tc root (component_path c) max_component_bytes) (\<lambda>bs.
      rbind (verify_digest sha (component_digest c) bs) (\<lambda>_.
      rbind (validate_component tc decode a c bs) (\<lambda>_.
      rbind (load_schema tc sd root (cm_config_schema c)) (\<lambda>v.
      rbind (for_each (load_capability tc sd root) (provides c)) (\<lambda>_.
        Inr (name, \<lparr>pc_name = name, pc_manifest = c, pc_bytes = bs, pc_validator = v\<rparr>)))))))"

definition load_credential :: "toolchain \<Rightarrow> serde \<Rightarrow> node \<Rightarrow> credential_declaration \<Rightarrow> package_error + unit" where
  "load_credential tc sd root c =
     rbind (load_schema tc sd root (input_schema c)) (\<lambda>_.
     rbind (read_package_file tc root (flow c) max_config_schema_bytes) (\<lambda>bs.
     rbind (map_err (\<lambda>e. ''invalid credential flow: '' @ e) (from_slice sd bs)) (\<lambda>_. Inr ())))"

definition is_utf8 :: "bytes \<Rightarrow> bool" where
  "is_utf8 bs \<longleftrightarrow> from_utf8_lossy bs = bs"

definition validate_manifest_schema :: "toolchain \<Rightarrow> json \<Rightarrow> package_error + unit" where
  "validate_manifest_schema tc v =
     rbind (map_err (\<lambda>e. ''invalid built-in manifest schema: '' @ e) (builtin_schema tc)) (\<lambda>check.
       map_err (\<lambda>e. ''invalid plugin manifest: '' @ e) (check v))"

definition load_manifest :: "toolchain \<Rightarrow> node \<Rightarrow> package_error + manifest" where
  "load_manifest tc root =
     rbind (read_package_file tc root ''plugin.toml'' max_manifest_bytes) (\<lambda>bs.
       if \<not> is_utf8 bs then Inl (''plugin.toml is not UTF-8: '' @ utf8_error tc bs)
       else
         rbind (map_err (\<lambda>e. ''invalid plugin.toml: '' @ e) (toml_json tc bs)) (\<lambda>converted.
         rbind (map_err (\<lambda>e. ''cannot normalize plugin.toml: '' @ e) converted) (\<lambda>v.
         rbind (validate_manifest_schema tc v) (\<lambda>_.
         rbind (map_err (\<lambda>e. ''invalid plugin.toml: '' @ e) (toml_manifest tc bs)) (\<lambda>m.
           Inr (normalize m))))))"

definition load_package ::
  "toolchain \<Rightarrow> serde \<Rightarrow> (bytes \<Rightarrow> bytes) \<Rightarrow> (bytes \<Rightarrow> string + decoded_wasm) \<Rightarrow> node option \<Rightarrow> package_error + plugin_package" where
  "load_package tc sd sha decode at =
     rbind (validate_package_root tc at) (\<lambda>root.
       rbind (load_manifest tc root) (\<lambda>m.
       rbind (validate_references m) (\<lambda>_.
       rbind (load_schema tc sd root (config_schema m)) (\<lambda>v.
       rbind (collect_results (map (load_component tc sd sha decode root (abi m)) (components m))) (\<lambda>cs.
       rbind (for_each (load_credential tc sd root) (credentials m)) (\<lambda>_.
         Inr \<lparr>pp_manifest = m, pp_components = cs, pp_validator = v\<rparr>))))))"

definition resolve_config :: "plugin_package \<Rightarrow> json \<Rightarrow> json" where
  "resolve_config p over = merge_config (config_defaults (pp_manifest p)) over"

definition validate_component_config :: "plugin_component \<Rightarrow> json \<Rightarrow> package_error + unit" where
  "validate_component_config c config =
     map_err (\<lambda>e. ''invalid component '' @ pc_name c @ '' configuration: '' @ e) (pc_validator c config)"

definition validate_config :: "plugin_package \<Rightarrow> json \<Rightarrow> package_error + unit" where
  "validate_config p config =
     rbind (map_err (\<lambda>e. ''invalid plugin configuration: '' @ e) (pp_validator p config)) (\<lambda>_.
       for_each (\<lambda>nc. validate_component_config (snd nc) config) (pp_components p))"

section \<open>Reading is confined\<close>

definition link_free :: "node \<Rightarrow> string list \<Rightarrow> bool" where
  "link_free root ss \<longleftrightarrow> (\<forall>i. i < length ss \<longrightarrow> (\<forall>t. lstat root (take (Suc i) ss) \<noteq> Some (SymlinkNode t)))"

definition plain_segment :: "string \<Rightarrow> bool" where
  "plain_segment s \<longleftrightarrow> s \<noteq> [] \<and> s \<noteq> ''.'' \<and> s \<noteq> ''..'' \<and> CHR ''/'' \<notin> set s"

lemma lstat_append: "lstat n (ss @ ts) = Option.bind (lstat n ss) (\<lambda>m. lstat m ts)"
  by (induction n ss rule: lstat.induct) (auto split: node.splits Option.bind_splits)

lemma lstat_prefix: "lstat n (ss @ ts) \<noteq> None \<Longrightarrow> lstat n ss \<noteq> None"
  by (cases "lstat n ss") (simp_all add: lstat_append)

lemma descend_Inr:
  "descend tc root p cur cs = Inr cur' \<longleftrightarrow> (\<exists>ss. cs = map Normal ss \<and> cur' = cur @ ss \<and>
     (\<forall>i < length ss. \<exists>n. lstat root (cur @ take (Suc i) ss) = Some n \<and> (\<forall>t. n \<noteq> SymlinkNode t)))"
proof (induction cs arbitrary: cur)
  case (Cons c cs)
  have split: "(\<forall>i < length (s # ss). \<exists>n. lstat root (cur @ take (Suc i) (s # ss)) = Some n \<and> (\<forall>t. n \<noteq> SymlinkNode t)) \<longleftrightarrow>
      (\<exists>n. lstat root (cur @ [s]) = Some n \<and> (\<forall>t. n \<noteq> SymlinkNode t)) \<and>
      (\<forall>i < length ss. \<exists>n. lstat root ((cur @ [s]) @ take (Suc i) ss) = Some n \<and> (\<forall>t. n \<noteq> SymlinkNode t))" for s ss
    unfolding length_Cons All_less_Suc2 by simp
  show ?case
  proof (cases c)
    case (Normal s)
    have "descend tc root p cur (c # cs) = Inr cur' \<longleftrightarrow>
      (\<exists>n. lstat root (cur @ [s]) = Some n \<and> (\<forall>t. n \<noteq> SymlinkNode t) \<and> descend tc root p (cur @ [s]) cs = Inr cur')"
      using Normal by (auto split: option.splits node.splits)
    also have "\<dots> \<longleftrightarrow> (\<exists>n. lstat root (cur @ [s]) = Some n \<and> (\<forall>t. n \<noteq> SymlinkNode t)) \<and>
        (\<exists>ss. cs = map Normal ss \<and> cur' = (cur @ [s]) @ ss \<and>
          (\<forall>i < length ss. \<exists>n. lstat root ((cur @ [s]) @ take (Suc i) ss) = Some n \<and> (\<forall>t. n \<noteq> SymlinkNode t)))"
      unfolding Cons.IH by blast
    also have "\<dots> \<longleftrightarrow> (\<exists>ss. c # cs = map Normal ss \<and> cur' = cur @ ss \<and>
        (\<forall>i < length ss. \<exists>n. lstat root (cur @ take (Suc i) ss) = Some n \<and> (\<forall>t. n \<noteq> SymlinkNode t)))"
      unfolding Cons_eq_map_conv using Normal split by (auto 0 4)
    finally show ?thesis .
  qed auto
qed auto

lemma validate_relative_path_Inr:
  "validate_relative_path p = Inr u \<longleftrightarrow> p \<noteq> [] \<and> \<not> is_absolute p \<and> (\<exists>ss. path_components p = map Normal ss)"
proof -
  have "list_ex (\<lambda>c. case c of Normal _ \<Rightarrow> False | _ \<Rightarrow> True) cs \<longleftrightarrow> \<not> (\<exists>ss. cs = map Normal ss)" for cs
    by (induction cs) (auto simp: Cons_eq_map_conv split: path_component.splits)
  then show ?thesis by (auto simp: validate_relative_path_def)
qed

lemma split_on_plain: "s \<in> set (split_on c p) \<Longrightarrow> c \<notin> set s"
  by (induction c p arbitrary: s rule: split_on.induct) (auto split: if_splits list.splits)

lemma path_component_of_Normal: "Normal s \<in> set (path_component_of x) \<longleftrightarrow> s = x \<and> x \<noteq> [] \<and> x \<noteq> ''.'' \<and> x \<noteq> ''..''"
  unfolding path_component_of_def by (cases "x = []"; cases "x = ''.''"; cases "x = ''..''") simp_all

lemma path_components_plain:
  assumes "Normal s \<in> set (path_components p)"
  shows "plain_segment s"
proof -
  obtain x xs where x: "split_on CHR ''/'' p = x # xs"
    using assms unfolding path_components_def by (cases "split_on CHR ''/'' p") simp_all
  have "\<exists>y \<in> set (split_on CHR ''/'' p). Normal s \<in> set (path_component_of y)"
    using assms unfolding path_components_def x list.case by (simp split: if_splits)
  then show ?thesis unfolding path_component_of_Normal plain_segment_def using split_on_plain by blast
qed

lemma read_package_file_Inr:
  "read_package_file tc root p n = Inr bs \<longleftrightarrow> p \<noteq> [] \<and> \<not> is_absolute p \<and> length bs \<le> unat n \<and>
     (\<exists>ss. path_components p = map Normal ss \<and> link_free root ss \<and> lstat root ss = Some (FileNode bs))"
proof -
  have walk: "descend tc root p [] (map Normal ss) = Inr cur \<and> lstat root cur = Some (FileNode bs) \<longleftrightarrow>
      cur = ss \<and> link_free root ss \<and> lstat root ss = Some (FileNode bs)" for ss cur bs
  proof -
    have eq: "(\<exists>n. lstat root (take (Suc i) ss) = Some n \<and> (\<forall>t. n \<noteq> SymlinkNode t)) \<longleftrightarrow>
        (\<forall>t. lstat root (take (Suc i) ss) \<noteq> Some (SymlinkNode t))" if "lstat root ss = Some (FileNode bs)" for i
      using lstat_prefix[of root "take (Suc i) ss" "drop (Suc i) ss"] that by auto
    have "descend tc root p [] (map Normal ss) = Inr cur \<longleftrightarrow> cur = ss \<and>
        (\<forall>i < length ss. \<exists>n. lstat root (take (Suc i) ss) = Some n \<and> (\<forall>t. n \<noteq> SymlinkNode t))"
      unfolding descend_Inr by (auto simp: inj_map_eq_map inj_def)
    then show ?thesis unfolding link_free_def using eq by blast
  qed
  have content: "(case m of None \<Rightarrow> Inl e
       | Some (FileNode bs) \<Rightarrow> if unat n < length bs then Inl (too_large p n) else read_bounded (take (unat n + 1) bs) p n
       | Some _ \<Rightarrow> Inl e') = Inr bs \<longleftrightarrow> m = Some (FileNode bs) \<and> length bs \<le> unat n" for m e e'
  proof (cases m)
    case (Some x)
    then show ?thesis by (cases x) (auto simp: read_bounded_def)
  qed simp
  have "read_package_file tc root p n = Inr bs \<longleftrightarrow> validate_relative_path p = Inr () \<and>
      (\<exists>cur. descend tc root p [] (path_components p) = Inr cur \<and> lstat root cur = Some (FileNode bs)) \<and> length bs \<le> unat n"
    unfolding read_package_file_def rbind_eq_Inr content by auto
  also have "\<dots> \<longleftrightarrow> p \<noteq> [] \<and> \<not> is_absolute p \<and> length bs \<le> unat n \<and>
     (\<exists>ss. path_components p = map Normal ss \<and> link_free root ss \<and> lstat root ss = Some (FileNode bs))"
    unfolding validate_relative_path_Inr using walk by (metis (no_types, lifting))
  finally show ?thesis .
qed

text \<open>A package file is read exactly when its path is relative, made of ordinary segments only (no parent, no
  dot, no separator inside), passes no symbolic link, and ends at a regular file of at most the
  allowed size; what is returned is the whole content of that file.\<close>

theorem read_package_file_confined:
  "read_package_file tc root p n = Inr bs \<longleftrightarrow> p \<noteq> [] \<and> \<not> is_absolute p \<and> length bs \<le> unat n \<and>
     (\<exists>ss. path_components p = map Normal ss \<and> list_all plain_segment ss \<and> link_free root ss \<and>
        lstat root ss = Some (FileNode bs))"
proof -
  have "list_all plain_segment ss" if "path_components p = map Normal ss" for ss
    unfolding list_all_iff using path_components_plain[of _ p] that by auto
  then show ?thesis unfolding read_package_file_Inr by blast
qed

section \<open>References form no cycle\<close>

definition requires_rel :: "(string, component_manifest) btree \<Rightarrow> (string \<times> string) set" where
  "requires_rel cs = {(n, d). \<exists>c. btree_get cs n = Some c \<and> d \<in> set (requires c)}"

text \<open>A finished list: what a component requires was finished before it.\<close>

fun finished_order :: "(string, component_manifest) btree \<Rightarrow> string list \<Rightarrow> bool" where
  "finished_order cs [] \<longleftrightarrow> True"
| "finished_order cs (n # ns) \<longleftrightarrow> n \<notin> set ns \<and> (\<forall>d. (n, d) \<in> requires_rel cs \<longrightarrow> d \<in> set ns) \<and> finished_order cs ns"

lemma visit_order:
  "visit cs active n ns = Inr ns' \<Longrightarrow> finished_order cs ns \<Longrightarrow>
     finished_order cs ns' \<and> n \<in> set ns' \<and> set ns \<subseteq> set ns' \<and> set ns' \<inter> set active \<subseteq> set ns"
  "visit_all cs active ds ns = Inr ns' \<Longrightarrow> finished_order cs ns \<Longrightarrow>
     finished_order cs ns' \<and> set ds \<subseteq> set ns' \<and> set ns \<subseteq> set ns' \<and> set ns' \<inter> set active \<subseteq> set ns"
proof (induction cs active n ns and cs active ds ns arbitrary: ns' and ns' rule: visit_visit_all.induct)
  case (1 cs active n ns)
  show ?case
  proof (cases "n \<in> set ns")
    case True
    with 1 show ?thesis by (auto simp: visit.simps)
  next
    case False
    with 1(2) obtain c ns1 where c: "n \<notin> set active" "btree_get cs n = Some c"
      and ns1: "visit_all cs (n # active) (requires c) ns = Inr ns1" "ns' = n # ns1"
      by (auto simp: visit.simps split: if_splits option.splits)
    from 1(1)[OF False c ns1(1) 1(3)] False c ns1(2) show ?thesis
      by (auto simp: requires_rel_def)
  qed
next
  case (3 cs active d ds ns)
  from 3(3) obtain ns1 where a: "visit cs active d ns = Inr ns1" and b: "visit_all cs active ds ns1 = Inr ns'" by auto
  from 3(1)[OF a 3(4)] 3(2)[OF a b] show ?case by auto
qed auto

lemma visit_complete:
  "\<lbrakk>acyclic (requires_rel cs); \<And>a d. (a, d) \<in> requires_rel cs \<Longrightarrow> d \<in> fst ` set cs; n \<in> fst ` set cs;
     \<And>a. a \<in> set active \<Longrightarrow> (a, n) \<in> (requires_rel cs)\<^sup>+\<rbrakk> \<Longrightarrow> \<exists>ns'. visit cs active n ns = Inr ns'"
  "\<lbrakk>acyclic (requires_rel cs); \<And>a d. (a, d) \<in> requires_rel cs \<Longrightarrow> d \<in> fst ` set cs; set ds \<subseteq> fst ` set cs;
     \<And>a d. a \<in> set active \<Longrightarrow> d \<in> set ds \<Longrightarrow> (a, d) \<in> (requires_rel cs)\<^sup>+\<rbrakk> \<Longrightarrow> \<exists>ns'. visit_all cs active ds ns = Inr ns'"
proof (induction cs active n ns and cs active ds ns rule: visit_visit_all.induct)
  case (1 cs active n ns)
  have "n \<notin> set active" using 1(2,5) by (auto simp: acyclic_def)
  moreover obtain c where c: "btree_get cs n = Some c" using 1(4) by (metis not_None_eq map_of_eq_None_iff)
  moreover have "\<exists>ns'. visit_all cs (n # active) (requires c) ns = Inr ns'" if "n \<notin> set ns"
  proof (rule 1(1)[OF that \<open>n \<notin> set active\<close> c 1(2,3)])
    have dep: "(n, d) \<in> requires_rel cs" if "d \<in> set (requires c)" for d using c that by (auto simp: requires_rel_def)
    then show "set (requires c) \<subseteq> fst ` set cs" using 1(3) by blast
    show "(a, d) \<in> (requires_rel cs)\<^sup>+" if "a \<in> set (n # active)" "d \<in> set (requires c)" for a d
      using dep[OF that(2)] that(1) 1(5)[of a] by (auto intro: trancl.trancl_into_trancl)
  qed
  ultimately show ?case by (auto simp: visit.simps)
next
  case (3 cs active d ds ns)
  have "\<exists>ns1. visit cs active d ns = Inr ns1" by (rule 3(1)) (use 3(3-6) in auto)
  then obtain ns1 where a: "visit cs active d ns = Inr ns1" by blast
  have "\<exists>ns'. visit_all cs active ds ns1 = Inr ns'" by (rule 3(2)[OF a]) (use 3(3-6) in auto)
  with a show ?case by auto
qed simp

lemma finished_closed: "\<lbrakk>finished_order cs ns; n \<in> set ns; (n, d) \<in> requires_rel cs\<rbrakk> \<Longrightarrow> d \<in> set ns"
  by (induction ns) auto

lemma finished_acyclic:
  assumes order: "finished_order cs ns" and all: "fst ` set cs \<subseteq> set ns"
  shows "acyclic (requires_rel cs)"
proof -
  let ?rank = "\<lambda>n. length (dropWhile (\<lambda>m. m \<noteq> n) ns)"
  have drop: "length (dropWhile (\<lambda>m. m \<noteq> d) ns) < length (dropWhile (\<lambda>m. m \<noteq> n) ns)"
    if "finished_order cs ns" "n \<in> set ns" "(n, d) \<in> requires_rel cs" for n d ns
    using that
  proof (induction ns)
    case (Cons m ns)
    have le: "length (dropWhile (\<lambda>m. m \<noteq> d) ns) \<le> length ns" by (rule length_dropWhile_le)
    show ?case
    proof (cases "m = n")
      case True
      then have "d \<in> set ns" using Cons.prems by auto
      with True le Cons.prems(1) show ?thesis by auto
    next
      case False
      then have "n \<in> set ns" using Cons.prems(2) by simp
      moreover from this have "d \<in> set ns" using Cons.prems(1,3) finished_closed[of cs ns n d] by simp
      ultimately show ?thesis using Cons False by auto
    qed
  qed simp
  have "?rank d < ?rank n" if "(n, d) \<in> (requires_rel cs)\<^sup>+" for n d
    using that
  proof (induction rule: trancl_induct)
    case (base d)
    then have "n \<in> set ns" using all by (force simp: requires_rel_def dest: map_of_SomeD)
    with base drop[OF order] show ?case by simp
  next
    case (step d e)
    then have "d \<in> set ns" using all by (force simp: requires_rel_def dest: map_of_SomeD)
    with step drop[OF order, of d e] show ?case by simp
  qed
  then show ?thesis unfolding acyclic_def by blast
qed

lemma visit_roots_order:
  "visit_roots cs ms ns = Inr ns' \<Longrightarrow> finished_order cs ns \<Longrightarrow> finished_order cs ns' \<and> set ms \<subseteq> set ns' \<and> set ns \<subseteq> set ns'"
proof (induction ms arbitrary: ns)
  case (Cons m ms)
  then obtain ns1 where a: "visit cs [] m ns = Inr ns1" and b: "visit_roots cs ms ns1 = Inr ns'" by auto
  from visit_order(1)[OF a Cons.prems(2)] Cons.IH[OF b] show ?case by auto
qed simp

lemma visit_roots_complete:
  assumes "acyclic (requires_rel cs)" and "\<And>a d. (a, d) \<in> requires_rel cs \<Longrightarrow> d \<in> fst ` set cs"
  shows "set ms \<subseteq> fst ` set cs \<Longrightarrow> \<exists>ns'. visit_roots cs ms ns = Inr ns'"
proof (induction ms arbitrary: ns)
  case (Cons m ms)
  have "\<exists>ns1. visit cs [] m ns = Inr ns1" by (rule visit_complete(1)) (use assms Cons.prems in auto)
  then obtain ns1 where "visit cs [] m ns = Inr ns1" by blast
  with Cons show ?case by auto
qed simp

lemma claim_capabilities_Inr:
  "claim_capabilities ps seen = Inr seen' \<longleftrightarrow> distinct (map pc_capability ps) \<and> set (map pc_capability ps) \<inter> set seen = {} \<and>
     seen' = rev (map pc_capability ps) @ seen"
  by (induction ps arbitrary: seen) auto

abbreviation capability_names :: "component_manifest \<Rightarrow> string list" where
  "capability_names c \<equiv> map pc_capability (provides c)"

definition requirements_exist :: "(string, component_manifest) btree \<Rightarrow> string \<times> component_manifest \<Rightarrow> bool" where
  "requirements_exist cs nc \<longleftrightarrow> fst nc \<notin> set (requires (snd nc)) \<and> set (requires (snd nc)) \<subseteq> fst ` set cs"

lemma check_components_Inr:
  "check_components cs ncs paths caps = Inr u \<longleftrightarrow>
     distinct (map (component_path \<circ> snd) ncs) \<and> set (map (component_path \<circ> snd) ncs) \<inter> set paths = {} \<and>
     list_all (requirements_exist cs) ncs \<and>
     distinct (concat (map (capability_names \<circ> snd) ncs)) \<and> set (concat (map (capability_names \<circ> snd) ncs)) \<inter> set caps = {}"
proof (induction ncs arbitrary: paths caps)
  case (Cons nc ncs)
  obtain n c where nc: "nc = (n, c)" by fastforce
  have "for_each (\<lambda>r. if r = n \<or> btree_get cs r = None then Inl (invalid_requirement n r) else Inr ()) (requires c) = Inr () \<longleftrightarrow>
      requirements_exist cs nc"
    by (auto simp: nc requirements_exist_def map_of_eq_None_iff)
  then have "check_components cs (nc # ncs) paths caps = Inr u \<longleftrightarrow> component_path c \<notin> set paths \<and> requirements_exist cs nc \<and>
      distinct (capability_names c) \<and> set (capability_names c) \<inter> set caps = {} \<and>
      check_components cs ncs (component_path c # paths) (rev (capability_names c) @ caps) = Inr u"
    by (auto simp: nc claim_capabilities_Inr simp del: for_each_Inr)
  moreover have "x \<notin> set ps \<and> r \<and> distinct xs \<and> set xs \<inter> set qs = {} \<and> (distinct ys \<and> set ys \<inter> set (x # ps) = {} \<and> rs \<and>
      distinct zs \<and> set zs \<inter> set (rev xs @ qs) = {}) \<longleftrightarrow> distinct (x # ys) \<and> set (x # ys) \<inter> set ps = {} \<and> (r \<and> rs) \<and>
      distinct (xs @ zs) \<and> set (xs @ zs) \<inter> set qs = {}"
    for x :: string and xs zs qs :: "string list" and ys ps r rs by auto
  ultimately show ?case unfolding Cons.IH by (simp only: nc list.map concat.simps list.pred_inject comp_def snd_conv)
qed simp

definition consumers_exist :: "(string, component_manifest) btree \<Rightarrow> credential_declaration \<Rightarrow> bool" where
  "consumers_exist cs c \<longleftrightarrow> cd_components c \<noteq> [] \<and> set (cd_components c) \<subseteq> fst ` set cs"

lemma check_credentials_Inr:
  "check_credentials cs ds ids = Inr u \<longleftrightarrow>
     distinct (map cd_id ds) \<and> set (map cd_id ds) \<inter> set ids = {} \<and> list_all (consumers_exist cs) ds"
proof (induction ds arbitrary: ids)
  case (Cons d ds)
  have "for_each (\<lambda>n. if btree_get cs n = None then Inl (''unknown credential component: '' @ n) else Inr ()) (cd_components d) = Inr () \<longleftrightarrow>
      set (cd_components d) \<subseteq> fst ` set cs"
    by (auto simp: map_of_eq_None_iff)
  then show ?case using Cons by (auto simp: consumers_exist_def simp del: for_each_Inr)
qed simp

lemma visit_roots_Inr:
  assumes "list_all (requirements_exist cs) cs"
  shows "(\<exists>ns. visit_roots cs (map fst cs) [] = Inr ns) \<longleftrightarrow> acyclic (requires_rel cs)"
proof
  assume "\<exists>ns. visit_roots cs (map fst cs) [] = Inr ns"
  then obtain ns where "visit_roots cs (map fst cs) [] = Inr ns" by blast
  with visit_roots_order[OF this] show "acyclic (requires_rel cs)" by (intro finished_acyclic[of cs ns]) auto
next
  have "d \<in> fst ` set cs" if "(a, d) \<in> requires_rel cs" for a d
    using that assms by (fastforce simp: requires_rel_def requirements_exist_def list_all_iff dest: map_of_SomeD)
  then show "acyclic (requires_rel cs) \<Longrightarrow> \<exists>ns. visit_roots cs (map fst cs) [] = Inr ns"
    by (intro visit_roots_complete) auto
qed

text \<open>C23: The references of a manifest are accepted exactly when no two components share a file, every requirement
  names another component of the package, no capability has two providers, the requirements form no cycle (the search
  for one always ends), and every credential has its own identifier and consumers that exist.\<close>

theorem validate_references_iff:
  "validate_references m = Inr () \<longleftrightarrow>
     distinct (map (component_path \<circ> snd) (components m)) \<and> list_all (requirements_exist (components m)) (components m) \<and>
     distinct (concat (map (capability_names \<circ> snd) (components m))) \<and> acyclic (requires_rel (components m)) \<and>
     distinct (map cd_id (credentials m)) \<and> list_all (consumers_exist (components m)) (credentials m)"
  using visit_roots_Inr[of "components m"]
  by (auto simp: validate_references_def check_components_Inr check_credentials_Inr)

section \<open>What a loaded package is\<close>

lemma verify_digest_Inr: "verify_digest sha d bs = Inr u \<longleftrightarrow> d = package_sha256 sha bs \<and> d \<noteq> ''sha256:dev''"
  by (auto simp: verify_digest_def Let_def)

lemma validate_component_Inr:
  "validate_component tc decode a c bs = Inr u \<longleftrightarrow> a = abi_package \<and> world c = ''pluribus:plugin/plugin@3.0.0'' \<and>
     (\<exists>is es. decode bs = Inr (WasmComponent is es) \<and> interface_ids is ''import'' True = Inr (set (imported_interfaces c)) \<and>
        interface_ids es ''export'' False = Inr {lifecycle_export})"
proof (cases "decode bs")
  case (Inr d)
  then show ?thesis by (cases d) (auto simp: validate_component_def)
qed (simp add: validate_component_def)

text \<open>A component as loaded: the content of its file under the root, with the declared digest and
  interfaces.\<close>

definition component_sound ::
  "(bytes \<Rightarrow> bytes) \<Rightarrow> (bytes \<Rightarrow> string + decoded_wasm) \<Rightarrow> node \<Rightarrow> string \<times> component_manifest \<Rightarrow> string \<times> plugin_component \<Rightarrow> bool" where
  "component_sound sha decode root nc np \<longleftrightarrow> fst np = fst nc \<and> pc_manifest (snd np) = snd nc \<and>
     component_digest (snd nc) = package_sha256 sha (pc_bytes (snd np)) \<and>
     (\<exists>ss. list_all plain_segment ss \<and> link_free root ss \<and> lstat root ss = Some (FileNode (pc_bytes (snd np)))) \<and>
     (\<exists>is es. decode (pc_bytes (snd np)) = Inr (WasmComponent is es) \<and>
        interface_ids is ''import'' True = Inr (set (imported_interfaces (snd nc))) \<and>
        interface_ids es ''export'' False = Inr {lifecycle_export})"

lemma load_component_sound:
  assumes "load_component tc sd sha decode root a nc = Inr np"
  shows "component_sound sha decode root nc np"
proof -
  obtain n c where nc: "nc = (n, c)" by fastforce
  then obtain bs where r: "read_package_file tc root (component_path c) max_component_bytes = Inr bs"
    and bs: "pc_bytes (snd np) = bs" "fst np = n" "pc_manifest (snd np) = c"
    and d: "verify_digest sha (component_digest c) bs = Inr ()" and v: "validate_component tc decode a c bs = Inr ()"
    using assms by (auto simp: load_component_def)
  obtain ss where ss: "path_components (component_path c) = map Normal ss" "link_free root ss" "lstat root ss = Some (FileNode bs)"
    using r unfolding read_package_file_Inr by blast
  then have "list_all plain_segment ss" unfolding list_all_iff using path_components_plain[of _ "component_path c"] by auto
  with ss v d bs nc show ?thesis unfolding component_sound_def verify_digest_Inr validate_component_Inr by auto
qed

text \<open>C22: A package that loads is sound: its references are valid, and each of its components is the content of a
  regular file below the package root, reached without a symbolic link, with exactly the digest and the imports
  its manifest declares and the one lifecycle export.\<close>

theorem load_package_sound:
  assumes "load_package tc sd sha decode root = Inr p"
  shows "\<exists>n. root = Some n \<and> load_manifest tc n = Inr (pp_manifest p) \<and> validate_references (pp_manifest p) = Inr () \<and>
    list_all2 (component_sound sha decode n) (components (pp_manifest p)) (pp_components p)"
proof -
  from assms obtain n cs where n: "validate_package_root tc root = Inr n" and m: "load_manifest tc n = Inr (pp_manifest p)"
    and "validate_references (pp_manifest p) = Inr ()"
    and cs: "map (load_component tc sd sha decode n (abi (pp_manifest p))) (components (pp_manifest p)) = map Inr (pp_components p)"
    by (auto simp: load_package_def collect_results_Inr simp del: for_each_Inr)
  moreover have "root = Some n" using n by (auto simp: validate_package_root_def split: option.splits node.splits)
  moreover have "list_all2 (component_sound sha decode n) (components (pp_manifest p)) (pp_components p)"
    unfolding list_all2_conv_all_nth
  proof (intro conjI allI impI)
    show "length (components (pp_manifest p)) = length (pp_components p)" using cs by (metis length_map)
    fix i assume "i < length (components (pp_manifest p))"
    then have "load_component tc sd sha decode n (abi (pp_manifest p)) (components (pp_manifest p) ! i) = Inr (pp_components p ! i)"
      using arg_cong[OF cs, of "\<lambda>xs. xs ! i"] arg_cong[OF cs, of length] by simp
    then show "component_sound sha decode n (components (pp_manifest p) ! i) (pp_components p ! i)" by (rule load_component_sound)
  qed
  ultimately show ?thesis by blast
qed

abbreviation demo_toolchain :: toolchain where
  "demo_toolchain \<equiv> \<lparr>io_text = (\<lambda>_. []), utf8_error = (\<lambda>_. []), debug_list = (\<lambda>_. []), toml_json = (\<lambda>_. Inr (Inr JNull)),
     toml_manifest = (\<lambda>_. Inr \<lparr>manifest_version = 1, abi = abi_package, manifest_id = ''dev.pluribus.echo'', manifest_name = ''echo'',
       config_schema = ''c.json'', license = None, credentials = [], components = [],
       the_component = Some \<lparr>world = ''pluribus:plugin/plugin@3.0.0'', component_path = ''p.wasm'', component_digest = ''sha256:'',
         imported_interfaces = [], cm_config_schema = ''c.json'', provides = [], cm_model_provider = None, subscribes = [], emits = [],
         rebuilds = [], pinned_session = False, requires = [], requested_capabilities = [], cm_catalog_injection = None,
         cm_connector = None\<rparr>,
       config_defaults = JObject [(''greeting'', JString ''hello'')]\<rparr>),
     builtin_schema = Inr (\<lambda>_. Inr ()), compile_schema = (\<lambda>_. Inr (\<lambda>_. Inr ()))\<rparr>"

abbreviation demo_serde :: serde where
  "demo_serde \<equiv> \<lparr>from_slice = (\<lambda>_. Inr JNull), to_vec = (\<lambda>_. Inr []), value_text = (\<lambda>_. []), number_text = (\<lambda>_. []),
     json_pointer = (\<lambda>_ _. None)\<rparr>"

abbreviation demo_root :: node where
  "demo_root \<equiv> DirNode [(''plugin.toml'', FileNode []), (''c.json'', FileNode []), (''p.wasm'', FileNode [])]"

abbreviation demo_load :: "package_error + plugin_package" where
  "demo_load \<equiv> load_package demo_toolchain demo_serde (\<lambda>_. []) (\<lambda>_. Inr (WasmComponent [] [Interface (Some lifecycle_export) True])) (Some demo_root)"

lemma demo_read:
  "read_package_file demo_toolchain demo_root ''plugin.toml'' n = Inr []"
  "read_package_file demo_toolchain demo_root ''c.json'' n = Inr []"
  "read_package_file demo_toolchain demo_root ''p.wasm'' n = Inr []"
  by (simp_all add: read_package_file_def validate_relative_path_def is_absolute_def starts_with_def path_components_def
      path_component_of_def read_bounded_def)

lemma demo_loads: "\<exists>p. demo_load = Inr p \<and> config_defaults (pp_manifest p) = JObject [(''greeting'', JString ''hello'')]"
  by (simp add: load_package_def validate_package_root_def load_manifest_def demo_read is_utf8_def from_utf8_lossy_def
      validate_manifest_schema_def normalize_def validate_references_def visit.simps load_schema_def load_component_def
      verify_digest_def package_sha256_def sha256_hex_def validate_component_def)

theorem load_package_sound_witness: "\<exists>p. demo_load = Inr p \<and> validate_references (pp_manifest p) = Inr ()"
proof -
  obtain p where p: "demo_load = Inr p" using demo_loads by blast
  with load_package_sound[OF p] show ?thesis by blast
qed

section \<open>Configuration\<close>

text \<open>Resolving a configuration overlays the operator's values on the package's defaults, member by member and
  recursively: a member the operator leaves out keeps its default, one that only the operator gives is taken, and two
  objects are merged. Resolving the result again with the same values changes nothing.\<close>

theorem resolve_config_overlay:
  assumes "config_defaults (pp_manifest p) = JObject b" and "json_wf (JObject b)" and "json_wf (JObject v)"
  shows "json_get (resolve_config p (JObject v)) k = merge_option (btree_get b k) (btree_get v k) \<and>
    merge_config (resolve_config p (JObject v)) (JObject v) = resolve_config p (JObject v)"
proof -
  have "btree_wf b" "distinct (map fst v)" using assms by (simp_all add: json_wf_object btree_wf_distinct)
  then have "json_get (resolve_config p (JObject v)) k = merge_option (btree_get b k) (btree_get v k)"
    using assms(1) by (simp add: resolve_config_def merge_members_get)
  moreover have "merge_config (resolve_config p (JObject v)) (JObject v) = resolve_config p (JObject v)"
    unfolding resolve_config_def assms(1) by (rule merge_config_absorb[OF assms(2,3)])
  ultimately show ?thesis ..
qed

theorem resolve_config_overlay_witness:
  "\<exists>p. demo_load = Inr p \<and> json_get (resolve_config p (JObject [(''to'', JNull)])) ''greeting'' = Some (JString ''hello'')"
proof -
  obtain p where p: "demo_load = Inr p" and d: "config_defaults (pp_manifest p) = JObject [(''greeting'', JString ''hello'')]"
    using demo_loads by blast
  have "json_wf (JObject [(''greeting'', JString ''hello'')])" "json_wf (JObject [(''to'', JNull)])"
    by (simp_all add: json_wf_object btree_wf_def)
  from resolve_config_overlay[OF d this, of "''greeting''"] p show ?thesis by (auto simp: merge_option_def)
qed

end
