(* ===== verification/Event_Store.thy ===== *)
theory Event_Store
  imports Sqlite_Log
begin

text \<open>
  The interface \<open>EventStore\<close> as its clients see it: a record of the four operations, its contract as a
  locale over the log of committed events, and the SQLite store as an instance. A client's facts are proved once, in the
  locale.
\<close>

record 's event_ops =
  op_append :: "'s \<Rightarrow> append_request \<Rightarrow> 's \<times> (append_error + committed_event)"
  op_read :: "'s \<Rightarrow> stream_id \<Rightarrow> u64 \<Rightarrow> u64 \<Rightarrow> append_error + committed_event list"
  op_get :: "'s \<Rightarrow> event_id \<Rightarrow> append_error + committed_event option"
  op_query :: "'s \<Rightarrow> stream_id \<Rightarrow> event_query \<Rightarrow> u64 \<Rightarrow> append_error + committed_event list"

definition sql_event_ops :: "engine \<Rightarrow> store event_ops" where
  "sql_event_ops en = \<lparr>op_append = append_event en, op_read = read_events en, op_get = get_event en,
     op_query = query_events en\<rparr>"

text \<open>The log a store holds, read off its event table, and the stores that hold one.\<close>

definition stored_log :: "store \<Rightarrow> committed_event list" where
  "stored_log s = List.map_filter (\<lambda>row. ok_opt (decode_event row)) (events (db s))"

definition holds_log :: "store \<Rightarrow> bool" where
  "holds_log s \<longleftrightarrow> represents (db s) (stored_log s)"

text \<open>The events of a stream that a query without a text or an upper bound selects.\<close>

definition matching :: "committed_event list \<Rightarrow> stream_id \<Rightarrow> event_query \<Rightarrow> committed_event list" where
  "matching es stream q = filter (query_matches q) (stream_log es stream)"

locale event_store =
  fixes ops :: "'s event_ops" and log :: "'s \<Rightarrow> committed_event list" and inv :: "'s \<Rightarrow> bool"
  assumes wf: "inv s \<Longrightarrow> log_wf (log s)"
    and get: "inv s \<Longrightarrow> op_get ops s i = Inr (find (\<lambda>e. event_id e = i) (log s))"
    and read: "inv s \<Longrightarrow> op_read ops s stream after limit = Inr (read_log (log s) stream after limit)"
    and query: "\<lbrakk>inv s; text_query q = None; before_sequence q = None; \<not> descending q\<rbrakk> \<Longrightarrow>
      op_query ops s stream q limit = Inr (take (unat limit) (matching (log s) stream q))"
    and query_sound: "\<lbrakk>inv s; op_query ops s stream q limit = Inr es\<rbrakk> \<Longrightarrow> set es \<subseteq> set (stream_log (log s) stream)"
    and append: "\<lbrakk>inv s; op_append ops s r = (s', res)\<rbrakk> \<Longrightarrow> inv s' \<and>
      (case res of Inl _ \<Rightarrow> log s' = log s | Inr e \<Rightarrow> \<exists>eid at. log_append (log s) r eid at = Inr (log s', e))"
begin

text \<open>What an append leaves behind, whether it stored the request or found its key.\<close>

lemma append_grows:
  assumes "inv s" and "op_append ops s r = (s', res)"
  shows "inv s'" and "\<exists>new. log s' = log s @ new"
  using append[OF assms] log_append_prefix by (auto split: sum.splits)

lemma append_stored:
  assumes "inv s" and "op_append ops s r = (s', Inr e)"
  shows "e \<in> set (log s')" and "stream_id (request e) = stream_id r"
    and "deduplication_key r \<noteq> None \<Longrightarrow> deduplication_key (request e) = deduplication_key r"
  using append[OF assms] log_append_event by auto

lemma append_fresh:
  assumes "inv s" and "op_append ops s r = (s', Inr e)"
    and "\<And>x. x \<in> set (log s) \<Longrightarrow> stream_id (request x) = stream_id r \<Longrightarrow> deduplication_key (request x) \<noteq> deduplication_key r"
  shows "log s' = log s @ [e]" and "request e = r"
  using append[OF assms(1,2)] assms(3)
  by (auto simp: log_append_def split: option.splits if_splits dest!: find_SomeD)

lemma append_duplicate:
  assumes "inv s" and "op_append ops s r = (s', Inr e)" and "x \<in> set (log s)" and "stream_id (request x) = stream_id r"
    and "deduplication_key (request x) = deduplication_key r" and "deduplication_key r \<noteq> None"
  shows "e = x" and "log s' = log s"
proof -
  obtain eid at where new: "log_append (log s) r eid at = Inr (log s', e)" using append[OF assms(1,2)] by auto
  have "x \<in> set (stream_log (log s) (stream_id r))" using assms by simp
  then have "find (\<lambda>e. deduplication_key (request e) = deduplication_key r) (stream_log (log s) (stream_id r)) \<noteq> None"
    using assms(5) unfolding find_None_iff by blast
  then obtain y where y: "find (\<lambda>e. deduplication_key (request e) = deduplication_key r) (stream_log (log s) (stream_id r)) = Some y"
    by blast
  then have "y = x"
    using dedup_unique[OF log_wf_distinct(2)[OF wf[OF assms(1)]], of y x] find_SomeD[OF y] assms by simp
  then show "e = x" "log s' = log s" using new y assms(6) by (auto simp: log_append_def split: sum.splits)
qed

text \<open>Which event holds a deduplication key never changes.\<close>

lemma get_member: "inv s \<Longrightarrow> e \<in> set (log s) \<Longrightarrow> op_get ops s (event_id e) = Inr (Some e)"
  by (simp add: get found_under_id[OF wf])

end

lemma stored_log_represents: "represents (db s) es \<Longrightarrow> stored_log s = es"
proof -
  assume rep: "represents (db s) es"
  then have wf: "log_wf es" and ev: "events (db s) = map row_of es" by (simp_all add: represents_def)
  have "List.map_filter (\<lambda>row. ok_opt (decode_event row)) (map row_of xs) = xs" if "set xs \<subseteq> set es" for xs
    using that by (induction xs) (simp_all add: List.map_filter_def decode_row_of[OF wf] ok_opt_def)
  then show ?thesis by (simp add: stored_log_def ev)
qed

lemma holds_log_represents: "represents (db s) es \<Longrightarrow> holds_log s"
  by (simp add: holds_log_def stored_log_represents)

lemma query_events_sound:
  assumes "represents (db s) es" and "query_events en s stream q limit = Inr xs"
  shows "set xs \<subseteq> set (stream_log es stream)"
proof (cases "bind_i64 (before_sequence q) = None")
  case True
  with assms(2) show ?thesis by (auto simp: query_events_def split: option.splits)
next
  case False
  with query_events_bounds[OF assms(1)] assms(2) show ?thesis by (auto simp: query_log_def Let_def dest!: in_set_takeD split: if_splits)
qed

interpretation sql: event_store "sql_event_ops en" stored_log holds_log
proof
  fix s s' :: store and q stream limit r res es
  show "holds_log s \<Longrightarrow> log_wf (stored_log s)" by (simp add: holds_log_def represents_def)
  show "op_get (sql_event_ops en) s i = Inr (find (\<lambda>e. event_id e = i) (stored_log s))" if "holds_log s" for i
    using that by (simp add: holds_log_def sql_event_ops_def get_refines)
  show "op_read (sql_event_ops en) s stream after limit = Inr (read_log (stored_log s) stream after limit)" if "holds_log s" for after
    using that by (simp add: holds_log_def sql_event_ops_def read_refines)
  show "op_query (sql_event_ops en) s stream q limit = Inr (take (unat limit) (matching (stored_log s) stream q))"
    if "holds_log s" "text_query q = None" "before_sequence q = None" "\<not> descending q"
  proof -
    have "query_events en s stream q limit = Inr (query_log en (stored_log s) stream q limit)"
      by (rule query_events_bounds) (use that in \<open>simp_all add: holds_log_def bind_i64_def\<close>)
    with that show ?thesis by (simp add: sql_event_ops_def query_log_def matching_def text_found_def)
  qed
  show "set es \<subseteq> set (stream_log (stored_log s) stream)" if "holds_log s" "op_query (sql_event_ops en) s stream q limit = Inr es"
    using that by (auto simp: holds_log_def sql_event_ops_def dest: query_events_sound)
  assume inv: "holds_log s" and "op_append (sql_event_ops en) s r = (s', res)"
  then have call: "append_event en s r = (s', res)" and rep: "represents (db s) (stored_log s)"
    by (simp_all add: sql_event_ops_def holds_log_def)
  show "holds_log s' \<and> (case res of Inl _ \<Rightarrow> stored_log s' = stored_log s
    | Inr e \<Rightarrow> \<exists>eid at. log_append (stored_log s) r eid at = Inr (stored_log s', e))"
  proof (cases res)
    case (Inl e)
    with append_event_error[OF rep] call have "db s' = db s" by simp
    with inv Inl show ?thesis by (simp add: holds_log_def stored_log_def)
  next
    case (Inr e)
    with call have "append_event en s r = (s', Inr e)" by simp
    from append_event_ok[OF rep this] obtain es' where
      "log_append (stored_log s) r (peek_id s) (peek_clock s) = Inr (es', e)" "represents (db s') es'" by blast
    with Inr show ?thesis by (auto simp: holds_log_represents stored_log_represents)
  qed
qed

end
