(* ===== verification/Paging.thy ===== *)
theory Paging
  imports Event_Store
begin

text \<open>
  Reading a stream page by page, the loop that the router runs in several places: fetch the events
  after a sequence, stop on an empty page, otherwise handle the page and continue after its last event. Nothing
  bounds the loop over an arbitrary store, so it is partial; over a store that keeps the contract of
  \<open>Event_Store\<close> it ends, and it sees every matching event once and in order, whatever the size of
  its pages.
\<close>

datatype ('a, 'r) flow = Continue 'a | Return 'r

partial_function (option) page_loop ::
  "(u64 \<Rightarrow> 'e + committed_event list) \<Rightarrow> ('e \<Rightarrow> 'a \<Rightarrow> 'r) \<Rightarrow> (committed_event list \<Rightarrow> 'a \<Rightarrow> ('a, 'r) flow) \<Rightarrow> ('a \<Rightarrow> 'r) \<Rightarrow>
   u64 \<Rightarrow> 'a \<Rightarrow> 'r option" where
  "page_loop fetch fail step finish after a = (case fetch after of
       Inl e \<Rightarrow> Some (fail e a)
     | Inr page \<Rightarrow>
       if page = [] then Some (finish a)
       else (case step page a of
           Return r \<Rightarrow> Some r
         | Continue a \<Rightarrow> page_loop fetch fail step finish (sequence (last page)) a))"

declare page_loop.simps [code]

text \<open>A page handled event by event.\<close>

fun over_events :: "(committed_event \<Rightarrow> 'a \<Rightarrow> ('a, 'r) flow) \<Rightarrow> committed_event list \<Rightarrow> 'a \<Rightarrow> ('a, 'r) flow" where
  "over_events f [] a = Continue a"
| "over_events f (e # es) a = (case f e a of Return r \<Rightarrow> Return r | Continue a \<Rightarrow> over_events f es a)"

definition flow_end :: "('a \<Rightarrow> 'r) \<Rightarrow> ('a, 'r) flow \<Rightarrow> 'r" where
  "flow_end finish x = (case x of Return r \<Rightarrow> r | Continue a \<Rightarrow> finish a)"

lemma flow_end_simps [simp]: "flow_end f (Return r) = r" "flow_end f (Continue a) = f a"
  by (simp_all add: flow_end_def)

lemma over_events_append:
  "over_events f (xs @ ys) a = (case over_events f xs a of Return r \<Rightarrow> Return r | Continue a \<Rightarrow> over_events f ys a)"
  by (induction f xs a rule: over_events.induct) (auto split: flow.splits)

text \<open>The pages of a sorted list join to the list.\<close>

lemma page_loop_joins:
  assumes sorted: "sorted_wrt (<) (map sequence xs)" and n: "0 < n"
    and fetch: "\<And>after. fetch after = Inr (take n (filter (\<lambda>e. after < sequence e) xs))"
  shows "page_loop fetch fail (over_events f) finish after a =
    Some (flow_end finish (over_events f (filter (\<lambda>e. after < sequence e) xs) a))"
proof (induction "length (filter (\<lambda>e. after < sequence e) xs)" arbitrary: after a rule: less_induct)
  case less
  let ?rest = "filter (\<lambda>e. after < sequence e) xs"
  let ?page = "take n ?rest"
  show ?case
  proof (cases "?rest = []")
    case True
    then show ?thesis by (subst page_loop.simps) (simp add: fetch)
  next
    case False
    then have page: "?page \<noteq> []" using n by simp
    let ?k = "length ?page"
    have k: "0 < ?k" "?k \<le> length ?rest" using page by simp_all
    have last: "last ?page = ?rest ! (?k - 1)" 
    proof -
      have "?k - 1 < n" using k n by simp
      then show ?thesis using last_conv_nth[OF page] nth_take[of "?k - 1" n ?rest] by simp
    qed
    have low: "after < sequence (last ?page)"
      using last_in_set[OF page] by (auto dest: in_set_takeD)
    have "sorted_wrt (<) (map sequence ?rest)"
      using sorted by (simp add: sorted_wrt_map sorted_wrt_filter)
    then have "filter (\<lambda>e. sequence (?rest ! (?k - 1)) < sequence e) ?rest = drop ?k ?rest"
      by (rule after_sorted[OF _ k])
    then have "filter (\<lambda>e. sequence (last ?page) < sequence e) ?rest = drop n ?rest"
      unfolding last using n by (cases "n \<le> length ?rest") auto
    moreover have "filter (\<lambda>e. sequence (last ?page) < sequence e) ?rest = filter (\<lambda>e. sequence (last ?page) < sequence e) xs"
      unfolding filter_filter using low by (intro filter_cong refl) auto
    ultimately have rest: "filter (\<lambda>e. sequence (last ?page) < sequence e) xs = drop n ?rest" by simp
    have "length (filter (\<lambda>e. sequence (last ?page) < sequence e) xs) < length ?rest"
      unfolding rest using False n by (cases ?rest) auto
    note IH = less[OF this]
    have "over_events f ?rest a = (case over_events f ?page a of Return r \<Rightarrow> Return r | Continue a \<Rightarrow> over_events f (drop n ?rest) a)"
      using over_events_append[of f ?page "drop n ?rest" a] by simp
    then show ?thesis
      using page IH[unfolded rest] by (subst page_loop.simps) (simp add: fetch split: flow.splits)
  qed
qed

lemma stream_log_strict: "log_wf es \<Longrightarrow> sorted_wrt (<) (map sequence (filter P (stream_log es i)))"
proof -
  assume wf: "log_wf es"
  have "sorted_wrt (<) (map (\<lambda>e. uint (sequence e)) (stream_log es i))"
    unfolding log_wf_sequences[OF wf] by simp
  then show ?thesis by (simp add: sorted_wrt_map sorted_wrt_filter word_less_def)
qed

lemma matching_after:
  "matching es stream (q\<lparr>after_sequence := Some a\<rparr>) = filter (\<lambda>e. a < sequence e) (matching es stream (q\<lparr>after_sequence := None\<rparr>))"
  unfolding matching_def filter_filter by (rule filter_cong) (auto simp: query_matches_iff)

context event_store
begin

lemma paged_query:
  assumes inv: "inv s" and q: "text_query q = None" "before_sequence q = None" "\<not> descending q" and n: "n \<noteq> 0"
  shows "page_loop (\<lambda>after. op_query ops s stream (q\<lparr>after_sequence := Some after\<rparr>) n) fail (over_events f) finish after a =
    Some (flow_end finish (over_events f (matching (log s) stream (q\<lparr>after_sequence := Some after\<rparr>)) a))"
proof -
  have pos: "0 < unat n" using n by (simp add: unat_gt_0)
  have "sorted_wrt (<) (map sequence (matching (log s) stream (q\<lparr>after_sequence := None\<rparr>)))"
    unfolding matching_def by (rule stream_log_strict[OF wf[OF inv]])
  then show ?thesis unfolding matching_after
    by (rule page_loop_joins[OF _ pos]) (use q in \<open>simp add: query[OF inv] matching_after\<close>)
qed

lemma paged_read:
  assumes inv: "inv s" and n: "n \<noteq> 0"
  shows "page_loop (\<lambda>after. op_read ops s stream after n) fail (over_events f) finish after a =
    Some (flow_end finish (over_events f (filter (\<lambda>e. after < sequence e) (stream_log (log s) stream)) a))"
proof -
  have pos: "0 < unat n" using n by (simp add: unat_gt_0)
  have "sorted_wrt (<) (map sequence (stream_log (log s) stream))"
    using stream_log_strict[OF wf[OF inv], of "\<lambda>_. True"] by simp
  then show ?thesis by (rule page_loop_joins[OF _ pos]) (simp add: read[OF inv] read_log_def)
qed

end

end
