(* ===== verification/Registry.thy ===== *)
theory Registry
  imports Events
begin

text \<open>
  The closed vocabulary of event types (\<open>registry.rs\<close>): which types exist, which the core keeps to
  itself, which payload schema a type pins, and whether a plugin with given emission grants may
  propose an event. A \<open>BTreeMap\<close> that is only looked up and inserted into is a HOL map.
\<close>

definition reserved_event_types :: "string list" where
  "reserved_event_types =
     [''component.failed'', ''component.backoff'', ''component.recovered'',
      ''cognition.resource-exhausted'', ''operator.job-control'', ''operator.attempt-reconciled'',
      ''observation.received'', ''policy.decision'', ''credential.enrollment.requested'',
      ''activity.attempted'', ''activity.unknown'', ''capability.denied'', ''capability.timed-out'',
      ''capability.cancelled'', ''stream.closed'', ''agent.failed'']"

definition plugin_event_types :: "string list" where
  "plugin_event_types =
     [''credential.enrollment.started'', ''http.request.received'', ''http.response.requested'',
      ''capability.requested'', ''model.requested'', ''capability.output'', ''capability.completed'',
      ''capability.failed'', ''model.stream'', ''model.completed'', ''model.failed'',
      ''cognition.checkpoint'', ''cognition.job-updated'', ''cognition.observation-associated'',
      ''cognition.cancel-requested'', ''cognition.completed'', ''cognition.failed'',
      ''memory.remembered'', ''memory.superseded'', ''memory.forgotten'', ''code.close-requested'',
      ''code.closed'', ''code.evaluate-requested'', ''code.yielded'', ''code.resumed'',
      ''code.completed'', ''code.failed'', ''timer.set'', ''timer.cancel'', ''timer.fired'',
      ''schedule.updated'']"

datatype ownership = CoreOwned | PluginOwned

record event_type_declaration =
  ownership :: ownership
  declared_schema :: "string option"

type_synonym event_type_registry = "string \<rightharpoonup> event_type_declaration"

definition pinned_schemas :: "(string \<times> string) list" where
  "pinned_schemas =
     [(''operator.job-control'', ''pluribus.operator-job-control/1''),
      (''operator.attempt-reconciled'', ''pluribus.operator-attempt-reconciled/1''),
      (''component.backoff'', ''pluribus.component-health/1''),
      (''component.recovered'', ''pluribus.component-health/1''),
      (''cognition.resource-exhausted'', ''pluribus.cognition-resource-exhausted/1''),
      (''activity.attempted'', ''pluribus.activity-attempt/1''),
      (''activity.unknown'', ''pluribus.activity-attempt/1''),
      (''cognition.checkpoint'', ''pluribus.cognition-checkpoint/1''),
      (''cognition.job-updated'', ''pluribus.job/1''),
      (''cognition.observation-associated'', ''pluribus.observation-association/1''),
      (''cognition.cancel-requested'', ''pluribus.cognition-cancel/1'')]"

definition declare_types :: "ownership \<Rightarrow> string list \<Rightarrow> event_type_registry \<Rightarrow> event_type_registry" where
  "declare_types own ts m =
     fold (\<lambda>t m. m(t \<mapsto> \<lparr>ownership = own, declared_schema = None\<rparr>)) ts m"

definition pin_schemas :: "(string \<times> string) list \<Rightarrow> event_type_registry \<Rightarrow> event_type_registry" where
  "pin_schemas ps m =
     fold (\<lambda>(t, s) m. case m t of None \<Rightarrow> m | Some d \<Rightarrow> m(t \<mapsto> d\<lparr>declared_schema := Some s\<rparr>)) ps m"

definition core_registry :: event_type_registry where
  "core_registry = pin_schemas pinned_schemas
     (declare_types PluginOwned plugin_event_types
       (declare_types CoreOwned reserved_event_types Map.empty))"

datatype registry_error =
    Unknown string
  | Reserved string
  | NotGranted string
  | SchemaMismatch string string string \<comment> \<open>event type, expected, actual\<close>

definition registry_error_display :: "registry_error \<Rightarrow> string" where
  "registry_error_display e = (case e of
       Unknown t \<Rightarrow> ''unknown event type: '' @ t
     | Reserved t \<Rightarrow> ''event type is core-owned: '' @ t
     | NotGranted t \<Rightarrow> ''instance may not emit '' @ t
     | SchemaMismatch t x y \<Rightarrow>
         ''event type '' @ t @ '' carries schema '' @ x @ '', proposal used '' @ y)"

definition registry_validate :: "event_type_registry \<Rightarrow> append_request \<Rightarrow> registry_error + unit" where
  "registry_validate reg r =
     rbind (ok_or (Unknown (event_type r)) (reg (event_type r))) (\<lambda>d.
       case declared_schema d of
         Some s \<Rightarrow> if s \<noteq> payload_schema r
           then Inl (SchemaMismatch (event_type r) s (payload_schema r)) else Inr ()
       | None \<Rightarrow> Inr ())"

definition matches_pattern :: "string \<Rightarrow> string \<Rightarrow> bool" where
  "matches_pattern pattern t =
     (if pattern = ''*'' then True
      else case strip_suffix pattern ''.*'' of
          Some prefix \<Rightarrow> is_some_and (\<lambda>rest. starts_with rest ''.'') (strip_prefix t prefix)
        | None \<Rightarrow> pattern = t)"

definition registry_authorize ::
  "event_type_registry \<Rightarrow> append_request \<Rightarrow> string list \<Rightarrow> registry_error + unit" where
  "registry_authorize reg r granted =
     rbind (registry_validate reg r) (\<lambda>_.
     rbind (ok_or (Unknown (event_type r)) (reg (event_type r))) (\<lambda>d.
       let connector_observation =
         event_type r = ''observation.received'' \<and> list_ex (\<lambda>t. t = ''observation.received'') granted
       in if ownership d = CoreOwned \<and> \<not> connector_observation
          then Inl (Reserved (event_type r))
          else if \<not> list_ex (\<lambda>p. matches_pattern p (event_type r)) granted
          then Inl (NotGranted (event_type r))
          else Inr ()))"

section \<open>Facts\<close>

lemma declare_types_apply:
  "declare_types own ts m t =
     (if t \<in> set ts then Some \<lparr>ownership = own, declared_schema = None\<rparr> else m t)"
  unfolding declare_types_def by (induction ts arbitrary: m) auto

lemma pin_schemas_apply:
  "pin_schemas ps m t = (case m t of None \<Rightarrow> None
     | Some d \<Rightarrow> Some (case map_of (rev ps) t of None \<Rightarrow> d | Some s \<Rightarrow> d\<lparr>declared_schema := Some s\<rparr>))"
proof (induction ps arbitrary: m)
  case Nil
  show ?case by (simp add: pin_schemas_def split: option.split)
next
  case (Cons p ps)
  obtain u s where "p = (u, s)" by fastforce
  then have "pin_schemas (p # ps) m =
      pin_schemas ps (case m u of None \<Rightarrow> m | Some d \<Rightarrow> m(u \<mapsto> d\<lparr>declared_schema := Some s\<rparr>))"
    by (simp add: pin_schemas_def)
  with Cons \<open>p = (u, s)\<close> show ?case
    by (auto simp: map_add_def split: option.splits if_splits)
qed

lemma core_registry_apply:
  "core_registry t =
     (if t \<in> set plugin_event_types
      then Some \<lparr>ownership = PluginOwned, declared_schema = map_of (rev pinned_schemas) t\<rparr>
      else if t \<in> set reserved_event_types
      then Some \<lparr>ownership = CoreOwned, declared_schema = map_of (rev pinned_schemas) t\<rparr>
      else None)"
  unfolding core_registry_def by (auto simp: pin_schemas_apply declare_types_apply split: option.splits)

lemma plugin_reserved_disjoint: "t \<in> set plugin_event_types \<Longrightarrow> t \<notin> set reserved_event_types"
  by (auto simp: plugin_event_types_def reserved_event_types_def)

lemma observation_reserved [simp]:
  "''observation.received'' \<in> set reserved_event_types"
  "''observation.received'' \<notin> set plugin_event_types"
  by (simp_all add: reserved_event_types_def plugin_event_types_def)

lemma pinned_distinct: "map_of (rev pinned_schemas) = map_of pinned_schemas"
  by (rule map_of_rev_distinct) (simp add: pinned_schemas_def)

lemma registry_validate_Inr:
  "registry_validate reg r = Inr u \<longleftrightarrow>
     (\<exists>d. reg (event_type r) = Some d \<and>
        (\<forall>s. declared_schema d = Some s \<longrightarrow> s = payload_schema r))"
  by (auto simp: registry_validate_def split: option.splits if_splits)

lemma matches_pattern_refl: "strip_suffix t ''.*'' = None \<Longrightarrow> matches_pattern t t"
  by (simp add: matches_pattern_def)

lemma matches_pattern_observation [simp]:
  "matches_pattern ''observation.received'' ''observation.received''"
  by (rule matches_pattern_refl) (simp add: strip_suffix_def)

lemma matches_pattern_cases:
  "matches_pattern p t \<longleftrightarrow>
     p = ''*'' \<or> (\<exists>prefix rest. p = prefix @ ''.*'' \<and> t = prefix @ ''.'' @ rest) \<or>
     (p = t \<and> (\<nexists>prefix. p = prefix @ ''.*''))"
proof (cases "strip_suffix p ''.*''")
  case None
  then have "\<nexists>prefix. p = prefix @ ''.*''" by (metis option.distinct(1) strip_suffix_Some)
  with None show ?thesis by (auto simp: matches_pattern_def)
next
  case (Some prefix)
  then have p: "p = prefix @ ''.*''" by simp
  have "matches_pattern p t \<longleftrightarrow> p = ''*'' \<or> (\<exists>rest. t = prefix @ ''.'' @ rest)"
    by (auto simp: matches_pattern_def Some is_some_and_iff starts_with_iff)
  with p show ?thesis by auto
qed

text \<open>The core registry lets a plugin propose an event exactly when the type is known and carries
  the schema the vocabulary pins for it, and either the type is plugin-emittable and one of
  the instance's patterns covers it, or it is an observation and the instance holds the exact
  observation grant; no pattern, wildcards included, opens any other core-owned type.\<close>

theorem authorize_core_iff:
  "registry_authorize core_registry r granted = Inr () \<longleftrightarrow>
     map_of pinned_schemas (event_type r) \<in> {None, Some (payload_schema r)} \<and>
     ((event_type r \<in> set plugin_event_types \<and> (\<exists>p \<in> set granted. matches_pattern p (event_type r))) \<or>
      (event_type r = ''observation.received'' \<and> ''observation.received'' \<in> set granted))"
proof -
  have "registry_authorize core_registry r granted = Inr () \<longleftrightarrow>
      registry_validate core_registry r = Inr () \<and>
      (\<exists>d. core_registry (event_type r) = Some d \<and>
        (ownership d = CoreOwned \<longrightarrow>
           event_type r = ''observation.received'' \<and> ''observation.received'' \<in> set granted) \<and>
        (\<exists>p \<in> set granted. matches_pattern p (event_type r)))"
    by (auto simp: registry_authorize_def Let_def list_ex_iff split: if_splits)
  also have "\<dots> \<longleftrightarrow> map_of pinned_schemas (event_type r) \<in> {None, Some (payload_schema r)} \<and>
     ((event_type r \<in> set plugin_event_types \<and> (\<exists>p \<in> set granted. matches_pattern p (event_type r))) \<or>
      (event_type r = ''observation.received'' \<and> ''observation.received'' \<in> set granted))"
    unfolding registry_validate_Inr core_registry_apply pinned_distinct
    by (cases "map_of pinned_schemas (event_type r)")
      (auto intro: bexI[of _ "''observation.received''"])
  finally show ?thesis .
qed

end
