(* ===== verification/Authority.thy ===== *)
theory Authority
  imports Events
begin

text \<open>
  Activity authority (\<open>authority.rs\<close> of \<open>pluribus-core\<close>): grants, origins, and the decision about a
  capability request. The constraint policy is a capability's own, so it is an argument.
\<close>

type_synonym capability_name = string
type_synonym constraint_set = bytes

record grant =
  capability :: capability_name
  provider :: "principal_ref option"
  constraints :: constraint_set

record audience =
  connector :: principal_ref
  conversation_id :: string
  recipients :: "principal_ref list"

datatype origin_kind = Autonomous | Connector

record origin =
  origin_kind :: origin_kind
  origin_principal :: "principal_ref option"
  origin_connector :: "principal_ref option"
  origin_conversation_id :: "string option"
  source_event_id :: event_id
  trusted :: bool

record delegation =
  delegated_from :: principal_ref
  delegated_to :: principal_ref
  on_behalf_of :: "principal_ref option"
  purpose :: string
  delegation_event_id :: event_id

record authority =
  authority_schema :: string
  the_authority_id :: authority_id
  agent :: principal_ref
  the_origin :: origin
  delegation_chain :: "delegation list"
  grants :: "capability_name \<rightharpoonup> grant list"
  audiences :: "audience list"
  parent_authority :: "authority_id option"
  issued_at_ms :: i64
  expires_at_ms :: "i64 option"
  max_depth :: u32
  current_depth :: u32

datatype denial_reason =
    MissingGrant
  | ConstraintMismatch
  | Expired
  | DepthExceeded
  | PolicyError string

datatype decision = Allow grant | Deny denial_reason

record constraint_policy =
  allows :: "grant \<Rightarrow> bytes \<Rightarrow> string + bool"
  allows_projected :: "grant \<Rightarrow> bytes \<Rightarrow> bytes \<Rightarrow> string + bool"

definition permits :: "authority \<Rightarrow> capability_name \<Rightarrow> bool" where
  "permits a c \<longleftrightarrow> c \<in> dom (grants a)"

definition is_expired_at :: "authority \<Rightarrow> i64 \<Rightarrow> bool" where
  "is_expired_at a now_ms = is_some_and (\<lambda>expiry. expiry \<le> now_ms) (expires_at_ms a)"

definition can_descend :: "authority \<Rightarrow> bool" where
  "can_descend a \<longleftrightarrow> current_depth a < max_depth a"

text \<open>The loop over the grants for the selected provider, with its two accumulators.\<close>

fun decide_grants ::
  "constraint_policy \<Rightarrow> bytes \<Rightarrow> bool \<Rightarrow> string option \<Rightarrow> grant list \<Rightarrow> decision" where
  "decide_grants pol req saw_provider policy_error [] =
     Deny (case policy_error of
         Some e \<Rightarrow> PolicyError e
       | None \<Rightarrow> if saw_provider then ConstraintMismatch else MissingGrant)"
| "decide_grants pol req saw_provider policy_error (g # gs) =
     (case allows pol g req of
         Inr True \<Rightarrow> Allow g
       | Inr False \<Rightarrow> decide_grants pol req True policy_error gs
       | Inl e \<Rightarrow> decide_grants pol req True (Some e) gs)"

definition decide ::
  "authority \<Rightarrow> capability_name \<Rightarrow> principal_ref \<Rightarrow> bytes \<Rightarrow> constraint_policy \<Rightarrow> i64 \<Rightarrow> decision" where
  "decide a c prov req pol now_ms =
     (if is_expired_at a now_ms then Deny Expired
      else if max_depth a < current_depth a then Deny DepthExceeded
      else case grants a c of
          None \<Rightarrow> Deny MissingGrant
        | Some gs \<Rightarrow> decide_grants pol req False None
            (filter (\<lambda>g. is_none_or (\<lambda>v. v = prov) (provider g)) gs))"

section \<open>Facts\<close>

lemma decide_grants_Allow:
  "decide_grants pol req saw err gs = Allow g \<longleftrightarrow> find (\<lambda>g. allows pol g req = Inr True) gs = Some g"
  by (induction pol req saw err gs rule: decide_grants.induct)
    (auto split: sum.splits bool.splits option.splits)

text \<open>The reason given when no grant allows the request: the last policy error, else a mismatch
  if any grant named the provider, else the missing grant.\<close>

lemma decide_grants_Deny:
  assumes "\<forall>g \<in> set gs. allows pol g req \<noteq> Inr True"
  shows "decide_grants pol req saw err gs = Deny (
    case (case rev (filter isl (map (\<lambda>g. allows pol g req) gs)) of e # _ \<Rightarrow> Some (projl e) | [] \<Rightarrow> err) of
      Some e \<Rightarrow> PolicyError e
    | None \<Rightarrow> if saw \<or> gs \<noteq> [] then ConstraintMismatch else MissingGrant)"
  using assms
proof (induction pol req saw err gs rule: decide_grants.induct)
  case (2 pol req saw err g gs)
  show ?case
  proof (cases "allows pol g req")
    case (Inl e)
    with 2 show ?thesis by (auto split: list.splits)
  next
    case (Inr b)
    with 2 show ?thesis by (cases b) (auto split: list.splits option.splits)
  qed
qed simp

text \<open>C15: A capability request is allowed exactly when the authority is neither expired nor beyond its
  depth, the capability has grants, and the grant returned is the first of them that is
  open to the selected provider and whose constraints the policy accepts; every policy error
  counts as a refusal. The audiences of the authority play no part: with any others the decision is the same.\<close>

theorem decide_Allow_iff:
  "(decide a c prov req pol now_ms = Allow g \<longleftrightarrow>
     \<not> is_expired_at a now_ms \<and> current_depth a \<le> max_depth a \<and>
     (\<exists>gs. grants a c = Some gs \<and>
        find (\<lambda>g. provider g \<in> {None, Some prov} \<and> allows pol g req = Inr True) gs = Some g)) \<and>
   decide (a\<lparr>audiences := au\<rparr>) c prov req pol now_ms = decide a c prov req pol now_ms"
proof -
  have "is_none_or (\<lambda>v. v = prov) (provider g) \<longleftrightarrow> provider g \<in> {None, Some prov}" for g :: grant
    by (cases "provider g") auto
  then have "decide a c prov req pol now_ms = Allow g \<longleftrightarrow>
     \<not> is_expired_at a now_ms \<and> current_depth a \<le> max_depth a \<and>
     (\<exists>gs. grants a c = Some gs \<and>
        find (\<lambda>g. provider g \<in> {None, Some prov} \<and> allows pol g req = Inr True) gs = Some g)"
    by (auto simp: decide_def decide_grants_Allow find_filter_and not_less split: option.splits)
  moreover have "decide (a\<lparr>audiences := au\<rparr>) c prov req pol now_ms = decide a c prov req pol now_ms"
    by (simp add: decide_def is_expired_at_def)
  ultimately show ?thesis by blast
qed

end
