(* ===== verification/Dispatch.thy ===== *)
theory Dispatch
  imports Paging Registry Authority Manifest
begin

text \<open>
  The router (\<open>dispatch.rs\<close> of \<open>pluribus-cognition\<close>): which instances receive a committed event, how a capability request
  is gated by an authority, and the events the host itself records about attempts and failures. The event store is a record of
  operations on a state; the router's own mutable state, the dispatch projection, is passed and returned. A loop
  over pages is the \<open>page_loop\<close> of \<open>Paging\<close>, so an operation that reads the log is partial: \<open>None\<close> means that it does not
  return. The projection, the admission of attempts and the recovery of lost sessions are in \<open>Attempts\<close>.
\<close>

section \<open>Subscriptions\<close>

record subscriptions =
  sub_idempotency :: "(string, string) btree"
  whole_stream :: bool
  sub_event_types :: "string list"
  sub_capabilities :: "string list"
  sub_models :: "string list"
  sub_bindings :: "(string, (string, constraint_binding) btree) btree"

definition idempotency_text :: "idempotency \<Rightarrow> string" where
  "idempotency_text i = (case i of Inherent \<Rightarrow> ''inherent'' | Keyed \<Rightarrow> ''keyed'' | NonIdempotent \<Rightarrow> ''non-idempotent'')"

definition from_manifest :: "component_manifest \<Rightarrow> string list \<Rightarrow> subscriptions" where
  "from_manifest m ms = \<lparr>
     sub_idempotency = btree_of (map (\<lambda>p. (pc_capability p, idempotency_text (pc_idempotency p))) (provides m)),
     whole_stream = subscribes_to_stream m,
     sub_event_types = filter (\<lambda>pattern. pattern \<noteq> ''*'') (subscribes m),
     sub_capabilities = map pc_capability (provides m),
     sub_models = ms,
     sub_bindings = btree_of (map (\<lambda>p. (pc_capability p, constraint_bindings p)) (provides m))\<rparr>"

text \<open>The payload of an event as JSON; a blob has none.\<close>

definition payload_json :: "serde \<Rightarrow> committed_event \<Rightarrow> json option" where
  "payload_json sd e = (case payload (request e) of
       CanonicalJson bs \<Rightarrow> ok_opt (from_slice sd bs)
     | Blob _ \<Rightarrow> None)"

definition payload_field :: "serde \<Rightarrow> committed_event \<Rightarrow> string \<Rightarrow> string option" where
  "payload_field sd e field = Option.bind (payload_json sd e) (\<lambda>v. Option.bind (json_get v field) as_str)"

definition number_field :: "serde \<Rightarrow> committed_event \<Rightarrow> string \<Rightarrow> i64 option" where
  "number_field sd e field = Option.bind (payload_json sd e) (\<lambda>v. Option.bind (json_get v field) as_i64)"

definition accepts :: "serde \<Rightarrow> subscriptions \<Rightarrow> committed_event \<Rightarrow> bool" where
  "accepts sd sub e =
     (if whole_stream sub then True
      else if list_ex (\<lambda>pattern. matches_pattern pattern (event_type (request e))) (sub_event_types sub) then True
      else if event_type (request e) = ''capability.requested''
      then is_some_and (\<lambda>name. List.member (sub_capabilities sub) name) (payload_field sd e ''capability'')
      else if event_type (request e) = ''model.requested''
      then is_some_and (\<lambda>name. List.member (sub_models sub) name) (payload_field sd e ''model'')
      else False)"

record registration =
  instance_id :: string
  reg_subscriptions :: subscriptions

section \<open>Projected constraints\<close>

fun project_parts :: "serde \<Rightarrow> json \<Rightarrow> constraint_part list \<Rightarrow> string \<Rightarrow> string option" where
  "project_parts sd req [] selector = Some selector"
| "project_parts sd req (p # ps) selector = (case json_pointer sd req (part_pointer p) of
       None \<Rightarrow> if part_optional p then project_parts sd req ps selector else None
     | Some (JString v) \<Rightarrow> project_parts sd req ps (selector @ part_prefix p @ v)
     | Some (JNumber v) \<Rightarrow> project_parts sd req ps (selector @ part_prefix p @ number_text sd v)
     | Some _ \<Rightarrow> None)"

fun project_selectors ::
  "serde \<Rightarrow> (string, json) btree \<Rightarrow> json \<Rightarrow> (string \<times> constraint_binding) list \<Rightarrow> (string, json) btree \<Rightarrow> (string, json) btree option" where
  "project_selectors sd cs req [] selectors = Some selectors"
| "project_selectors sd cs req ((k, b) # bs) selectors =
     (if btree_get cs k = None then (if binding_required b then None else project_selectors sd cs req bs selectors)
      else if binding_parts b = [] then None
      else case project_parts sd req (binding_parts b) [] of
          None \<Rightarrow> None
        | Some selector \<Rightarrow> project_selectors sd cs req bs (btree_insert k (JString selector) selectors))"

definition projected_allows ::
  "serde \<Rightarrow> constraint_policy \<Rightarrow> (string, constraint_binding) btree option \<Rightarrow> grant \<Rightarrow> bytes \<Rightarrow> string + bool" where
  "projected_allows sd pol bindings g req =
     rbind (from_slice sd (constraints g)) (\<lambda>cs.
     rbind (ok_or ''constraints must be an object'' (as_object cs)) (\<lambda>cs.
     rbind (from_slice sd req) (\<lambda>v.
       case project_selectors sd cs v (case bindings of None \<Rightarrow> [] | Some bs \<Rightarrow> bs) [] of
         None \<Rightarrow> Inr False
       | Some selectors \<Rightarrow> rbind (to_vec sd (JObject selectors)) (\<lambda>bs. allows_projected pol g req bs))))"

definition projected_policy :: "serde \<Rightarrow> constraint_policy \<Rightarrow> (string, constraint_binding) btree option \<Rightarrow> constraint_policy" where
  "projected_policy sd pol bindings = \<lparr>allows = projected_allows sd pol bindings,
     allows_projected = (\<lambda>g req _. projected_allows sd pol bindings g req)\<rparr>"

section \<open>The router\<close>

datatype routed = Deliver string | NoProvider string | Denied string

datatype router_error = UnknownInstance string | RouterStorage string

definition router_error_display :: "router_error \<Rightarrow> string" where
  "router_error_display e = (case e of
       UnknownInstance i \<Rightarrow> ''unknown instance: '' @ i
     | RouterStorage m \<Rightarrow> ''router storage failed: '' @ m)"

record router =
  router_stream :: stream_id
  router_agent :: principal_ref
  registrations :: "registration list"
  router_registry :: event_type_registry
  router_constraints :: constraint_policy

definition new_router :: "stream_id \<Rightarrow> principal_ref \<Rightarrow> event_type_registry \<Rightarrow> constraint_policy \<Rightarrow> router" where
  "new_router st ag reg pol = \<lparr>router_stream = st, router_agent = ag, registrations = [], router_registry = reg,
     router_constraints = pol\<rparr>"

definition unregister :: "router \<Rightarrow> string \<Rightarrow> router" where
  "unregister rt i = rt\<lparr>registrations := filter (\<lambda>x. instance_id x \<noteq> i) (registrations rt)\<rparr>"

definition register :: "router \<Rightarrow> registration \<Rightarrow> router" where
  "register rt r = rt\<lparr>registrations := filter (\<lambda>x. instance_id x \<noteq> instance_id r) (registrations rt) @ [r]\<rparr>"

definition find_registration :: "router \<Rightarrow> string \<Rightarrow> registration option" where
  "find_registration rt i = find (\<lambda>r. instance_id r = i) (registrations rt)"

definition owns_timer :: "serde \<Rightarrow> 's event_ops \<Rightarrow> router \<Rightarrow> 's \<Rightarrow> string \<Rightarrow> committed_event \<Rightarrow> bool" where
  "owns_timer sd ops rt s i e =
     (if event_type (request e) \<noteq> ''timer.fired'' then True
      else case payload_field sd e ''requestEventId'' of
          None \<Rightarrow> False
        | Some eid \<Rightarrow>
          is_some_and (\<lambda>r. stream_id (request r) = router_stream rt \<and> event_type (request r) = ''timer.set'' \<and>
              pr_id (actor (request r)) = i)
            (Option.bind (ok_opt (op_get ops s eid)) (\<lambda>x. x)))"

definition event_recipients :: "serde \<Rightarrow> 's event_ops \<Rightarrow> router \<Rightarrow> 's \<Rightarrow> committed_event \<Rightarrow> string list" where
  "event_recipients sd ops rt s e =
     map instance_id (filter (\<lambda>r. accepts sd (reg_subscriptions r) e \<and> owns_timer sd ops rt s (instance_id r) e) (registrations rt))"

definition router_storage :: "append_error \<Rightarrow> router_error" where
  "router_storage e = RouterStorage (append_error_display e)"

text \<open>Polling: the types an instance can receive, and the loop that gathers at most \<open>limit\<close> events.\<close>

definition polled_types :: "subscriptions \<Rightarrow> string list" where
  "polled_types sub = sub_event_types sub @
     (if sub_capabilities sub \<noteq> [] then [''capability.requested''] else []) @
     (if sub_models sub \<noteq> [] then [''model.requested''] else [])"

definition poll_event ::
  "serde \<Rightarrow> 's event_ops \<Rightarrow> router \<Rightarrow> 's \<Rightarrow> registration \<Rightarrow> nat \<Rightarrow> committed_event \<Rightarrow> committed_event list \<Rightarrow>
   (committed_event list, router_error + committed_event list) flow" where
  "poll_event sd ops rt s r limit e matched =
     (if accepts sd (reg_subscriptions r) e \<and> owns_timer sd ops rt s (instance_id r) e
      then let matched = matched @ [e] in if length matched = limit then Return (Inr matched) else Continue matched
      else Continue matched)"

definition poll ::
  "serde \<Rightarrow> 's event_ops \<Rightarrow> router \<Rightarrow> 's \<Rightarrow> string \<Rightarrow> u64 \<Rightarrow> u64 \<Rightarrow> (router_error + committed_event list) option" where
  "poll sd ops rt s i checkpoint limit = (case find_registration rt i of
       None \<Rightarrow> Some (Inl (UnknownInstance i))
     | Some r \<Rightarrow>
       let types = polled_types (reg_subscriptions r);
           wildcard = whole_stream (reg_subscriptions r) \<or> list_ex (\<lambda>pattern. List.member pattern (CHR ''*'')) types
       in if \<not> wildcard \<and> types = [] then Some (Inr [])
          else if limit = 0 then Some (Inr [])
          else page_loop (\<lambda>after.
                 if wildcard then op_read ops s (router_stream rt) after limit
                 else op_query ops s (router_stream rt) (default_query\<lparr>event_types := types, after_sequence := Some after\<rparr>) limit)
               (\<lambda>e _. Inl (router_storage e)) (over_events (poll_event sd ops rt s r (unat limit))) Inr checkpoint [])"

section \<open>Events the host records\<close>

text \<open>An event of the router's stream by the node, about a source event if there is one.\<close>

definition node_event ::
  "router \<Rightarrow> string \<Rightarrow> string \<Rightarrow> bytes \<Rightarrow> committed_event option \<Rightarrow> string option \<Rightarrow> append_request" where
  "node_event rt ty sch bs source key = \<lparr>stream_id = router_stream rt, stream_kind = AgentStream, observed_at_ms = None,
     event_type = ty, payload_schema = sch, payload = CanonicalJson bs,
     actor = new_principal Node (pr_id (router_agent rt)),
     authority_id = Option.bind source (\<lambda>e. authority_id (request e)),
     activity_id = Option.bind source (\<lambda>e. activity_id (request e)),
     correlation_id = Option.bind source (\<lambda>e. correlation_id (request e)),
     causation_id = map_option event_id source, deduplication_key = key\<rparr>"

definition router_append :: "'s event_ops \<Rightarrow> 's \<Rightarrow> router_error + append_request \<Rightarrow> 's \<times> (router_error + committed_event)" where
  "router_append ops s r = (case r of
       Inl e \<Rightarrow> (s, Inl e)
     | Inr r \<Rightarrow> let (s, x) = op_append ops s r in (s, map_err router_storage x))"

definition written :: "serde \<Rightarrow> json \<Rightarrow> router_error + bytes" where
  "written sd v = map_err RouterStorage (to_vec sd v)"

definition registered :: "router \<Rightarrow> append_request \<Rightarrow> router_error + append_request" where
  "registered rt r = rbind (map_err (\<lambda>e. RouterStorage (registry_error_display e)) (registry_validate (router_registry rt) r)) (\<lambda>_. Inr r)"

definition decision_payload :: "committed_event \<Rightarrow> string \<Rightarrow> routed \<Rightarrow> json" where
  "decision_payload e cap rd =
     (let (allowed, reason) = (case rd of
          Deliver _ \<Rightarrow> (True, JNull)
        | NoProvider reason \<Rightarrow> (False, JString reason)
        | Denied reason \<Rightarrow> (False, JString reason))
      in json_object [(''capability'', JString cap), (''allowed'', JBool allowed),
           (''provider'', case rd of Deliver i \<Rightarrow> JString i | _ \<Rightarrow> JNull), (''reason'', reason),
           (''requestEventId'', JString (event_id e))])"

definition decision_request :: "serde \<Rightarrow> router \<Rightarrow> committed_event \<Rightarrow> string \<Rightarrow> routed \<Rightarrow> router_error + append_request" where
  "decision_request sd rt e cap rd =
     rbind (written sd (decision_payload e cap rd)) (\<lambda>bs.
       registered rt (node_event rt ''policy.decision'' ''pluribus.policy-decision/1'' bs (Some e) (Some (''policy:'' @ event_id e))))"

definition append_decision ::
  "serde \<Rightarrow> 's event_ops \<Rightarrow> router \<Rightarrow> 's \<Rightarrow> committed_event \<Rightarrow> string \<Rightarrow> routed \<Rightarrow> 's \<times> (router_error + unit)" where
  "append_decision sd ops rt s e cap rd =
     (let (s, x) = router_append ops s (decision_request sd rt e cap rd) in (s, rbind x (\<lambda>_. Inr ())))"

definition denial_text :: "denial_reason \<Rightarrow> string" where
  "denial_text r = (case r of
       MissingGrant \<Rightarrow> ''no grant for this capability''
     | ConstraintMismatch \<Rightarrow> ''constraints reject the request''
     | Expired \<Rightarrow> ''authority expired''
     | DepthExceeded \<Rightarrow> ''recursion depth exhausted''
     | PolicyError m \<Rightarrow> ''policy error: '' @ m)"

definition request_arguments :: "serde \<Rightarrow> committed_event \<Rightarrow> json" where
  "request_arguments sd e = (case payload_json sd e of None \<Rightarrow> JNull | Some v \<Rightarrow> json_index v ''arguments'')"

text \<open>The decision about a request for a capability: one provider, and an authority that allows it.\<close>

definition route_decision :: "serde \<Rightarrow> router \<Rightarrow> committed_event \<Rightarrow> authority \<Rightarrow> i64 \<Rightarrow> string \<Rightarrow> routed" where
  "route_decision sd rt e auth now cap =
     (case filter (\<lambda>r. List.member (sub_capabilities (reg_subscriptions r)) cap) (registrations rt) of
        [] \<Rightarrow> NoProvider (''no instance provides '' @ cap)
      | [r] \<Rightarrow>
        let policy = projected_policy sd (router_constraints rt) (btree_get (sub_bindings (reg_subscriptions r)) cap)
        in (case decide auth cap (new_principal Component (instance_id r)) (value_text sd (request_arguments sd e)) policy now of
              Allow _ \<Rightarrow> Deliver (instance_id r)
            | Deny reason \<Rightarrow> Denied (denial_text reason))
      | _ \<Rightarrow> NoProvider (''multiple providers for '' @ cap))"

definition route_request ::
  "serde \<Rightarrow> 's event_ops \<Rightarrow> router \<Rightarrow> 's \<Rightarrow> committed_event \<Rightarrow> authority \<Rightarrow> i64 \<Rightarrow> 's \<times> (router_error + routed)" where
  "route_request sd ops rt s e auth now = (case payload_field sd e ''capability'' of
       None \<Rightarrow> (s, Inr (NoProvider ''request has no capability name''))
     | Some cap \<Rightarrow>
       let rd = route_decision sd rt e auth now cap; (s, x) = append_decision sd ops rt s e cap rd
       in (s, rbind x (\<lambda>_. Inr rd)))"

definition append_denial :: "serde \<Rightarrow> 's event_ops \<Rightarrow> router \<Rightarrow> 's \<Rightarrow> committed_event \<Rightarrow> string \<Rightarrow> 's \<times> (router_error + committed_event)" where
  "append_denial sd ops rt s e reason =
     router_append ops s (rbind (written sd (json_object [(''requestEventId'', JString (event_id e)), (''reason'', JString reason)])) (\<lambda>bs.
       Inr (node_event rt ''capability.denied'' ''pluribus.capability-denied/1'' bs (Some e) (Some (''denied:'' @ event_id e)))))"

definition last_event :: "committed_event list \<Rightarrow> committed_event option" where
  "last_event batch = (if batch = [] then None else Some (last batch))"

definition first_event :: "committed_event list \<Rightarrow> committed_event option" where
  "first_event batch = (case batch of [] \<Rightarrow> None | e # _ \<Rightarrow> Some e)"

definition append_component_failure ::
  "serde \<Rightarrow> 's event_ops \<Rightarrow> router \<Rightarrow> 's \<Rightarrow> string \<Rightarrow> committed_event list \<Rightarrow> string \<Rightarrow> 's \<times> (router_error + committed_event)" where
  "append_component_failure sd ops rt s i batch reason =
     router_append ops s (rbind (written sd (json_object [(''instanceId'', JString i), (''reason'', JString reason),
         (''deliveredFrom'', json_opt (\<lambda>e. json_u64 (sequence e)) (first_event batch)),
         (''deliveredThrough'', json_opt (\<lambda>e. json_u64 (sequence e)) (last_event batch))])) (\<lambda>bs.
       Inr (node_event rt ''component.failed'' ''pluribus.component-failed/1'' bs (last_event batch)
         (map_option (\<lambda>e. ''component-failed:'' @ i @ '':'' @ show_u64 (sequence e)) (last_event batch)))))"

definition append_health :: "serde \<Rightarrow> 's event_ops \<Rightarrow> router \<Rightarrow> 's \<Rightarrow> string \<Rightarrow> json \<Rightarrow> 's \<times> (router_error + committed_event)" where
  "append_health sd ops rt s kind v =
     router_append ops s (rbind (written sd v) (\<lambda>bs. Inr (node_event rt kind ''pluribus.component-health/1'' bs None None)))"

text \<open>An event about an attempt, with a deduplication key.\<close>

definition attempt_request ::
  "serde \<Rightarrow> router \<Rightarrow> committed_event \<Rightarrow> string \<Rightarrow> json \<Rightarrow> string \<Rightarrow> router_error + append_request" where
  "attempt_request sd rt source kind v key =
     rbind (written sd v) (\<lambda>bs.
       registered rt (node_event rt kind
         (if starts_with kind ''activity.'' then ''pluribus.activity-attempt/1'' else ''pluribus.activity-failure/1'')
         bs (Some source) (Some key)))"

definition attempt_event ::
  "serde \<Rightarrow> 's event_ops \<Rightarrow> router \<Rightarrow> 's \<Rightarrow> committed_event \<Rightarrow> string \<Rightarrow> json \<Rightarrow> string \<Rightarrow> 's \<times> (router_error + committed_event)" where
  "attempt_event sd ops rt s source kind v key = router_append ops s (attempt_request sd rt source kind v key)"

end
