(* ===== verification/Attempts.thy ===== *)
theory Attempts
  imports Dispatch
begin

text \<open>
  The second half of the router (\<open>dispatch.rs\<close>): the projection that finds results and the current revision of a
  job, the admission of an attempt before it may have an effect, deadlines, cancellation, lost
  sessions, and the event that defers work after a resource is exhausted.
\<close>

section \<open>The dispatch projection\<close>

record dispatch_projection =
  through :: u64
  results :: "string \<rightharpoonup> event_id"
  jobs :: "string \<times> string \<rightharpoonup> i64 \<times> string"
  observations :: "string \<rightharpoonup> string set"

definition empty_projection :: dispatch_projection where
  "empty_projection = \<lparr>through = 0, results = Map.empty, jobs = Map.empty, observations = Map.empty\<rparr>"

definition projected_types :: "string list" where
  "projected_types = [''cognition.checkpoint'', ''cognition.job-updated'', ''cognition.observation-associated'',
     ''code.completed'', ''code.failed'', ''code.yielded'', ''model.completed'', ''model.failed'', ''capability.completed'',
     ''capability.failed'', ''capability.denied'', ''capability.timed-out'', ''capability.cancelled'']"

definition update_job :: "dispatch_projection \<Rightarrow> string \<Rightarrow> string \<Rightarrow> json \<Rightarrow> dispatch_projection" where
  "update_job p who i job = p\<lparr>jobs := (jobs p)((who, i) \<mapsto>
     (case as_i64 (json_index job ''revision'') of None \<Rightarrow> -1 | Some n \<Rightarrow> n,
      case as_str (json_index job ''status'') of None \<Rightarrow> [] | Some t \<Rightarrow> t))\<rparr>"

definition update_observation :: "dispatch_projection \<Rightarrow> string \<Rightarrow> string \<Rightarrow> json \<Rightarrow> dispatch_projection" where
  "update_observation p who i ob =
     (let pending = (case observations p who of None \<Rightarrow> {} | Some x \<Rightarrow> x)
      in p\<lparr>observations := (observations p)(who \<mapsto>
           (if json_index ob ''status'' = JString ''pending'' then insert i pending else pending - {i}))\<rparr>)"

definition update_cognition :: "serde \<Rightarrow> dispatch_projection \<Rightarrow> committed_event \<Rightarrow> router_error + dispatch_projection" where
  "update_cognition sd p e = (case payload (request e) of
       Blob _ \<Rightarrow> Inr p
     | CanonicalJson bs \<Rightarrow>
       rbind (map_err RouterStorage (from_slice sd bs)) (\<lambda>v.
         let who = pr_id (actor (request e)) in
         if pr_kind (actor (request e)) \<noteq> Component then Inr p
         else if event_type (request e) = ''cognition.job-updated''
         then (case as_str (json_index (json_index v ''job'') ''id'') of
                 None \<Rightarrow> Inr p
               | Some i \<Rightarrow> Inr (update_job p who i (json_index v ''job'')))
         else if event_type (request e) = ''cognition.observation-associated''
         then (case as_str (json_index (json_index v ''observation'') ''id'') of
                 None \<Rightarrow> Inr p
               | Some i \<Rightarrow> Inr (update_observation p who i (json_index v ''observation'')))
         else Inr p))"

definition or_insert :: "('k \<rightharpoonup> 'v) \<Rightarrow> 'k \<Rightarrow> 'v \<Rightarrow> ('k \<rightharpoonup> 'v)" where
  "or_insert m k v = (case m k of None \<Rightarrow> m(k \<mapsto> v) | Some _ \<Rightarrow> m)"

definition record_result :: "serde \<Rightarrow> dispatch_projection \<Rightarrow> committed_event \<Rightarrow> dispatch_projection" where
  "record_result sd p e =
     (let p = (case causation_id (request e) of None \<Rightarrow> p | Some r \<Rightarrow> p\<lparr>results := or_insert (results p) r (event_id e)\<rparr>)
      in case payload_field sd e ''requestEventId'' of
           None \<Rightarrow> p
         | Some r \<Rightarrow> p\<lparr>results := or_insert (results p) r (event_id e)\<rparr>)"

text \<open>One event of a refresh. The sequence is taken over before the event is read, so an unreadable event
  is reported once and then skipped.\<close>

definition refresh_event ::
  "serde \<Rightarrow> committed_event \<Rightarrow> dispatch_projection \<Rightarrow>
   (dispatch_projection, dispatch_projection \<times> (router_error + unit)) flow" where
  "refresh_event sd e p =
     (let p = p\<lparr>through := sequence e\<rparr> in
      if List.member [''cognition.checkpoint'', ''cognition.job-updated'', ''cognition.observation-associated''] (event_type (request e))
      then (case update_cognition sd p e of Inl err \<Rightarrow> Return (p, Inl err) | Inr p \<Rightarrow> Continue p)
      else Continue (record_result sd p e))"

definition refresh ::
  "serde \<Rightarrow> 's event_ops \<Rightarrow> 's \<Rightarrow> stream_id \<Rightarrow> u64 \<Rightarrow> dispatch_projection \<Rightarrow> (dispatch_projection \<times> (router_error + unit)) option" where
  "refresh sd ops s stream page_size p =
     page_loop (\<lambda>after. op_query ops s stream (default_query\<lparr>event_types := projected_types, after_sequence := Some after\<rparr>) (max page_size 1))
       (\<lambda>e p. (p, Inl (router_storage e))) (over_events (refresh_event sd)) (\<lambda>p. (p, Inr ())) (through p) p"

definition result_for ::
  "serde \<Rightarrow> 's event_ops \<Rightarrow> router \<Rightarrow> 's \<Rightarrow> dispatch_projection \<Rightarrow> event_id \<Rightarrow>
   (dispatch_projection \<times> (router_error + committed_event option)) option" where
  "result_for sd ops rt s p i = map_option (\<lambda>(p, r).
     (p, rbind r (\<lambda>_. case results p i of
          None \<Rightarrow> Inr None
        | Some j \<Rightarrow> map_err router_storage (op_get ops s j)))) (refresh sd ops s (router_stream rt) 1000 p)"

text \<open>The loop over the whole-stream subscribers.\<close>

fun current_in :: "dispatch_projection \<Rightarrow> string \<Rightarrow> i64 \<Rightarrow> registration list \<Rightarrow> bool" where
  "current_in p job rev_no [] = True"
| "current_in p job rev_no (r # rs) =
     (if is_some_and (\<lambda>pending. pending \<noteq> {}) (observations p (instance_id r)) then False
      else case jobs p (instance_id r, job) of
          Some (n, status) \<Rightarrow> n = rev_no \<and> \<not> List.member [''cancelled'', ''waiting-input''] status
        | None \<Rightarrow> current_in p job rev_no rs)"

definition revision_current ::
  "serde \<Rightarrow> 's event_ops \<Rightarrow> router \<Rightarrow> 's \<Rightarrow> dispatch_projection \<Rightarrow> committed_event \<Rightarrow>
   (dispatch_projection \<times> (router_error + bool)) option" where
  "revision_current sd ops rt s p e = (case payload_field sd e ''jobId'' of
       None \<Rightarrow> Some (p, Inr True)
     | Some job \<Rightarrow>
       (case number_field sd e ''revision'' of
          None \<Rightarrow> Some (p, Inr False)
        | Some n \<Rightarrow> map_option (\<lambda>(p, r). (p, rbind r (\<lambda>_.
             Inr (current_in p job n (filter (\<lambda>r. whole_stream (reg_subscriptions r)) (registrations rt))))))
            (refresh sd ops s (router_stream rt) 1000 p)))"

section \<open>Deadlines and cancellation\<close>

definition json_text :: "string option \<Rightarrow> json" where
  "json_text = json_opt JString"

definition expired ::
  "serde \<Rightarrow> 's event_ops \<Rightarrow> router \<Rightarrow> 's \<Rightarrow> committed_event \<Rightarrow> i64 \<Rightarrow> 's \<times> (router_error + bool)" where
  "expired sd ops rt s e now =
     (if is_none_or (\<lambda>deadline. now < deadline) (number_field sd e ''deadlineAtMs'') then (s, Inr False)
      else
        let kind = (if event_type (request e) = ''capability.requested'' then Some ''capability.timed-out''
                    else if event_type (request e) = ''model.requested'' then Some ''model.failed''
                    else if event_type (request e) = ''code.evaluate-requested'' then Some ''code.failed''
                    else None)
        in case kind of
             None \<Rightarrow> (s, Inr False)
           | Some kind \<Rightarrow>
             let (s, x) = attempt_event sd ops rt s e kind (json_object [(''requestEventId'', JString (event_id e)),
                   (''call_id'', json_text (payload_field sd e ''call_id'')), (''sessionId'', json_text (payload_field sd e ''sessionId'')),
                   (''code'', JString ''deadline-exceeded''), (''reason'', JString ''request deadline expired before admission'')])
                   (''expired:'' @ event_id e)
             in (s, rbind x (\<lambda>_. Inr True)))"

definition reject_stale_code :: "serde \<Rightarrow> 's event_ops \<Rightarrow> router \<Rightarrow> 's \<Rightarrow> committed_event \<Rightarrow> 's \<times> (router_error + unit)" where
  "reject_stale_code sd ops rt s e =
     (let (s, x) = attempt_event sd ops rt s e ''code.failed'' (json_object [(''requestEventId'', JString (event_id e)),
           (''sessionId'', json_text (payload_field sd e ''sessionId'')),
           (''reason'', JString ''job revision changed before cell admission'')]) (''stale:'' @ event_id e)
      in (s, rbind x (\<lambda>_. Inr ())))"

definition cancel_kind :: "committed_event \<Rightarrow> string option" where
  "cancel_kind e =
     (if event_type (request e) = ''capability.requested'' then Some ''capability.cancelled''
      else if event_type (request e) = ''model.requested'' then Some ''model.failed''
      else if event_type (request e) = ''code.evaluate-requested'' \<or> event_type (request e) = ''code.resumed'' then Some ''code.failed''
      else None)"

definition cancel_attempt ::
  "serde \<Rightarrow> 's event_ops \<Rightarrow> router \<Rightarrow> 's \<Rightarrow> dispatch_projection \<Rightarrow> committed_event \<Rightarrow>
   ('s \<times> dispatch_projection \<times> (router_error + unit)) option" where
  "cancel_attempt sd ops rt s p e = (case cancel_kind e of
       None \<Rightarrow> Some (s, p, Inr ())
     | Some kind \<Rightarrow> map_option (\<lambda>(p, found). case found of
           Inl err \<Rightarrow> (s, p, Inl err)
         | Inr (Some _) \<Rightarrow> (s, p, Inr ())
         | Inr None \<Rightarrow>
           let (s, x) = attempt_event sd ops rt s e kind (json_object [(''requestEventId'', JString (event_id e)),
                 (''call_id'', json_text (payload_field sd e ''call_id'')), (''sessionId'', json_text (payload_field sd e ''sessionId'')),
                 (''code'', JString ''cancelled''), (''outcome'', JString ''unknown''),
                 (''reason'', JString ''activity cancelled; effects may have occurred; reconcile before retrying'')])
                 (''cancelled:'' @ event_id e)
           in (s, p, rbind x (\<lambda>_. Inr ())))
         (result_for sd ops rt s p (event_id e)))"

section \<open>Lost sessions\<close>

definition session_event ::
  "serde \<Rightarrow> string \<Rightarrow> committed_event \<Rightarrow> (string, committed_event) btree \<Rightarrow>
   ((string, committed_event) btree, router_error + (string, committed_event) btree) flow" where
  "session_event sd prov e pending = Continue (case payload_field sd e ''sessionId'' of
       None \<Rightarrow> pending
     | Some session \<Rightarrow>
       if event_type (request e) = ''code.yielded''
       then (if pr_id (actor (request e)) = prov then btree_insert session e pending else pending)
       else btree_remove session pending)"

definition batch_session :: "serde \<Rightarrow> committed_event \<Rightarrow> (string, committed_event) btree \<Rightarrow> (string, committed_event) btree" where
  "batch_session sd e pending =
     (if event_type (request e) = ''code.evaluate-requested'' \<or> event_type (request e) = ''code.resumed''
      then btree_insert (case payload_field sd e ''sessionId'' of None \<Rightarrow> ''default'' | Some session \<Rightarrow> session) e pending
      else pending)"

definition session_failure :: "string \<Rightarrow> committed_event \<Rightarrow> json option \<Rightarrow> json" where
  "session_failure session source resource_error = json_object ([(''requestEventId'', JString (event_id source)),
     (''sessionId'', JString session), (''code'', JString ''outcome-unknown''),
     (''reason'', JString ''session was lost after a component trap; reconcile effects before retrying'')] @
     (case resource_error of
        None \<Rightarrow> []
      | Some v \<Rightarrow> [(''resourceError'', v), (''effectStatus'', JString ''outcome-unknown'')]))"

primrec fail_pending ::
  "serde \<Rightarrow> 's event_ops \<Rightarrow> router \<Rightarrow> json option \<Rightarrow> 's \<Rightarrow> (string \<times> committed_event) list \<Rightarrow> 's \<times> (router_error + unit)" where
  "fail_pending sd ops rt err s [] = (s, Inr ())"
| "fail_pending sd ops rt err s (p # ps) =
     (let (session, source) = p;
          (s, x) = attempt_event sd ops rt s source ''code.failed'' (session_failure session source err)
            (''session-lost:'' @ event_id source)
      in case x of Inl e \<Rightarrow> (s, Inl e) | Inr _ \<Rightarrow> fail_pending sd ops rt err s ps)"

definition session_types :: "string list" where
  "session_types = [''code.yielded'', ''code.completed'', ''code.failed'']"

definition fail_sessions_with_resource ::
  "serde \<Rightarrow> 's event_ops \<Rightarrow> router \<Rightarrow> 's \<Rightarrow> string \<Rightarrow> committed_event list \<Rightarrow> json option \<Rightarrow> ('s \<times> (router_error + unit)) option" where
  "fail_sessions_with_resource sd ops rt s prov batch err =
     map_option (\<lambda>found. case found of
         Inl e \<Rightarrow> (s, Inl e)
       | Inr pending \<Rightarrow> fail_pending sd ops rt err s (fold (batch_session sd) batch pending))
     (page_loop (\<lambda>after. op_query ops s (router_stream rt) (default_query\<lparr>event_types := session_types, after_sequence := Some after\<rparr>) 100)
       (\<lambda>e _. Inl (router_storage e)) (over_events (session_event sd prov)) Inr 0 [])"

definition fail_sessions ::
  "serde \<Rightarrow> 's event_ops \<Rightarrow> router \<Rightarrow> 's \<Rightarrow> string \<Rightarrow> committed_event list \<Rightarrow> ('s \<times> (router_error + unit)) option" where
  "fail_sessions sd ops rt s prov batch = fail_sessions_with_resource sd ops rt s prov batch None"

section \<open>Admission\<close>

definition idempotency_of :: "serde \<Rightarrow> router \<Rightarrow> committed_event \<Rightarrow> string \<Rightarrow> string option" where
  "idempotency_of sd rt e prov = Option.bind (find_registration rt prov) (\<lambda>r.
     Option.bind (payload_field sd e ''capability'') (\<lambda>cap. btree_get (sub_idempotency (reg_subscriptions r)) cap))"

text \<open>Whether an attempt at the request is on record. The page is searched before the next one is fetched.\<close>

definition attempt_found :: "committed_event \<Rightarrow> committed_event list \<Rightarrow> unit \<Rightarrow> (unit, router_error + bool) flow" where
  "attempt_found e page u = (if list_ex (\<lambda>x. causation_id (request x) = Some (event_id e)) page then Return (Inr True) else Continue u)"

definition attempted ::
  "'s event_ops \<Rightarrow> router \<Rightarrow> 's \<Rightarrow> committed_event \<Rightarrow> (router_error + bool) option" where
  "attempted ops rt s e =
     page_loop (\<lambda>after. op_query ops s (router_stream rt) (default_query\<lparr>event_types := [''activity.attempted''], after_sequence := Some after\<rparr>) 100)
       (\<lambda>err _. Inl (router_storage err)) (attempt_found e) (\<lambda>_. Inr False) 0 ()"

definition attempt_key :: "committed_event \<Rightarrow> string" where
  "attempt_key e = ''attempt:'' @ event_id e"

text \<open>A second delivery of an admitted request: safe to repeat when inherently idempotent, otherwise its
  outcome is unknown and it is failed.\<close>

definition readmit ::
  "serde \<Rightarrow> 's event_ops \<Rightarrow> router \<Rightarrow> 's \<Rightarrow> committed_event \<Rightarrow> string \<Rightarrow> 's \<times> (router_error + bool)" where
  "readmit sd ops rt s e prov =
     (if idempotency_of sd rt e prov = Some ''inherent'' then (s, Inr True)
      else
        let (s, x) = attempt_event sd ops rt s e ''activity.unknown'' (json_object [(''requestEventId'', JString (event_id e)),
              (''provider'', JString prov), (''attemptId'', JString (attempt_key e)), (''status'', JString ''unknown'')])
              (''unknown:'' @ event_id e)
        in case x of
             Inl err \<Rightarrow> (s, Inl err)
           | Inr _ \<Rightarrow>
             let kind = (if event_type (request e) = ''model.requested'' then ''model.failed''
                         else if event_type (request e) = ''code.evaluate-requested'' then ''code.failed''
                         else ''capability.failed'');
                 (s, x) = attempt_event sd ops rt s e kind (json_object [(''requestEventId'', JString (event_id e)),
                   (''call_id'', json_text (payload_field sd e ''call_id'')), (''sessionId'', json_text (payload_field sd e ''sessionId'')),
                   (''code'', JString ''outcome-unknown''),
                   (''message'', JString ''admitted attempt has no committed outcome; reconciliation required'')])
                   (''interrupted:'' @ event_id e)
             in (s, rbind x (\<lambda>_. Inr False)))"

definition attempt_payload :: "serde \<Rightarrow> router \<Rightarrow> committed_event \<Rightarrow> string \<Rightarrow> string \<Rightarrow> json" where
  "attempt_payload sd rt e prov claim = json_object [(''admissionClaim'', JString claim), (''requestEventId'', JString (event_id e)),
     (''provider'', JString prov), (''attemptId'', JString (attempt_key e)), (''status'', JString ''running''),
     (''jobId'', json_text (payload_field sd e ''jobId'')), (''revision'', json_opt json_i64 (number_field sd e ''revision'')),
     (''idempotency'', JString (case idempotency_of sd rt e prov of None \<Rightarrow> ''non-idempotent'' | Some c \<Rightarrow> c)),
     (''idempotencyKey'', json_text (deduplication_key (request e))),
     (''deadlineAtMs'', json_opt json_i64 (number_field sd e ''deadlineAtMs'')), (''cancellation'', JString ''not-requested'')]"

text \<open>The claim step on its own, because two hosts may both have found no attempt before either claims.\<close>

definition claim_attempt ::
  "serde \<Rightarrow> 's event_ops \<Rightarrow> router \<Rightarrow> 's \<Rightarrow> committed_event \<Rightarrow> string \<Rightarrow> string \<Rightarrow> 's \<times> (router_error + bool)" where
  "claim_attempt sd ops rt s e prov claim =
     (let (s, x) = attempt_event sd ops rt s e ''activity.attempted'' (attempt_payload sd rt e prov claim) (attempt_key e)
      in (s, rbind x (\<lambda>a. Inr (payload_field sd a ''admissionClaim'' = Some claim))))"

definition admit_attempt ::
  "serde \<Rightarrow> 's event_ops \<Rightarrow> router \<Rightarrow> 's \<Rightarrow> committed_event \<Rightarrow> string \<Rightarrow> string \<Rightarrow> ('s \<times> (router_error + bool)) option" where
  "admit_attempt sd ops rt s e prov claim = map_option (\<lambda>found. case found of
       Inl err \<Rightarrow> (s, Inl err)
     | Inr True \<Rightarrow> readmit sd ops rt s e prov
     | Inr False \<Rightarrow> claim_attempt sd ops rt s e prov claim) (attempted ops rt s e)"

definition decision_about :: "serde \<Rightarrow> event_id \<Rightarrow> string \<Rightarrow> committed_event \<Rightarrow> unit \<Rightarrow> (unit, router_error + bool) flow" where
  "decision_about sd i prov e u =
     (if causation_id (request e) = Some i then Return (Inr (payload_field sd e ''provider'' = Some prov)) else Continue u)"

definition authorized_for ::
  "serde \<Rightarrow> 's event_ops \<Rightarrow> router \<Rightarrow> 's \<Rightarrow> event_id \<Rightarrow> string \<Rightarrow> (router_error + bool) option" where
  "authorized_for sd ops rt s i prov =
     page_loop (\<lambda>after. op_query ops s (router_stream rt) (default_query\<lparr>event_types := [''policy.decision''], after_sequence := Some after\<rparr>) 1000)
       (\<lambda>e _. Inl (router_storage e)) (over_events (decision_about sd i prov)) (\<lambda>_. Inr False) 0 ()"

section \<open>Deferred work\<close>

definition compact_keys :: "string list" where
  "compact_keys = [''provider'', ''externalSenderId'', ''conversationId'', ''jobId'', ''sessionId'', ''rlmSession'', ''call_id'', ''callId'',
     ''requestEventId'', ''revision'']"

definition compact_member :: "json \<Rightarrow> string \<Rightarrow> (string, json) btree \<Rightarrow> (string, json) btree" where
  "compact_member v k m = (case json_get v k of
       Some (JString t) \<Rightarrow> btree_insert k (JString (take_chars 256 t)) m
     | Some (JNumber n) \<Rightarrow> btree_insert k (JNumber n) m
     | Some (JBool b) \<Rightarrow> btree_insert k (JBool b) m
     | _ \<Rightarrow> m)"

definition or_else :: "'a option \<Rightarrow> 'a option \<Rightarrow> 'a option" where
  "or_else a b = (case a of None \<Rightarrow> b | Some _ \<Rightarrow> a)"

definition deferred_message :: "serde \<Rightarrow> json \<Rightarrow> (string \<times> string) option" where
  "deferred_message sd v =
     or_else (map_option (Pair ''text'')
       (or_else (Option.bind (json_pointer sd v ''/message/text'') as_str) (Option.bind (json_get v ''text'') as_str)))
     (map_option (Pair ''caption'')
       (or_else (Option.bind (json_pointer sd v ''/message/caption'') as_str) (Option.bind (json_get v ''caption'') as_str)))"

definition deferred_input :: "serde \<Rightarrow> committed_event \<Rightarrow> json" where
  "deferred_input sd source =
     (let envelope = [(''eventId'', JString (event_id source)), (''eventType'', JString (event_type (request source))),
          (''sequence'', json_u64 (sequence source))]
      in case payload_json sd source of
           None \<Rightarrow> json_object envelope
         | Some v \<Rightarrow>
           let compact = fold (compact_member v) compact_keys [];
               compact = (case deferred_message sd v of
                   None \<Rightarrow> compact
                 | Some (field, message) \<Rightarrow>
                   btree_insert ''source'' (json_object [(''eventId'', JString (event_id source)), (''payloadOmitted'', JBool True)])
                     (btree_insert ''message'' (json_object [(field, JString (take_chars 4096 message))]) compact))
           in json_object (envelope @ [(''payload'', JObject compact)]))"

definition resource_exhaustion_request ::
  "serde \<Rightarrow> router \<Rightarrow> string \<Rightarrow> committed_event \<Rightarrow> u32 \<Rightarrow> json \<Rightarrow> string \<Rightarrow> string \<Rightarrow> string option \<Rightarrow> string option \<Rightarrow>
   router_error + append_request" where
  "resource_exhaustion_request sd rt i source remaining resource effect_status checkpoint_status job session =
     rbind (written sd (json_object [(''instanceId'', JString i), (''requestEventId'', JString (event_id source)),
       (''inputEventId'', JString (event_id source)), (''input'', deferred_input sd source),
       (''jobId'', json_text (or_else job (payload_field sd source ''jobId''))),
       (''sessionId'', json_text (or_else session (payload_field sd source ''sessionId''))),
       (''code'', JString ''resource-exhausted''), (''resource'', resource),
       (''remainingAttempts'', JNumber (Integer (uint remaining))), (''effectStatus'', JString effect_status),
       (''checkpointStatus'', JString checkpoint_status), (''deferred'', JBool True)])) (\<lambda>bs.
     registered rt (node_event rt ''cognition.resource-exhausted'' ''pluribus.cognition-resource-exhausted/1'' bs (Some source)
       (Some (''cognition-resource-exhausted:'' @ i @ '':'' @ event_id source))))"

definition append_resource_exhaustion ::
  "serde \<Rightarrow> 's event_ops \<Rightarrow> router \<Rightarrow> 's \<Rightarrow> string \<Rightarrow> committed_event \<Rightarrow> u32 \<Rightarrow> json \<Rightarrow> string \<Rightarrow> string \<Rightarrow> string option \<Rightarrow> string option \<Rightarrow>
   's \<times> (router_error + committed_event)" where
  "append_resource_exhaustion sd ops rt s i source remaining resource effect_status checkpoint_status job session =
     router_append ops s (resource_exhaustion_request sd rt i source remaining resource effect_status checkpoint_status job session)"

end
