(* ===== verification/Dispatch_Facts.thy ===== *)
theory Dispatch_Facts
  imports Attempts
begin

text \<open>
  What the router guarantees over any event store that keeps the contract of \<open>Event_Store\<close>, and so over the SQLite
  store: its loops end, polling misses nothing, the decision about a request is recorded once and is what
  is read back, an attempt is admitted at most once, and the projection can be refreshed in steps.
\<close>

section \<open>Subscriptions and types\<close>

lemma pattern_without_star:
  assumes "CHR ''*'' \<notin> set pattern" and "matches_pattern pattern t"
  shows "pattern = t"
proof -
  have "strip_suffix pattern ''.*'' = None"
    using assms(1) by (cases "strip_suffix pattern ''.*''") auto
  moreover have "pattern \<noteq> ''*''" using assms(1) by auto
  ultimately show ?thesis using assms(2) by (simp add: matches_pattern_def)
qed

lemma accepts_types:
  assumes "accepts sd sub e" and "\<not> whole_stream sub" and "\<not> list_ex (\<lambda>p. List.member p (CHR ''*'')) (polled_types sub)"
  shows "event_type (request e) \<in> set (polled_types sub)"
proof (cases "list_ex (\<lambda>p. matches_pattern p (event_type (request e))) (sub_event_types sub)")
  case True
  then obtain p where p: "p \<in> set (sub_event_types sub)" "matches_pattern p (event_type (request e))" by (auto simp: list_ex_iff)
  then have "CHR ''*'' \<notin> set p" using assms(3) by (auto simp: list_ex_iff polled_types_def)
  with p pattern_without_star[of p] show ?thesis by (auto simp: polled_types_def)
next
  case False
  with assms(1,2) show ?thesis
    by (auto simp: accepts_def polled_types_def is_some_and_iff split: if_splits)
qed

section \<open>Polling\<close>

lemma over_poll:
  assumes "length m < n"
  shows "flow_end Inr (over_events (poll_event sd ops rt s r n) xs m) =
    Inr (take n (m @ filter (\<lambda>e. accepts sd (reg_subscriptions r) e \<and> owns_timer sd ops rt s (instance_id r) e) xs))"
  using assms
proof (induction xs arbitrary: m)
  case (Cons e xs)
  let ?P = "\<lambda>e. accepts sd (reg_subscriptions r) e \<and> owns_timer sd ops rt s (instance_id r) e"
  have step: "poll_event sd ops rt s r n e m = (if ?P e then if Suc (length m) = n then Return (Inr (m @ [e])) else Continue (m @ [e]) else Continue m)"
    by (simp add: poll_event_def)
  have IH: "flow_end Inr (over_events (poll_event sd ops rt s r n) xs (m @ [e])) = Inr (take n ((m @ [e]) @ filter ?P xs))"
    if "Suc (length m) \<noteq> n" using that Cons.prems by (intro Cons.IH) simp
  show ?case
    using Cons.prems IH Cons.IH[OF Cons.prems] by (cases "?P e"; cases "Suc (length m) = n") (auto simp: step)
qed simp

context event_store
begin

text \<open>The events an instance is due: after its checkpoint, accepted, and not another's timer.\<close>

lemma poll_spec:
  assumes inv: "inv s" and r: "find_registration rt i = Some r"
  shows "poll sd ops rt s i checkpoint limit = Some (Inr (take (unat limit)
    (filter (\<lambda>e. checkpoint < sequence e \<and> accepts sd (reg_subscriptions r) e \<and> owns_timer sd ops rt s i e)
      (stream_log (log s) (router_stream rt)))))"
proof -
  let ?sub = "reg_subscriptions r" and ?log = "stream_log (log s) (router_stream rt)"
  let ?P = "\<lambda>e. accepts sd ?sub e \<and> owns_timer sd ops rt s (instance_id r) e"
  let ?wild = "whole_stream ?sub \<or> list_ex (\<lambda>p. List.member p (CHR ''*'')) (polled_types ?sub)"
  have i: "instance_id r = i" using find_SomeD[OF r[unfolded find_registration_def]] by simp
  have types: "event_type (request e) \<in> set (polled_types ?sub)" if "\<not> ?wild" "accepts sd ?sub e" for e
    using accepts_types[OF that(2)] that(1) by blast
  show ?thesis
  proof (cases "\<not> ?wild \<and> polled_types ?sub = [] \<or> limit = 0")
    case True
    moreover have "filter (\<lambda>e. checkpoint < sequence e \<and> accepts sd ?sub e \<and> owns_timer sd ops rt s i e) ?log = []"
      if "\<not> ?wild" "polled_types ?sub = []" using types that by (auto simp: filter_empty_conv)
    ultimately show ?thesis by (auto simp: poll_def r Let_def)
  next
    case False
    then have n: "limit \<noteq> 0" "0 < unat limit" by (auto simp: unat_gt_0)
    let ?q = "default_query\<lparr>event_types := polled_types ?sub\<rparr>"
    have poll: "poll sd ops rt s i checkpoint limit = page_loop (\<lambda>after. if ?wild then op_read ops s (router_stream rt) after limit
          else op_query ops s (router_stream rt) (?q\<lparr>after_sequence := Some after\<rparr>) limit)
        (\<lambda>e _. Inl (router_storage e)) (over_events (poll_event sd ops rt s r (unat limit))) Inr checkpoint []"
      using False n(1) unfolding poll_def r Let_def option.case by auto
    have wild: "poll sd ops rt s i checkpoint limit = Some (Inr (take (unat limit) (filter ?P (filter (\<lambda>e. checkpoint < sequence e) ?log))))"
      if "?wild"
      unfolding poll if_P[OF that] paged_read[OF inv n(1)] using n(2) by (simp add: over_poll)
    have q: "text_query ?q = None" "before_sequence ?q = None" "\<not> descending ?q" by (simp_all add: default_query_def)
    have narrow: "poll sd ops rt s i checkpoint limit = Some (Inr (take (unat limit) (filter ?P
        (matching (log s) (router_stream rt) (?q\<lparr>after_sequence := Some checkpoint\<rparr>)))))"
      if "\<not> ?wild"
      unfolding poll if_not_P[OF that] paged_query[OF inv q n(1)] using n(2) by (simp add: over_poll)
    have same: "filter ?P (matching (log s) (router_stream rt) (?q\<lparr>after_sequence := Some checkpoint\<rparr>)) =
        filter ?P (filter (\<lambda>e. checkpoint < sequence e) ?log)" if "\<not> ?wild"
      unfolding matching_def filter_filter using types[OF that]
      by (intro filter_cong refl) (auto simp: query_matches_iff default_query_def)
    show ?thesis
      using wild narrow same i by (cases ?wild) (simp_all add: conj_commute conj_left_commute)
  qed
qed

end

section \<open>Searching the log\<close>

lemma over_find:
  assumes "\<And>e. f e u = (if P e then Return (g e) else Continue u)"
  shows "flow_end h (over_events f xs u) = (case find P xs of None \<Rightarrow> h u | Some e \<Rightarrow> g e)"
  by (induction xs) (simp_all add: assms)

lemma matching_types:
  assumes "log_wf es" and "ts \<noteq> []"
  shows "matching es stream (default_query\<lparr>event_types := ts, after_sequence := Some 0\<rparr>) =
    filter (\<lambda>e. event_type (request e) \<in> set ts) (stream_log es stream)"
proof -
  have "0 < sequence e" if "e \<in> set es" for e
    using log_wf_sequence_bounds(1)[OF assms(1) that] by (simp add: word_less_def)
  then show ?thesis
    unfolding matching_def using assms(2) by (intro filter_cong refl) (auto simp: query_matches_iff default_query_def)
qed

lemma find_append: "find P (xs @ ys) = (case find P xs of None \<Rightarrow> find P ys | Some x \<Rightarrow> Some x)"
  by (induction xs) simp_all

lemma stream_log_prefix: "stream_log (es @ new) i = stream_log es i @ stream_log new i"
  by (simp add: stream_log_def)

lemma types_query [simp]:
  "text_query (default_query\<lparr>event_types := ts\<rparr>) = None" "before_sequence (default_query\<lparr>event_types := ts\<rparr>) = None"
  "\<not> descending (default_query\<lparr>event_types := ts\<rparr>)"
  by (simp_all add: default_query_def)

context event_store
begin

lemma paged_types:
  assumes "inv s" and "n \<noteq> 0" and "ts \<noteq> []"
  shows "page_loop (\<lambda>after. op_query ops s stream (default_query\<lparr>event_types := ts, after_sequence := Some after\<rparr>) n)
      fail (over_events f) finish 0 a =
    Some (flow_end finish (over_events f (filter (\<lambda>e. event_type (request e) \<in> set ts) (stream_log (log s) stream)) a))"
  unfolding paged_query[OF assms(1) types_query assms(2)] matching_types[OF wf[OF assms(1)] assms(3)] ..

lemma authorized_spec:
  assumes "inv s"
  shows "authorized_for sd ops rt s i prov = Some (Inr (case find (\<lambda>e. event_type (request e) = ''policy.decision'' \<and> causation_id (request e) = Some i)
      (stream_log (log s) (router_stream rt)) of None \<Rightarrow> False | Some e \<Rightarrow> payload_field sd e ''provider'' = Some prov))"
proof -
  have "flow_end (\<lambda>_. Inr False) (over_events (decision_about sd i prov) xs ()) =
      (case find (\<lambda>e. causation_id (request e) = Some i) xs of None \<Rightarrow> Inr False | Some e \<Rightarrow> Inr (payload_field sd e ''provider'' = Some prov))"
    for xs :: "committed_event list" by (rule over_find) (simp add: decision_about_def)
  then show ?thesis
    unfolding authorized_for_def by (simp add: paged_types[OF assms] find_filter_and split: option.split)
qed

lemma attempted_spec:
  assumes "inv s"
  shows "attempted ops rt s e = Some (Inr (\<exists>x \<in> set (stream_log (log s) (router_stream rt)).
    event_type (request x) = ''activity.attempted'' \<and> causation_id (request x) = Some (event_id e)))"
proof -
  let ?f = "\<lambda>x u. if causation_id (request x) = Some (event_id e) then Return (Inr True :: router_error + bool) else Continue (u :: unit)"
  have "attempt_found e = over_events ?f"
  proof (intro ext)
    fix page u show "attempt_found e page u = over_events ?f page u"
      by (induction page) (auto simp: attempt_found_def)
  qed
  moreover have "flow_end (\<lambda>_. Inr False) (over_events ?f xs ()) =
      (case find (\<lambda>x. causation_id (request x) = Some (event_id e)) xs of None \<Rightarrow> Inr False | Some _ \<Rightarrow> Inr True)" for xs
    by (rule over_find) simp
  ultimately show ?thesis
    unfolding attempted_def by (auto simp: paged_types[OF assms] find_filter_and find_None_iff split: option.split dest!: find_SomeD)
qed

end

section \<open>Decisions\<close>

text \<open>Whether a decision about a request is recorded, and whether an event holds the key it is recorded under.\<close>

definition decided :: "committed_event list \<Rightarrow> router \<Rightarrow> committed_event \<Rightarrow> bool" where
  "decided es rt e \<longleftrightarrow> (\<exists>x \<in> set (stream_log es (router_stream rt)).
     event_type (request x) = ''policy.decision'' \<and> causation_id (request x) = Some (event_id e))"

definition key_held :: "committed_event list \<Rightarrow> router \<Rightarrow> committed_event \<Rightarrow> bool" where
  "key_held es rt e \<longleftrightarrow> (\<exists>x \<in> set (stream_log es (router_stream rt)). deduplication_key (request x) = Some (''policy:'' @ event_id e))"

lemma decision_provider:
  "Option.bind (json_get (decision_payload e cap rd) ''provider'') as_str = (case rd of Deliver i \<Rightarrow> Some i | _ \<Rightarrow> None)"
  by (cases rd) (simp_all add: decision_payload_def)

lemma decision_request_Inr:
  assumes "decision_request sd rt e cap rd = Inr r"
  obtains bs where "to_vec sd (decision_payload e cap rd) = Inr bs"
    and "r = node_event rt ''policy.decision'' ''pluribus.policy-decision/1'' bs (Some e) (Some (''policy:'' @ event_id e))"
  using assms by (auto simp: decision_request_def written_def registered_def)

context event_store
begin

text \<open>Routing appends one decision, or finds the key of one and changes nothing.\<close>

lemma route_appends:
  assumes "payload_field sd e ''capability'' = Some cap" and "route_request sd ops rt s e auth now = (s', Inr rd)"
  obtains r x bs where "op_append ops s r = (s', Inr x)" and "to_vec sd (decision_payload e cap rd) = Inr bs"
    and "r = node_event rt ''policy.decision'' ''pluribus.policy-decision/1'' bs (Some e) (Some (''policy:'' @ event_id e))"
proof -
  obtain r x where r: "decision_request sd rt e cap rd = Inr r" and app: "op_append ops s r = (s', Inr x)"
    using assms by (auto simp: route_request_def append_decision_def router_append_def Let_def split: prod.splits sum.splits)
  from decision_request_Inr[OF r] obtain bs where bs: "to_vec sd (decision_payload e cap rd) = Inr bs"
    and req: "r = node_event rt ''policy.decision'' ''pluribus.policy-decision/1'' bs (Some e) (Some (''policy:'' @ event_id e))" .
  from app bs req show ?thesis by (rule that)
qed

lemma route_decided:
  assumes rb: "reads_back sd" and inv: "inv s" and free: "\<not> key_held (log s) rt e" and cap: "payload_field sd e ''capability'' = Some cap"
    and call: "route_request sd ops rt s e auth now = (s', Inr rd)"
  shows "\<exists>x. log s' = log s @ [x] \<and> stream_id (request x) = router_stream rt \<and> event_type (request x) = ''policy.decision'' \<and>
    causation_id (request x) = Some (event_id e) \<and> payload_field sd x ''provider'' = (case rd of Deliver i \<Rightarrow> Some i | _ \<Rightarrow> None)"
proof -
  obtain r x bs where app: "op_append ops s r = (s', Inr x)" and bs: "to_vec sd (decision_payload e cap rd) = Inr bs"
    and req: "r = node_event rt ''policy.decision'' ''pluribus.policy-decision/1'' bs (Some e) (Some (''policy:'' @ event_id e))"
    by (rule route_appends[OF cap call])
  have fresh: "deduplication_key (request y) \<noteq> deduplication_key r" if "y \<in> set (log s)" "stream_id (request y) = stream_id r" for y
    using free that by (auto simp: key_held_def req node_event_def)
  have x: "log s' = log s @ [x]" "request x = r" using append_fresh[OF inv app fresh] by blast+
  have "payload_json sd x = Some (decision_payload e cap rd)"
    using reads_backD[OF rb bs] by (simp add: payload_json_def x req node_event_def)
  then have "payload_field sd x ''provider'' = (case rd of Deliver i \<Rightarrow> Some i | _ \<Rightarrow> None)"
    by (simp add: payload_field_def decision_provider)
  with x req show ?thesis by (auto simp: node_event_def)
qed

lemma authorized_kept:
  assumes "inv s" and "inv s2" and "log s2 = log s @ new" and "decided (log s) rt e"
  shows "authorized_for sd ops rt s2 (event_id e) prov = authorized_for sd ops rt s (event_id e) prov"
proof -
  let ?P = "\<lambda>y. event_type (request y) = ''policy.decision'' \<and> causation_id (request y) = Some (event_id e)"
  obtain x where "find ?P (stream_log (log s) (router_stream rt)) = Some x"
    using assms(4) by (cases "find ?P (stream_log (log s) (router_stream rt))") (auto simp: find_None_iff decided_def)
  then show ?thesis unfolding authorized_spec[OF assms(1)] authorized_spec[OF assms(2)] assms(3) stream_log_prefix by (simp add: find_append)
qed

text \<open>Once decided, a request stays authorized for the provider it was first routed to and for no other.\<close>

lemma route_authorizes:
  assumes "reads_back sd" and "inv s" and "payload_field sd e ''capability'' = Some cap"
    and "route_request sd ops rt s e auth now = (s', Inr rd)" and "inv s2" and later: "log s2 = log s' @ new"
    and key: "key_held (log s) rt e \<Longrightarrow> decided (log s) rt e"
  shows "authorized_for sd ops rt s2 (event_id e) prov =
    (if decided (log s) rt e then authorized_for sd ops rt s (event_id e) prov else Some (Inr (rd = Deliver prov)))"
proof (cases "decided (log s) rt e")
  case True
  obtain r x bs where app: "op_append ops s r = (s', Inr x)" by (rule route_appends[OF assms(3,4)])
  then obtain more where "log s' = log s @ more" using append_grows(2)[OF assms(2)] by blast
  then have "log s2 = log s @ (more @ new)" using later by simp
  from authorized_kept[OF assms(2,5) this True] True show ?thesis by simp
next
  case False
  then have free: "\<not> key_held (log s) rt e" using key by blast
  obtain x where x: "log s' = log s @ [x]" "stream_id (request x) = router_stream rt" "event_type (request x) = ''policy.decision''"
    "causation_id (request x) = Some (event_id e)" "payload_field sd x ''provider'' = (case rd of Deliver i \<Rightarrow> Some i | _ \<Rightarrow> None)"
    using route_decided[OF assms(1,2) free assms(3,4)] by blast
  let ?P = "\<lambda>y. event_type (request y) = ''policy.decision'' \<and> causation_id (request y) = Some (event_id e)"
  have "find ?P (stream_log (log s) (router_stream rt)) = None"
    using False by (auto simp: decided_def find_None_iff)
  moreover have "stream_log (log s') (router_stream rt) = stream_log (log s) (router_stream rt) @ [x]"
    using x(1,2) by (simp add: stream_log_prefix) (simp add: stream_log_def)
  ultimately have "find ?P (stream_log (log s') (router_stream rt)) = Some x"
    using x(3,4) by (simp add: find_append)
  then have "find ?P (stream_log (log s2) (router_stream rt)) = Some x"
    unfolding later stream_log_prefix by (simp add: find_append)
  with x(5) False show ?thesis unfolding authorized_spec[OF assms(5)] by (auto split: routed.splits)
qed

text \<open>A request whose key another event took first is routed without a record: whatever the verdict, nobody is authorized.\<close>

lemma route_squatted:
  assumes "inv s" and "payload_field sd e ''capability'' = Some cap" and "route_request sd ops rt s e auth now = (s', Inr rd)"
    and "key_held (log s) rt e" and "\<not> decided (log s) rt e"
  shows "log s' = log s \<and> authorized_for sd ops rt s' (event_id e) prov = Some (Inr False)"
proof -
  obtain r x bs where app: "op_append ops s r = (s', Inr x)"
    and req: "r = node_event rt ''policy.decision'' ''pluribus.policy-decision/1'' bs (Some e) (Some (''policy:'' @ event_id e))"
    by (rule route_appends[OF assms(2,3)])
  obtain y where "y \<in> set (log s)" "stream_id (request y) = router_stream rt" "deduplication_key (request y) = Some (''policy:'' @ event_id e)"
    using assms(4) by (auto simp: key_held_def)
  then have same: "log s' = log s" by (intro append_duplicate(2)[OF assms(1) app, of y]) (simp_all add: req node_event_def)
  have "find (\<lambda>y. event_type (request y) = ''policy.decision'' \<and> causation_id (request y) = Some (event_id e))
      (stream_log (log s') (router_stream rt)) = None"
    using assms(5) unfolding same by (auto simp: decided_def find_None_iff)
  then show ?thesis using same append_grows(1)[OF assms(1) app] by (simp add: authorized_spec)
qed

end

section \<open>Admission\<close>

lemma attempt_request_Inr:
  assumes "attempt_request sd rt e kind v key = Inr r"
  obtains bs where "to_vec sd v = Inr bs" and "r = node_event rt kind
      (if starts_with kind ''activity.'' then ''pluribus.activity-attempt/1'' else ''pluribus.activity-failure/1'') bs (Some e) (Some key)"
  using assms by (auto simp: attempt_request_def written_def registered_def)

context event_store
begin

lemma attempt_event_ok:
  assumes "inv s" and "attempt_event sd ops rt s e kind v key = (s', Inr x)"
  obtains r bs where "to_vec sd v = Inr bs" and "op_append ops s r = (s', Inr x)" and "stream_id r = router_stream rt"
    and "deduplication_key r = Some key" and "payload r = CanonicalJson bs"
proof -
  obtain r where r: "attempt_request sd rt e kind v key = Inr r" and app: "op_append ops s r = (s', Inr x)"
    using assms(2) by (auto simp: attempt_event_def router_append_def split: prod.splits sum.splits)
  from attempt_request_Inr[OF r] obtain bs where "to_vec sd v = Inr bs" and "r = node_event rt kind
      (if starts_with kind ''activity.'' then ''pluribus.activity-attempt/1'' else ''pluribus.activity-failure/1'') bs (Some e) (Some key)" .
  with app that show ?thesis by (auto simp: node_event_def)
qed

lemma attempt_event_inv: "inv s \<Longrightarrow> attempt_event sd ops rt s e kind v key = (s', x) \<Longrightarrow> inv s'"
  using append_grows(1) by (auto simp: attempt_event_def router_append_def split: prod.splits sum.splits)

lemma claim_won:
  assumes inv: "inv s" and call: "claim_attempt sd ops rt s e prov c = (s', Inr True)"
  shows "inv s'" and "\<exists>a \<in> set (log s'). stream_id (request a) = router_stream rt \<and>
    deduplication_key (request a) = Some (attempt_key e) \<and> payload_field sd a ''admissionClaim'' = Some c"
proof -
  obtain a where a: "attempt_event sd ops rt s e ''activity.attempted'' (attempt_payload sd rt e prov c) (attempt_key e) = (s', Inr a)"
    and c: "payload_field sd a ''admissionClaim'' = Some c"
    using call by (auto simp: claim_attempt_def split: prod.splits)
  from attempt_event_ok[OF inv a] obtain r where "op_append ops s r = (s', Inr a)" "stream_id r = router_stream rt"
    "deduplication_key r = Some (attempt_key e)" by metis
  with append_stored[OF inv this(1)] c show "\<exists>a \<in> set (log s'). stream_id (request a) = router_stream rt \<and>
    deduplication_key (request a) = Some (attempt_key e) \<and> payload_field sd a ''admissionClaim'' = Some c" by auto
  show "inv s'" by (rule attempt_event_inv[OF inv a])
qed

lemma claim_lost:
  assumes inv: "inv s" and a: "a \<in> set (log s)" "stream_id (request a) = router_stream rt" "deduplication_key (request a) = Some (attempt_key e)"
    "payload_field sd a ''admissionClaim'' = Some c" and call: "claim_attempt sd ops rt s e prov c' = (s', Inr b)"
  shows "b \<longleftrightarrow> c = c'" and "log s' = log s"
proof -
  obtain x where x: "attempt_event sd ops rt s e ''activity.attempted'' (attempt_payload sd rt e prov c') (attempt_key e) = (s', Inr x)"
    and b: "b \<longleftrightarrow> payload_field sd x ''admissionClaim'' = Some c'"
    using call by (auto simp: claim_attempt_def split: prod.splits)
  from attempt_event_ok[OF inv x] obtain r where r: "op_append ops s r = (s', Inr x)" "stream_id r = router_stream rt"
    "deduplication_key r = Some (attempt_key e)" by metis
  have "x = a" "log s' = log s" using append_duplicate[OF inv r(1) a(1)] a(2,3) r(2,3) by simp_all
  with a(4) b show "b \<longleftrightarrow> c = c'" "log s' = log s" by auto
qed

lemma readmit_refused:
  "idempotency_of sd rt e prov \<noteq> Some ''inherent'' \<Longrightarrow> readmit sd ops rt s e prov = (s', Inr b) \<Longrightarrow> \<not> b"
  by (auto simp: readmit_def Let_def split: prod.splits sum.splits)

lemma admit_cases:
  assumes "inv s" and "admit_attempt sd ops rt s e prov c = Some r"
  shows "r = readmit sd ops rt s e prov \<or> r = claim_attempt sd ops rt s e prov c"
  using assms(2) unfolding admit_attempt_def attempted_spec[OF assms(1)] by (simp split: bool.splits)

lemma admit_once:
  assumes inv: "inv s" and first: "admit_attempt sd ops rt s e prov c = Some (s1, Inr True)"
    and kind: "idempotency_of sd rt e prov \<noteq> Some ''inherent''" "idempotency_of sd rt e prov' \<noteq> Some ''inherent''"
    and later: "inv s2" "log s2 = log s1 @ new" and second: "admit_attempt sd ops rt s2 e prov' c' = Some (s3, res)" and "c' \<noteq> c"
  shows "res \<noteq> Inr True"
proof -
  have claim: "claim_attempt sd ops rt s e prov c = (s1, Inr True)"
    using admit_cases[OF inv first] readmit_refused[OF kind(1), of s s1 True] by auto
  from claim_won(2)[OF inv claim] later(2) obtain a where a: "a \<in> set (log s2)" "stream_id (request a) = router_stream rt"
    "deduplication_key (request a) = Some (attempt_key e)" "payload_field sd a ''admissionClaim'' = Some c" by auto
  from admit_cases[OF later(1) second] show ?thesis
    using readmit_refused[OF kind(2), of s2 s3 True] claim_lost(1)[OF later(1) a, of prov' c' s3 True] assms(8) by auto
qed

lemma claim_race:
  assumes inv: "inv s" and first: "claim_attempt sd ops rt s e prov c = (s1, Inr True)"
    and later: "inv s2" "log s2 = log s1 @ new" and second: "claim_attempt sd ops rt s2 e prov' c' = (s3, Inr b)"
  shows "b \<longleftrightarrow> c' = c"
proof -
  from claim_won(2)[OF inv first] later(2) obtain a where a: "a \<in> set (log s2)" "stream_id (request a) = router_stream rt"
    "deduplication_key (request a) = Some (attempt_key e)" "payload_field sd a ''admissionClaim'' = Some c" by auto
  from claim_lost(1)[OF later(1) a second] show ?thesis by blast
qed

end

section \<open>The projection\<close>

context event_store
begin

lemma refresh_spec:
  assumes "inv s"
  shows "refresh sd ops s stream n p = Some (flow_end (\<lambda>p. (p, Inr ())) (over_events (refresh_event sd)
    (matching (log s) stream (default_query\<lparr>event_types := projected_types, after_sequence := Some (through p)\<rparr>)) p))"
proof -
  have "max n 1 \<noteq> 0"
  proof
    assume "max n 1 = 0"
    with max.cobounded2[of 1 n] have "(1 :: u64) \<le> 0" by (simp only:)
    then show False by simp
  qed
  then show ?thesis unfolding refresh_def by (simp add: paged_query[OF assms types_query])
qed

end

lemma refresh_event_through:
  "refresh_event sd e p = Continue p' \<Longrightarrow> through p' = sequence e"
  by (auto simp: refresh_event_def record_result_def update_cognition_def update_job_def update_observation_def Let_def
      split: if_splits sum.splits option.splits event_payload.splits)

lemma over_refresh_through:
  "over_events (refresh_event sd) xs p = Continue p' \<Longrightarrow> through p' = (if xs = [] then through p else sequence (last xs))"
proof (induction xs arbitrary: p)
  case (Cons e xs)
  then obtain p1 where p1: "refresh_event sd e p = Continue p1" "over_events (refresh_event sd) xs p1 = Continue p'"
    by (auto split: flow.splits)
  from Cons.IH[OF p1(2)] refresh_event_through[OF p1(1)] show ?case by simp
qed simp

lemma over_refresh_ok:
  "flow_end (\<lambda>p. (p, Inr ())) (over_events (refresh_event sd) xs p) = (p', Inr ()) \<Longrightarrow> over_events (refresh_event sd) xs p = Continue p'"
proof (induction xs arbitrary: p)
  case (Cons e xs)
  show ?case
  proof (cases "refresh_event sd e p")
    case (Return r)
    then have "\<exists>err. snd r = Inl err" by (auto simp: refresh_event_def Let_def split: if_splits sum.splits)
    with Cons.prems Return show ?thesis by auto
  qed (use Cons in auto)
qed simp

text \<open>A later event of a stream has a greater sequence.\<close>

lemma later_sequence:
  assumes "log_wf (es @ new)" and "x \<in> set (stream_log es i)" and "y \<in> set (stream_log new i)"
  shows "sequence x < sequence y"
  using stream_log_strict[OF assms(1), of "\<lambda>_. True" i] assms(2,3)
  by (auto simp: stream_log_prefix sorted_wrt_append simp del: set_stream_log)

lemma matching_append: "matching (es @ new) stream q = matching es stream q @ matching new stream q"
  by (simp add: matching_def stream_log_prefix)

lemma matching_continue:
  assumes wf: "log_wf (es @ new)" and xs: "xs = matching es stream (q\<lparr>after_sequence := Some a\<rparr>)"
    and b: "b = (if xs = [] then a else sequence (last xs))"
  shows "matching (es @ new) stream (q\<lparr>after_sequence := Some b\<rparr>) = matching new stream (q\<lparr>after_sequence := Some a\<rparr>)"
proof -
  let ?M = "\<lambda>es. matching es stream (q\<lparr>after_sequence := None\<rparr>)"
  have old: "filter (\<lambda>e. b < sequence e) (?M es) = []"
  proof (cases "xs = []")
    case True
    with xs b show ?thesis by (simp add: matching_after)
  next
    case False
    have sorted: "sorted_wrt (<) (map sequence xs)"
      using stream_log_strict[OF wf, of "\<lambda>_. True" stream]
      unfolding xs matching_def by (auto simp: stream_log_prefix sorted_wrt_append sorted_wrt_map intro: sorted_wrt_filter)
    have low: "a < sequence (last xs)" using last_in_set[OF False] unfolding xs matching_after by simp
    have "\<not> sequence (last xs) < sequence e" if "e \<in> set xs" for e
    proof -
      have "sequence e \<le> sequence (last xs)"
        using sorted that False by (induction xs) (auto simp: less_imp_le)
      then show ?thesis by simp
    qed
    then have "\<not> sequence (last xs) < sequence e" if "e \<in> set (?M es)" for e
      using that low xs unfolding matching_after by (cases "a < sequence e") (auto simp: not_less)
    with b False show ?thesis by (simp add: filter_empty_conv)
  qed
  have new: "filter (\<lambda>e. b < sequence e) (?M new) = filter (\<lambda>e. a < sequence e) (?M new)"
  proof (cases "xs = []")
    case False
    then have l: "last xs \<in> set (stream_log es stream)" "a < sequence (last xs)"
      using last_in_set[OF False] unfolding xs by (auto simp: matching_def query_matches_iff)
    then have "sequence (last xs) < sequence e" if "e \<in> set (?M new)" for e
      using later_sequence[OF wf l(1)] that by (auto simp: matching_def)
    with l(2) b False show ?thesis by (intro filter_cong refl) (auto dest: less_trans)
  qed (use b in simp)
  show ?thesis unfolding matching_after matching_append filter_append old new by simp
qed

context event_store
begin

lemma refresh_steps:
  assumes inv: "inv s" "inv s'" and log: "log s' = log s @ new" and ok: "refresh sd ops s stream n p = Some (p', Inr ())"
  shows "refresh sd ops s' stream n' p' = refresh sd ops s' stream n' p"
proof -
  let ?q = "default_query\<lparr>event_types := projected_types\<rparr>"
  let ?xs = "matching (log s) stream (?q\<lparr>after_sequence := Some (through p)\<rparr>)"
  have run: "over_events (refresh_event sd) ?xs p = Continue p'"
    using ok unfolding refresh_spec[OF inv(1)] by (auto intro: over_refresh_ok)
  have "matching (log s') stream (?q\<lparr>after_sequence := Some (through p')\<rparr>) = matching new stream (?q\<lparr>after_sequence := Some (through p)\<rparr>)"
    using wf[OF inv(2)] unfolding log by (rule matching_continue[OF _ refl over_refresh_through[OF run]])
  moreover have "matching (log s') stream (?q\<lparr>after_sequence := Some (through p)\<rparr>) =
      ?xs @ matching new stream (?q\<lparr>after_sequence := Some (through p)\<rparr>)"
    by (simp add: log matching_append)
  ultimately show ?thesis unfolding refresh_spec[OF inv(2)] by (simp add: over_events_append run)
qed

text \<open>Each loop returns.\<close>

lemma loops_return:
  assumes "inv s"
  shows "poll sd ops rt s i checkpoint limit \<noteq> None" and "refresh sd ops s stream n p \<noteq> None"
    and "authorized_for sd ops rt s j prov \<noteq> None" and "attempted ops rt s e \<noteq> None"
    and "fail_sessions_with_resource sd ops rt s prov batch err \<noteq> None"
proof -
  show "poll sd ops rt s i checkpoint limit \<noteq> None"
    by (cases "find_registration rt i") (simp_all add: poll_spec[OF assms], simp add: poll_def)
  show "fail_sessions_with_resource sd ops rt s prov batch err \<noteq> None"
    by (simp add: fail_sessions_with_resource_def paged_types[OF assms] session_types_def)
qed (simp_all add: refresh_spec[OF assms] authorized_spec[OF assms] attempted_spec[OF assms])

end

section \<open>Results\<close>

text \<open>An event that answers a request: it is of a type that ends a call, and it was caused by the request or names it.\<close>

definition answers_request :: "serde \<Rightarrow> event_id \<Rightarrow> committed_event \<Rightarrow> bool" where
  "answers_request sd i e \<longleftrightarrow> event_type (request e) \<in> set projected_types \<and>
     event_type (request e) \<notin> {''cognition.checkpoint'', ''cognition.job-updated'', ''cognition.observation-associated''} \<and>
     (causation_id (request e) = Some i \<or> payload_field sd e ''requestEventId'' = Some i)"

lemma or_insert_apply: "or_insert m k v j = (if j = k \<and> m k = None then Some v else m j)"
  by (simp add: or_insert_def split: option.splits)

lemma record_result_results:
  "results (record_result sd p e) i = (case results p i of
     None \<Rightarrow> if causation_id (request e) = Some i \<or> payload_field sd e ''requestEventId'' = Some i then Some (event_id e) else None
   | Some j \<Rightarrow> Some j)"
  by (cases "causation_id (request e)"; cases "payload_field sd e ''requestEventId''"; cases "results p i")
    (auto simp: record_result_def Let_def or_insert_apply)

lemma refresh_event_results:
  assumes "refresh_event sd e p = Continue p'" and "event_type (request e) \<in> set projected_types"
  shows "results p' i = (case results p i of None \<Rightarrow> if answers_request sd i e then Some (event_id e) else None | Some j \<Rightarrow> Some j)"
proof (cases "event_type (request e) \<in> {''cognition.checkpoint'', ''cognition.job-updated'', ''cognition.observation-associated''}")
  case True
  then have "results p' = results p"
    using assms(1) by (auto simp: refresh_event_def update_cognition_def update_job_def update_observation_def Let_def
        split: sum.splits option.splits event_payload.splits if_splits)
  with True show ?thesis by (auto simp: answers_request_def split: option.splits)
next
  case False
  then have "p' = record_result sd (p\<lparr>through := sequence e\<rparr>) e"
    using assms(1) by (auto simp: refresh_event_def Let_def)
  with False assms(2) show ?thesis
    by (simp add: record_result_results answers_request_def split: option.splits)
qed

lemma over_refresh_results:
  assumes "over_events (refresh_event sd) xs p = Continue p'" and "\<forall>e \<in> set xs. event_type (request e) \<in> set projected_types"
  shows "results p' i = (case results p i of None \<Rightarrow> map_option event_id (find (answers_request sd i) xs) | Some j \<Rightarrow> Some j)"
  using assms
proof (induction xs arbitrary: p)
  case (Cons e xs)
  then obtain p1 where p1: "refresh_event sd e p = Continue p1" "over_events (refresh_event sd) xs p1 = Continue p'"
    by (auto split: flow.splits)
  with Cons refresh_event_results[OF p1(1), of i] show ?case by (auto split: option.splits)
qed (simp split: option.splits)

context event_store
begin

lemma result_spec:
  assumes inv: "inv s" and "result_for sd ops rt s empty_projection i = Some (p, Inr r)"
  shows "r = find (answers_request sd i) (stream_log (log s) (router_stream rt))"
proof -
  let ?log = "stream_log (log s) (router_stream rt)"
  let ?xs = "filter (\<lambda>e. event_type (request e) \<in> set projected_types) ?log"
  have "matching (log s) (router_stream rt) (default_query\<lparr>event_types := projected_types, after_sequence := Some (through empty_projection)\<rparr>) = ?xs"
    by (simp add: empty_projection_def matching_types[OF wf[OF inv]] projected_types_def)
  then have "flow_end (\<lambda>p. (p, Inr ())) (over_events (refresh_event sd) ?xs empty_projection) = (p, Inr ())"
    and found: "(case results p i of None \<Rightarrow> Inr None | Some j \<Rightarrow> map_err router_storage (op_get ops s j)) = Inr r"
    using assms(2) by (auto simp: result_for_def refresh_spec[OF inv] split: prod.splits)
  from over_refresh_results[OF over_refresh_ok[OF this(1)], of i]
  have "results p i = map_option event_id (find (answers_request sd i) ?xs)" by (simp add: empty_projection_def)
  moreover have "find (answers_request sd i) ?xs = find (answers_request sd i) ?log"
    unfolding find_filter_and by (rule arg_cong[where f = "\<lambda>P. find P ?log"]) (auto simp: answers_request_def)
  moreover have "op_get ops s (event_id x) = Inr (Some x)" if "find (answers_request sd i) ?log = Some x" for x
    using find_SomeD[OF that] by (intro get_member[OF inv]) simp
  ultimately show ?thesis using found by (cases "find (answers_request sd i) ?log") auto
qed

end

section \<open>The router over the SQLite store\<close>

text \<open>A JSON package that knows the values of a table, to have a concrete one at hand.\<close>

definition table_serde :: "(bytes \<times> json) list \<Rightarrow> serde" where
  "table_serde tab = \<lparr>from_slice = (\<lambda>b. ok_or ''unknown text'' (map_of tab b)),
     to_vec = (\<lambda>v. ok_or ''unknown value'' (map_of (map (\<lambda>(b, v). (v, b)) tab) v)),
     value_text = (\<lambda>_. ''c''), number_text = (\<lambda>_. []), json_pointer = (\<lambda>_ _. None)\<rparr>"

lemma table_serde_reads_back: "distinct (map fst tab) \<Longrightarrow> reads_back (table_serde tab)"
  by (auto simp: reads_back_def table_serde_def dest!: map_of_SomeD)

text \<open>C18: Polling is exact. An instance gets the first \<open>limit\<close> events of the stream after its checkpoint that its
  subscriptions accept and whose timer, if any, it set itself: in order, none missing and none twice, whether the
  events are read sequentially or through the index of event types, and whatever the size of the pages.\<close>

theorem poll_exact:
  assumes "holds_log s" and "find_registration rt i = Some r"
  shows "poll sd (sql_event_ops en) rt s i checkpoint limit = Some (Inr (take (unat limit)
    (filter (\<lambda>e. checkpoint < sequence e \<and> accepts sd (reg_subscriptions r) e \<and> owns_timer sd (sql_event_ops en) rt s i e)
      (stream_log (stored_log s) (router_stream rt)))))"
  using assms by (rule sql.poll_spec)

abbreviation demo_subscriptions :: subscriptions where
  "demo_subscriptions \<equiv> \<lparr>sub_idempotency = [(''echo.say'', ''keyed'')], whole_stream = False, sub_event_types = [''capability.*''],
     sub_capabilities = [''echo.say''], sub_models = [], sub_bindings = []\<rparr>"

abbreviation demo_registration :: registration where
  "demo_registration \<equiv> \<lparr>instance_id = ''echo-1'', reg_subscriptions = demo_subscriptions\<rparr>"

abbreviation demo_router :: router where
  "demo_router \<equiv> \<lparr>router_stream = ''personal'', router_agent = \<lparr>pr_kind = Agent, pr_id = ''personal''\<rparr>,
     registrations = [demo_registration], router_registry = core_registry,
     router_constraints = \<lparr>allows = (\<lambda>_ _. Inr True), allows_projected = (\<lambda>_ _ _. Inr True)\<rparr>\<rparr>"

lemma demo_holds: "holds_log demo_store" "stored_log demo_store = []"
  using represents_empty by (simp_all add: holds_log_def stored_log_def empty_database_def List.map_filter_def)

lemma demo_appended: "\<exists>s'. append_event demo_engine demo_store demo_request = (s', Inr demo_event) \<and> holds_log s' \<and> stored_log s' = [demo_event]"
proof -
  obtain s' res where call: "append_event demo_engine demo_store demo_request = (s', res)" by fastforce
  have "represents (db demo_store) []" by (simp add: represents_empty)
  from append_event_log[OF this call] have "res = Inr demo_event" "represents (db s') [demo_event]" by (simp_all add: demo_append)
  with call show ?thesis using holds_log_represents stored_log_represents by blast
qed

theorem poll_exact_witness:
  "\<exists>s'. append_event demo_engine demo_store demo_request = (s', Inr demo_event) \<and>
     poll (table_serde []) (sql_event_ops demo_engine) demo_router s' ''echo-1'' 0 5 = Some (Inr [demo_event])"
proof -
  obtain s' where s': "append_event demo_engine demo_store demo_request = (s', Inr demo_event)" "holds_log s'" "stored_log s' = [demo_event]"
    using demo_appended by blast
  have "matches_pattern ''capability.*'' ''capability.completed''"
    by (simp add: matches_pattern_def strip_suffix_def strip_prefix_def starts_with_def)
  then show ?thesis
    using s' poll_exact[OF s'(2), of demo_router "''echo-1''" demo_registration "table_serde []" demo_engine 0 5]
    by (simp add: find_registration_def stream_log_def accepts_def owns_timer_def)
qed

text \<open>C21: Every loop of the router over the log returns: polling, the search for results, for the current
  revision, for a decision and for an earlier attempt, cancelling, and failing the sessions of a lost component.\<close>

theorem router_returns:
  assumes "holds_log s"
  shows "poll sd (sql_event_ops en) rt s i checkpoint limit \<noteq> None \<and> result_for sd (sql_event_ops en) rt s p j \<noteq> None \<and>
    revision_current sd (sql_event_ops en) rt s p e \<noteq> None \<and> authorized_for sd (sql_event_ops en) rt s j prov \<noteq> None \<and>
    admit_attempt sd (sql_event_ops en) rt s e prov claim \<noteq> None \<and> cancel_attempt sd (sql_event_ops en) rt s p e \<noteq> None \<and>
    fail_sessions sd (sql_event_ops en) rt s prov batch \<noteq> None"
proof -
  note r = sql.loops_return[OF assms, where en = en]
  have result: "result_for sd (sql_event_ops en) rt s p j \<noteq> None" for j using r(2) by (simp add: result_for_def)
  moreover have "revision_current sd (sql_event_ops en) rt s p e \<noteq> None"
    using r(2) by (cases "payload_field sd e ''jobId''"; cases "number_field sd e ''revision''") (simp_all add: revision_current_def)
  moreover have "cancel_attempt sd (sql_event_ops en) rt s p e \<noteq> None"
    using result by (cases "cancel_kind e") (simp_all add: cancel_attempt_def)
  ultimately show ?thesis using r(1,3-5) by (simp add: admit_attempt_def fail_sessions_def)
qed

theorem router_returns_witness:
  "authorized_for (table_serde []) (sql_event_ops demo_engine) demo_router demo_store ''q'' ''echo-1'' \<noteq> None"
  using router_returns[OF demo_holds(1)] by blast

text \<open>C17: The first decision about a request is final and is what providers see. When a request about which no decision was
  recorded is routed, in every later state of the log exactly the instance it was delivered to is authorized for it, and nobody
  when it was denied or had no provider. When a decision was recorded before, routing the request again, under whatever
  authority, leaves unchanged who is authorized, also where the call returns another verdict. The key of the
  decision must not be held by an event that is no decision about the request.\<close>

theorem route_decides_once:
  assumes "reads_back sd" and "holds_log s" and "payload_field sd e ''capability'' = Some cap"
    and "route_request sd (sql_event_ops en) rt s e auth now = (s', Inr rd)"
    and "holds_log later" and "stored_log later = stored_log s' @ new"
    and "key_held (stored_log s) rt e \<Longrightarrow> decided (stored_log s) rt e"
  shows "authorized_for sd (sql_event_ops en) rt later (event_id e) prov =
    (if decided (stored_log s) rt e then authorized_for sd (sql_event_ops en) rt s (event_id e) prov else Some (Inr (rd = Deliver prov)))"
  using assms by (rule sql.route_authorizes)

abbreviation demo_call :: committed_event where
  "demo_call \<equiv> \<lparr>schema = event_schema, event_id = ''q'', sequence = 7, recorded_at_ms = 0,
     request = \<lparr>stream_id = ''personal'', stream_kind = AgentStream, observed_at_ms = None, event_type = ''capability.requested'',
       payload_schema = ''test/1'', payload = CanonicalJson ''r'', actor = \<lparr>pr_kind = Component, pr_id = ''rlm-1''\<rparr>,
       authority_id = None, activity_id = None, correlation_id = None, causation_id = None, deduplication_key = Some ''call-1''\<rparr>\<rparr>"

abbreviation demo_table :: "(bytes \<times> json) list" where
  "demo_table \<equiv> [(''r'', JObject [(''capability'', JString ''echo.say'')]), (''c'', JObject []),
     (''d'', decision_payload demo_call ''echo.say'' (Deliver ''echo-1''))]"

abbreviation demo_authority :: authority where
  "demo_authority \<equiv> \<lparr>authority_schema = [], the_authority_id = ''a'', agent = \<lparr>pr_kind = Agent, pr_id = ''personal''\<rparr>,
     the_origin = \<lparr>origin_kind = Autonomous, origin_principal = None, origin_connector = None, origin_conversation_id = None,
       source_event_id = ''q'', trusted = True\<rparr>,
     delegation_chain = [], grants = [''echo.say'' \<mapsto> [\<lparr>capability = ''echo.say'', provider = None, constraints = ''c''\<rparr>]],
     audiences = [], parent_authority = None, issued_at_ms = 0, expires_at_ms = None, max_depth = 1, current_depth = 0\<rparr>"

text \<open>A valid request with a new key is stored in an empty log.\<close>

lemma demo_stores:
  assumes "validate_append r = Inr ()"
  shows "\<exists>s'. append_event demo_engine demo_store r = (s', Inr (new_event [] r [] 0)) \<and> holds_log s' \<and> stored_log s' = [new_event [] r [] 0]"
proof -
  obtain s' res where call: "append_event demo_engine demo_store r = (s', res)" by fastforce
  have "log_append [] r (peek_id demo_store) (peek_clock demo_store) = Inr ([new_event [] r [] 0], new_event [] r [] 0)"
    using assms by (simp add: log_append_def stream_log_def peek_id_def peek_clock_def)
  moreover have "represents (db demo_store) []" by (simp add: represents_empty)
  ultimately show ?thesis
    using append_event_log[OF _ call] call holds_log_represents stored_log_represents by fastforce
qed

lemma demo_capability: "payload_field (table_serde demo_table) demo_call ''capability'' = Some ''echo.say''"
  by (simp add: payload_field_def payload_json_def table_serde_def)

lemma demo_routed: "route_decision (table_serde demo_table) demo_router demo_call demo_authority 0 ''echo.say'' = Deliver ''echo-1''"
  by (simp add: route_decision_def decide_def is_expired_at_def table_serde_def projected_policy_def projected_allows_def as_object_def
      new_principal_def decision_payload_def json_object_def)

theorem route_decides_once_witness:
  "\<exists>s'. route_request (table_serde demo_table) (sql_event_ops demo_engine) demo_router demo_store demo_call demo_authority 0 =
       (s', Inr (Deliver ''echo-1'')) \<and>
     authorized_for (table_serde demo_table) (sql_event_ops demo_engine) demo_router s' ''q'' ''echo-1'' = Some (Inr True)"
proof -
  let ?r = "node_event demo_router ''policy.decision'' ''pluribus.policy-decision/1'' ''d'' (Some demo_call) (Some ''policy:q'')"
  have "to_vec (table_serde demo_table) (decision_payload demo_call ''echo.say'' (Deliver ''echo-1'')) = Inr ''d''"
    by (simp add: table_serde_def decision_payload_def json_object_def btree_of_def)
  moreover have "registry_validate core_registry ?r = Inr ()"
    by (simp add: registry_validate_def core_registry_apply node_event_def plugin_event_types_def reserved_event_types_def pinned_schemas_def)
  ultimately have req: "decision_request (table_serde demo_table) demo_router demo_call ''echo.say'' (Deliver ''echo-1'') = Inr ?r"
    by (simp add: decision_request_def written_def registered_def)
  obtain s' where s': "append_event demo_engine demo_store ?r = (s', Inr (new_event [] ?r [] 0))" "holds_log s'"
    using demo_stores[of ?r] by (auto simp: validate_append_def node_event_def)
  then have call: "route_request (table_serde demo_table) (sql_event_ops demo_engine) demo_router demo_store demo_call demo_authority 0 =
      (s', Inr (Deliver ''echo-1''))"
    unfolding route_request_def demo_capability option.case demo_routed Let_def append_decision_def req
    by (simp add: router_append_def sql_event_ops_def)
  have und: "\<not> decided (stored_log demo_store) demo_router demo_call" "\<not> key_held (stored_log demo_store) demo_router demo_call"
    by (simp_all add: demo_holds decided_def key_held_def stream_log_def)
  have rb: "reads_back (table_serde demo_table)" by (rule table_serde_reads_back) simp
  from route_decides_once[OF rb demo_holds(1) demo_capability call s'(2), of "[]" "''echo-1''"] call und show ?thesis by simp
qed

text \<open>A request without a capability name is turned away without a trace: no decision is recorded.\<close>

lemma route_unnamed_unrecorded:
  "payload_field sd e ''capability'' = None \<Longrightarrow> route_request sd ops rt s e auth now = (s, Inr (NoProvider ''request has no capability name''))"
  by (simp add: route_request_def)

text \<open>C16: An effect that is not inherently idempotent is admitted at most once. After one host was admitted to an
  attempt at a request, no other claim to the same request is ever admitted, in no later state of the log and for no
  provider.\<close>

theorem admitted_at_most_once:
  assumes "holds_log s" and "admit_attempt sd (sql_event_ops en) rt s e prov claim = Some (s1, Inr True)"
    and "idempotency_of sd rt e prov \<noteq> Some ''inherent''" and "idempotency_of sd rt e prov' \<noteq> Some ''inherent''"
    and "holds_log s2" and "stored_log s2 = stored_log s1 @ new"
    and "admit_attempt sd (sql_event_ops en) rt s2 e prov' claim' = Some (s3, res)" and "claim' \<noteq> claim"
  shows "res \<noteq> Inr True"
  using assms by (rule sql.admit_once)

text \<open>The record of an attempt at the demonstration call, spelled out.\<close>

abbreviation demo_attempt :: "string \<Rightarrow> json" where
  "demo_attempt c \<equiv> json_object [(''admissionClaim'', JString c), (''requestEventId'', JString ''q''),
     (''provider'', JString ''echo-1''), (''attemptId'', JString ''attempt:q''), (''status'', JString ''running''),
     (''jobId'', JNull), (''revision'', JNull), (''idempotency'', JString ''keyed''), (''idempotencyKey'', JString ''call-1''),
     (''deadlineAtMs'', JNull), (''cancellation'', JString ''not-requested'')]"

abbreviation attempt_serde :: serde where
  "attempt_serde \<equiv> table_serde [(''r'', JObject [(''capability'', JString ''echo.say'')]), (''x'', demo_attempt ''a''), (''y'', demo_attempt ''b'')]"

abbreviation demo_attempt_request :: "bytes \<Rightarrow> append_request" where
  "demo_attempt_request bs \<equiv> node_event demo_router ''activity.attempted'' ''pluribus.activity-attempt/1'' bs (Some demo_call) (Some ''attempt:q'')"

lemma demo_attempt_fields:
  "payload_field attempt_serde demo_call ''capability'' = Some ''echo.say''" "payload_field attempt_serde demo_call ''jobId'' = None"
  "number_field attempt_serde demo_call ''revision'' = None" "number_field attempt_serde demo_call ''deadlineAtMs'' = None"
  by (simp_all add: payload_field_def number_field_def payload_json_def table_serde_def)

lemma demo_idempotency: "idempotency_of attempt_serde demo_router demo_call ''echo-1'' = Some ''keyed''"
  by (simp add: idempotency_of_def demo_attempt_fields find_registration_def)

lemma demo_attempt_payload: "attempt_payload attempt_serde demo_router demo_call ''echo-1'' c = demo_attempt c"
  unfolding attempt_payload_def demo_attempt_fields demo_idempotency
  by (simp add: attempt_key_def json_text_def)

lemma demo_attempt_written: "to_vec attempt_serde (demo_attempt ''a'') = Inr ''x''" "to_vec attempt_serde (demo_attempt ''b'') = Inr ''y''"
  by (simp_all add: table_serde_def json_object_def btree_of_def less_list_code)

lemma demo_attempt_request_ok:
  "to_vec attempt_serde (demo_attempt c) = Inr bs \<Longrightarrow>
     attempt_request attempt_serde demo_router demo_call ''activity.attempted'' (demo_attempt c) ''attempt:q'' = Inr (demo_attempt_request bs)"
  by (simp add: attempt_request_def written_def registered_def registry_validate_def core_registry_apply node_event_def
      plugin_event_types_def reserved_event_types_def pinned_schemas_def starts_with_def)

lemma demo_claimed:
  "\<exists>s1. claim_attempt attempt_serde (sql_event_ops demo_engine) demo_router demo_store demo_call ''echo-1'' ''a'' = (s1, Inr True) \<and>
     holds_log s1 \<and> stored_log s1 = [new_event [] (demo_attempt_request ''x'') [] 0]"
proof -
  obtain s1 where s1: "append_event demo_engine demo_store (demo_attempt_request ''x'') = (s1, Inr (new_event [] (demo_attempt_request ''x'') [] 0))"
    "holds_log s1" "stored_log s1 = [new_event [] (demo_attempt_request ''x'') [] 0]"
    using demo_stores[of "demo_attempt_request ''x''"] by (auto simp: validate_append_def node_event_def)
  have "payload_field attempt_serde (new_event [] (demo_attempt_request ''x'') [] 0) ''admissionClaim'' = Some ''a''"
    by (simp add: payload_field_def payload_json_def node_event_def) (simp add: table_serde_def)
  moreover have "attempt_event attempt_serde (sql_event_ops demo_engine) demo_router demo_store demo_call ''activity.attempted'' (demo_attempt ''a'') ''attempt:q'' =
      (s1, Inr (new_event [] (demo_attempt_request ''x'') [] 0))"
    unfolding attempt_event_def demo_attempt_request_ok[OF demo_attempt_written(1)] router_append_def using s1(1) by (simp add: sql_event_ops_def)
  ultimately show ?thesis using s1(2,3) unfolding claim_attempt_def demo_attempt_payload by (simp add: attempt_key_def)
qed

lemma demo_admitted:
  "\<exists>s1. admit_attempt attempt_serde (sql_event_ops demo_engine) demo_router demo_store demo_call ''echo-1'' ''a'' = Some (s1, Inr True) \<and> holds_log s1"
proof -
  have "attempted (sql_event_ops demo_engine) demo_router demo_store demo_call = Some (Inr False)"
    by (simp add: sql.attempted_spec[OF demo_holds(1)] demo_holds stream_log_def)
  with demo_claimed show ?thesis by (auto simp: admit_attempt_def)
qed

theorem admitted_at_most_once_witness:
  "\<exists>s1 s3 res. admit_attempt attempt_serde (sql_event_ops demo_engine) demo_router demo_store demo_call ''echo-1'' ''a'' = Some (s1, Inr True) \<and>
     admit_attempt attempt_serde (sql_event_ops demo_engine) demo_router s1 demo_call ''echo-1'' ''b'' = Some (s3, res) \<and> res \<noteq> Inr True"
proof -
  obtain s1 where s1: "admit_attempt attempt_serde (sql_event_ops demo_engine) demo_router demo_store demo_call ''echo-1'' ''a'' = Some (s1, Inr True)"
    "holds_log s1" using demo_admitted by blast
  have "admit_attempt attempt_serde (sql_event_ops demo_engine) demo_router s1 demo_call ''echo-1'' ''b'' \<noteq> None"
    using sql.loops_return(4)[OF s1(2)] by (simp add: admit_attempt_def)
  then obtain s3 res where s3: "admit_attempt attempt_serde (sql_event_ops demo_engine) demo_router s1 demo_call ''echo-1'' ''b'' = Some (s3, res)" by auto
  have "idempotency_of attempt_serde demo_router demo_call ''echo-1'' \<noteq> Some ''inherent''" by (simp add: demo_idempotency)
  from admitted_at_most_once[OF demo_holds(1) s1(1) this this s1(2) _ s3, of "[]"] s1(1) s3 show ?thesis by auto
qed

text \<open>C20: Two hosts that both found no earlier attempt and then claim one race safely: the second append returns the
  first one's event, so the second host sees another's claim and is not admitted.\<close>

theorem claims_race_safely:
  assumes "holds_log s" and "claim_attempt sd (sql_event_ops en) rt s e prov claim = (s1, Inr True)"
    and "holds_log s2" and "stored_log s2 = stored_log s1 @ new"
    and "claim_attempt sd (sql_event_ops en) rt s2 e prov' claim' = (s3, Inr admitted)"
  shows "admitted \<longleftrightarrow> claim' = claim"
  using assms by (rule sql.claim_race)

theorem claims_race_safely_witness:
  "\<exists>s1 s3. claim_attempt attempt_serde (sql_event_ops demo_engine) demo_router demo_store demo_call ''echo-1'' ''a'' = (s1, Inr True) \<and>
     claim_attempt attempt_serde (sql_event_ops demo_engine) demo_router s1 demo_call ''echo-1'' ''b'' = (s3, Inr False)"
proof -
  let ?x = "new_event [] (demo_attempt_request ''x'') [] 0"
  obtain s1 where s1: "claim_attempt attempt_serde (sql_event_ops demo_engine) demo_router demo_store demo_call ''echo-1'' ''a'' = (s1, Inr True)"
    "holds_log s1" "stored_log s1 = [?x]" using demo_claimed by blast
  obtain s3 res where call: "append_event demo_engine s1 (demo_attempt_request ''y'') = (s3, res)" by fastforce
  have "log_append [?x] (demo_attempt_request ''y'') (peek_id s1) (peek_clock s1) = Inr ([?x], ?x)"
    by (simp add: log_append_def validate_append_def node_event_def stream_log_def)
  with append_event_log[OF _ call, of "[?x]"] s1(2,3) have "res = Inr ?x" by (simp add: holds_log_def)
  with call have "attempt_event attempt_serde (sql_event_ops demo_engine) demo_router s1 demo_call ''activity.attempted'' (demo_attempt ''b'') ''attempt:q'' = (s3, Inr ?x)"
    unfolding attempt_event_def demo_attempt_request_ok[OF demo_attempt_written(2)] router_append_def by (simp add: sql_event_ops_def)
  then obtain b where b: "claim_attempt attempt_serde (sql_event_ops demo_engine) demo_router s1 demo_call ''echo-1'' ''b'' = (s3, Inr b)"
    unfolding claim_attempt_def demo_attempt_payload by (simp add: attempt_key_def)
  from claims_race_safely[OF demo_holds(1) s1(1,2) _ b, of "[]"] s1(1) b show ?thesis by auto
qed

text \<open>C19: The projection can be refreshed in steps. A projection that was refreshed when the log was shorter
  and is refreshed again equals one that is refreshed only now, in its content and in the outcome, for any page size.\<close>

theorem refresh_incremental:
  assumes "holds_log s" and "holds_log s'" and "stored_log s' = stored_log s @ new"
    and "refresh sd (sql_event_ops en) s stream n p = Some (p', Inr ())"
  shows "refresh sd (sql_event_ops en) s' stream n' p' = refresh sd (sql_event_ops en) s' stream n' p"
  using assms by (rule sql.refresh_steps)

lemma demo_refresh:
  assumes "holds_log s'" and "stored_log s' = [demo_event]"
  shows "refresh (table_serde []) (sql_event_ops demo_engine) s' ''personal'' 1 empty_projection = Some (empty_projection\<lparr>through := 1\<rparr>, Inr ())"
proof -
  have "matching [demo_event] ''personal'' (default_query\<lparr>event_types := projected_types, after_sequence := Some 0\<rparr>) = [demo_event]"
    by (simp add: matching_def stream_log_def query_matches_iff default_query_def projected_types_def)
  moreover have "refresh_event (table_serde []) demo_event empty_projection = Continue (empty_projection\<lparr>through := 1\<rparr>)"
    by (simp add: refresh_event_def record_result_def payload_field_def payload_json_def table_serde_def)
  ultimately show ?thesis unfolding sql.refresh_spec[OF assms(1)] assms(2) by (simp add: empty_projection_def)
qed

theorem refresh_incremental_witness:
  "\<exists>s' p. append_event demo_engine demo_store demo_request = (s', Inr demo_event) \<and> through p = 1 \<and>
     refresh (table_serde []) (sql_event_ops demo_engine) s' ''personal'' 2 p =
     refresh (table_serde []) (sql_event_ops demo_engine) s' ''personal'' 2 empty_projection"
proof -
  obtain s' where s': "append_event demo_engine demo_store demo_request = (s', Inr demo_event)" "holds_log s'" "stored_log s' = [demo_event]"
    using demo_appended by blast
  have "through (empty_projection\<lparr>through := 1\<rparr>) = 1" by simp
  moreover note refresh_incremental[OF s'(2,2) _ demo_refresh[OF s'(2,3)], of "[]" 2]
  ultimately show ?thesis using s'(1) by (metis append_Nil2)
qed

text \<open>The result of a request is the first event of the stream that ends a call and was caused by the request or
  names it, and there is none exactly when the projection finds none.\<close>

theorem result_for_first:
  assumes "holds_log s" and "result_for sd (sql_event_ops en) rt s empty_projection i = Some (p, Inr r)"
  shows "r = find (answers_request sd i) (stream_log (stored_log s) (router_stream rt))"
  using assms by (rule sql.result_spec)

abbreviation demo_denial :: append_request where
  "demo_denial \<equiv> node_event demo_router ''capability.denied'' ''pluribus.capability-denied/1'' [] (Some demo_call) None"

abbreviation demo_denied :: committed_event where
  "demo_denied \<equiv> new_event [] demo_denial [] 0"

lemma demo_denied_found:
  assumes "holds_log s'" and "stored_log s' = [demo_denied]"
  shows "\<exists>p. result_for (table_serde []) (sql_event_ops demo_engine) demo_router s' empty_projection ''q'' = Some (p, Inr (Some demo_denied))"
proof -
  have "matching [demo_denied] ''personal'' (default_query\<lparr>event_types := projected_types, after_sequence := Some 0\<rparr>) = [demo_denied]"
    by (simp add: matching_def stream_log_def query_matches_iff default_query_def projected_types_def node_event_def new_event_def)
  moreover obtain p where "refresh_event (table_serde []) demo_denied empty_projection = Continue p" "results p ''q'' = Some []"
    by (simp add: refresh_event_def record_result_def payload_field_def payload_json_def table_serde_def node_event_def empty_projection_def or_insert_def)
  ultimately show ?thesis unfolding result_for_def sql.refresh_spec[OF assms(1)] assms(2)
    by (simp add: empty_projection_def sql.get[OF assms(1)] assms(2))
qed

theorem result_for_first_witness:
  "\<exists>s' p. append_event demo_engine demo_store demo_denial = (s', Inr demo_denied) \<and>
     result_for (table_serde []) (sql_event_ops demo_engine) demo_router s' empty_projection ''q'' = Some (p, Inr (Some demo_denied))"
proof -
  obtain s' where s': "append_event demo_engine demo_store demo_denial = (s', Inr demo_denied)" "holds_log s'" "stored_log s' = [demo_denied]"
    using demo_stores[of demo_denial] by (auto simp: validate_append_def node_event_def)
  obtain p where p: "result_for (table_serde []) (sql_event_ops demo_engine) demo_router s' empty_projection ''q'' = Some (p, Inr (Some demo_denied))"
    using demo_denied_found[OF s'(2,3)] by blast
  from result_for_first[OF s'(2) p] s'(1) p show ?thesis by blast
qed

end
