(* ===== verification/Origin_Authority.thy ===== *)
theory Origin_Authority
  imports Dispatch_Facts
begin

text \<open>
  Where an authority comes from (\<open>authority.rs\<close> of \<open>pluribus-cognition\<close>): the walk from a request to
  the observation that caused it, the authority issued for that observation, and the policy that matches
  the operator's constraints. Shown here: an authority rests on an observation that a configured connector made;
  a derived observation cannot change its origin; an untrusted origin gets nothing; and a reply reaches only the
  conversation it answers.
\<close>

section \<open>Model\<close>

record connector_config =
  conn_provider :: string
  inherits_origin :: bool
  ingress :: string
  reply :: string
  reply_capabilities :: "capability_name list"

record origin_authority =
  oa_agent :: principal_ref
  oa_connectors :: "connector_config list"
  oa_grants :: "capability_name \<rightharpoonup> grant list"
  oa_max_depth :: u32

definition observing_connector :: "origin_authority \<Rightarrow> committed_event \<Rightarrow> string + connector_config" where
  "observing_connector oa e = ok_or ''unrecognized observation connector''
     (find (\<lambda>c. actor (request e) = new_principal Component (ingress c)) (oa_connectors oa))"

definition observation_value :: "serde \<Rightarrow> committed_event \<Rightarrow> string + json" where
  "observation_value sd e = (case payload (request e) of
       CanonicalJson bs \<Rightarrow> from_slice sd bs
     | Blob _ \<Rightarrow> Inl ''invalid observation'')"

definition trusts :: "json \<Rightarrow> bool" where
  "trusts v = is_none_or (\<lambda>t. t = JBool True) (json_get v ''trusted'')"

text \<open>The grant of a reply capability, confined to one conversation. Writing the constraint is an \<open>unwrap\<close> in the
  source, which the error branch stands for.\<close>

definition reply_constraints :: "serde \<Rightarrow> string \<Rightarrow> string + constraint_set" where
  "reply_constraints sd conv = to_vec sd (json_object [(''conversation_ids'', JArray [JString conv])])"

definition reply_grant :: "connector_config \<Rightarrow> constraint_set \<Rightarrow> capability_name \<Rightarrow> grant" where
  "reply_grant c cs cap = \<lparr>capability = cap, provider = Some (new_principal Component (reply c)), constraints = cs\<rparr>"

definition issued_grants ::
  "origin_authority \<Rightarrow> connector_config \<Rightarrow> constraint_set \<Rightarrow> bool \<Rightarrow> capability_name \<rightharpoonup> grant list" where
  "issued_grants oa c cs trust = fold (\<lambda>cap gs. gs(cap \<mapsto> [reply_grant c cs cap])) (filter (\<lambda>_. trust) (reply_capabilities c))
     (if trust then oa_grants oa else Map.empty)"

definition issue :: "serde \<Rightarrow> origin_authority \<Rightarrow> committed_event \<Rightarrow> string + authority" where
  "issue sd oa e =
     rbind (observing_connector oa e) (\<lambda>c.
     rbind (observation_value sd e) (\<lambda>v.
     if json_index v ''provider'' \<noteq> JString (conn_provider c) then Inl ''unsupported origin''
     else rbind (ok_or ''missing conversation'' (as_str (json_index v ''conversationId''))) (\<lambda>conv.
     rbind (ok_or ''missing sender'' (as_str (json_index v ''externalSenderId''))) (\<lambda>sender.
     rbind (if trusts v \<and> reply_capabilities c \<noteq> [] then reply_constraints sd conv else Inr []) (\<lambda>cs.
       let principal = new_principal Human (conn_provider c @ '':'' @ sender); trust = trusts v in
       Inr \<lparr>authority_schema = ''pluribus.authority/1'', the_authority_id = ''origin:'' @ event_id e, agent = oa_agent oa,
         the_origin = \<lparr>origin_kind = Connector, origin_principal = Some principal, origin_connector = Some (actor (request e)),
           origin_conversation_id = Some conv, source_event_id = event_id e, trusted = trust\<rparr>,
         delegation_chain = [], grants = issued_grants oa c cs trust,
         audiences = (if trust \<and> reply c \<noteq> [] then
           [\<lparr>connector = new_principal Component (reply c), conversation_id = conv, recipients = [principal]\<rparr>] else []),
         parent_authority = None, issued_at_ms = recorded_at_ms e, expires_at_ms = None,
         max_depth = oa_max_depth oa, current_depth = 0\<rparr>)))))"

text \<open>An observation on the way back: the origin that a derived observation named is checked here, and the walk ends or
  goes on with what this one names.\<close>

definition same_origin :: "json \<Rightarrow> json \<Rightarrow> bool" where
  "same_origin v w \<longleftrightarrow> list_all (\<lambda>k. json_index v k = json_index w k) [''provider'', ''externalSenderId'', ''conversationId''] \<and>
     trusts v = trusts w"

definition observe_origin ::
  "serde \<Rightarrow> origin_authority \<Rightarrow> committed_event \<Rightarrow> (event_id \<times> json) option \<Rightarrow> string + authority + event_id \<times> json" where
  "observe_origin sd oa e inherited =
     rbind (observing_connector oa e) (\<lambda>c.
     rbind (observation_value sd e) (\<lambda>v.
     if is_some_and (\<lambda>(i, w). event_id e \<noteq> i \<or> \<not> same_origin v w) inherited then Inl ''derived observation changes its origin''
     else if \<not> inherits_origin c then rbind (issue sd oa e) (\<lambda>a. Inr (Inl a))
     else rbind (ok_or ''derived observation requires originEventId'' (as_str (json_index v ''originEventId''))) (\<lambda>i.
       Inr (Inr (i, v)))))"

definition cause_of :: "'s event_ops \<Rightarrow> 's \<Rightarrow> committed_event \<Rightarrow> string + committed_event" where
  "cause_of ops s e =
     rbind (ok_or ''request has no observation origin'' (causation_id (request e))) (\<lambda>i.
     rbind (map_err append_error_display (op_get ops s i)) (\<lambda>found.
     rbind (ok_or ''origin not found'' found) (\<lambda>parent.
       if sequence e \<le> sequence parent then Inl ''invalid origin chain'' else Inr parent)))"

primrec resolve_from ::
  "serde \<Rightarrow> 's event_ops \<Rightarrow> origin_authority \<Rightarrow> 's \<Rightarrow> nat \<Rightarrow> committed_event \<Rightarrow> (event_id \<times> json) option \<Rightarrow> string + authority" where
  "resolve_from sd ops oa s 0 e inherited = Inl ''origin chain exceeds limit''"
| "resolve_from sd ops oa s (Suc n) e inherited =
     (if stream_id (request e) \<noteq> pr_id (oa_agent oa) then Inl ''origin belongs to another agent''
      else if event_type (request e) = ''observation.received'' then
        rbind (observe_origin sd oa e inherited) (\<lambda>x. case x of
            Inl a \<Rightarrow> Inr a
          | Inr iv \<Rightarrow> rbind (cause_of ops s e) (\<lambda>parent. resolve_from sd ops oa s n parent (Some iv)))
      else rbind (cause_of ops s e) (\<lambda>parent. resolve_from sd ops oa s n parent inherited))"

definition resolve :: "serde \<Rightarrow> 's event_ops \<Rightarrow> origin_authority \<Rightarrow> 's \<Rightarrow> committed_event \<Rightarrow> string + authority" where
  "resolve sd ops oa s e = resolve_from sd ops oa s 4096 e None"

definition origin_allows :: "serde \<Rightarrow> grant \<Rightarrow> bytes \<Rightarrow> string + bool" where
  "origin_allows sd g selectors =
     rbind (from_slice sd (constraints g)) (\<lambda>cs.
     rbind (from_slice sd selectors) (\<lambda>sel.
     rbind (ok_or ''constraints must be an object'' (as_object cs)) (\<lambda>cs.
       Inr (list_all (\<lambda>(k, allowed). is_some_and (\<lambda>values. is_some_and (\<lambda>v. List.member values v) (json_get sel k)) (as_array allowed)) cs))))"

definition origin_constraints :: "serde \<Rightarrow> constraint_policy" where
  "origin_constraints sd = \<lparr>allows = origin_allows sd, allows_projected = (\<lambda>g _ selectors. origin_allows sd g selectors)\<rparr>"

section \<open>What the walk finds\<close>

inductive causal_chain :: "committed_event list \<Rightarrow> committed_event \<Rightarrow> committed_event \<Rightarrow> bool" for es where
  chain_here: "causal_chain es e e"
| chain_back: "\<lbrakk>p \<in> set es; causation_id (request e) = Some (event_id p); sequence p < sequence e; causal_chain es p e'\<rbrakk> \<Longrightarrow> causal_chain es e e'"

lemma resolve_Suc: "resolve sd ops oa s e = resolve_from sd ops oa s (Suc (Suc 4094)) e None"
  by (simp add: resolve_def del: resolve_from.simps)

lemma observing_connector_Inr:
  "observing_connector oa e = Inr c \<Longrightarrow> c \<in> set (oa_connectors oa) \<and> actor (request e) = new_principal Component (ingress c)"
  by (auto simp: observing_connector_def dest: find_SomeD)

lemma observe_issued: "observe_origin sd oa e inh = Inr (Inl a) \<Longrightarrow> issue sd oa e = Inr a \<and> (\<exists>c. observing_connector oa e = Inr c \<and> \<not> inherits_origin c)"
  by (auto simp: observe_origin_def split: if_splits)

text \<open>The observation an authority was issued for.\<close>

definition grounds :: "serde \<Rightarrow> origin_authority \<Rightarrow> authority \<Rightarrow> committed_event \<Rightarrow> bool" where
  "grounds sd oa a ob \<longleftrightarrow> event_type (request ob) = ''observation.received'' \<and> stream_id (request ob) = pr_id (oa_agent oa) \<and>
     issue sd oa ob = Inr a \<and>
     (\<exists>c \<in> set (oa_connectors oa). actor (request ob) = new_principal Component (ingress c) \<and> \<not> inherits_origin c)"

context event_store
begin

lemma cause_of_Inr:
  assumes "inv s" and "cause_of ops s e = Inr p"
  shows "p \<in> set (log s) \<and> causation_id (request e) = Some (event_id p) \<and> sequence p < sequence e"
  using assms(2) by (auto simp: cause_of_def get[OF assms(1)] split: if_splits dest: find_SomeD)

lemma resolve_from_grounded:
  assumes inv: "inv s"
  shows "resolve_from sd ops oa s n e inh = Inr a \<Longrightarrow> \<exists>ob. causal_chain (log s) e ob \<and> grounds sd oa a ob"
proof (induction n arbitrary: e inh)
  case (Suc n)
  have earlier: "\<exists>ob. causal_chain (log s) e ob \<and> grounds sd oa a ob"
    if "cause_of ops s e = Inr p" and "resolve_from sd ops oa s n p inh' = Inr a" for p inh'
    using Suc.IH[OF that(2)] cause_of_Inr[OF inv that(1)] by (blast intro: causal_chain.chain_back)
  show ?case
  proof (cases "event_type (request e) = ''observation.received''")
    case True
    with Suc.prems obtain x where x: "observe_origin sd oa e inh = Inr x" and stream: "stream_id (request e) = pr_id (oa_agent oa)"
      by (auto split: if_splits)
    show ?thesis
    proof (cases x)
      case (Inl b)
      with True Suc.prems x have "observe_origin sd oa e inh = Inr (Inl a)" by (auto split: if_splits)
      from observe_issued[OF this] show ?thesis
        using True stream by (auto simp: grounds_def intro!: exI[of _ e] causal_chain.chain_here dest: observing_connector_Inr)
    next
      case (Inr iv)
      with True Suc.prems x earlier show ?thesis by (auto split: if_splits)
    qed
  next
    case False
    with Suc.prems earlier show ?thesis by (auto split: if_splits)
  qed
qed simp

end

lemma resolve_issued: "holds_log s \<Longrightarrow> resolve sd (sql_event_ops en) oa s e = Inr a \<Longrightarrow> \<exists>ob. issue sd oa ob = Inr a"
  using sql.resolve_from_grounded[of s sd en oa 4096 e None a] by (auto simp: resolve_def grounds_def)

text \<open>What an origin says about itself, read from an observation.\<close>

definition speaks_for :: "authority \<Rightarrow> json \<Rightarrow> bool" where
  "speaks_for a v \<longleftrightarrow> (\<exists>p sender conv. json_index v ''provider'' = JString p \<and> json_index v ''externalSenderId'' = JString sender \<and>
     json_index v ''conversationId'' = JString conv \<and>
     origin_principal (the_origin a) = Some (new_principal Human (p @ '':'' @ sender)) \<and>
     origin_conversation_id (the_origin a) = Some conv \<and> trusted (the_origin a) = trusts v)"

lemma speaks_for_same: "speaks_for a v \<Longrightarrow> same_origin v w \<Longrightarrow> speaks_for a w"
  by (simp add: speaks_for_def same_origin_def)

lemma issue_speaks: "issue sd oa e = Inr a \<Longrightarrow> observation_value sd e = Inr v \<Longrightarrow> speaks_for a v"
  by (auto simp: issue_def speaks_for_def Let_def as_str_eq_Some split: if_splits)

lemma resolve_from_derived:
  "resolve_from sd ops oa s n e (Some (i, w)) = Inr a \<Longrightarrow> speaks_for a w"
proof (induction n arbitrary: e i w)
  case (Suc n)
  show ?case
  proof (cases "event_type (request e) = ''observation.received''")
    case True
    with Suc.prems obtain x where x: "observe_origin sd oa e (Some (i, w)) = Inr x" by (auto split: if_splits)
    then obtain v where v: "observation_value sd e = Inr v" "same_origin v w"
      by (auto simp: observe_origin_def split: if_splits)
    have "speaks_for a v"
    proof (cases x)
      case (Inl b)
      with True Suc.prems x have "issue sd oa e = Inr a" by (auto split: if_splits dest: observe_issued)
      with v show ?thesis by (simp add: issue_speaks)
    next
      case (Inr iv)
      with x v have "snd iv = v" by (auto simp: observe_origin_def split: if_splits)
      with True Suc.prems x Inr Suc.IH[of _ "fst iv" "snd iv"] show ?thesis by (auto split: if_splits)
    qed
    then show ?thesis using v(2) by (rule speaks_for_same)
  next
    case False
    with Suc.prems Suc.IH show ?thesis by (auto split: if_splits)
  qed
qed simp

lemma derived_speaks:
  assumes "event_type (request e) = ''observation.received''" and "observing_connector oa e = Inr c" and "inherits_origin c"
    and "observation_value sd e = Inr v" and "resolve_from sd ops oa s (Suc n) e None = Inr a"
  shows "speaks_for a v"
proof -
  from assms obtain i p where "resolve_from sd ops oa s n p (Some (i, v)) = Inr a"
    by (auto simp: observe_origin_def split: if_splits)
  then show ?thesis by (rule resolve_from_derived)
qed

section \<open>What an issued authority grants\<close>

lemma issue_untrusted: "issue sd oa e = Inr a \<Longrightarrow> \<not> trusted (the_origin a) \<Longrightarrow> grants a = Map.empty \<and> audiences a = []"
  by (auto simp: issue_def Let_def issued_grants_def split: if_splits)

lemma fold_reply_grants:
  "fold (\<lambda>cap gs. gs(cap \<mapsto> [reply_grant c cs cap])) caps m cap = (if cap \<in> set caps then Some [reply_grant c cs cap] else m cap)"
  by (induction caps arbitrary: m) auto

lemma issue_reply:
  assumes "issue sd oa e = Inr a" and "observing_connector oa e = Inr c" and "cap \<in> set (reply_capabilities c)" and "trusted (the_origin a)"
  shows "\<exists>conv cs. origin_conversation_id (the_origin a) = Some conv \<and> reply_constraints sd conv = Inr cs \<and>
    grants a cap = Some [reply_grant c cs cap]"
proof -
  have "reply_capabilities c \<noteq> []" using assms(3) by auto
  with assms(1,2,4) obtain conv cs where cs: "origin_conversation_id (the_origin a) = Some conv" "reply_constraints sd conv = Inr cs"
    and "grants a = issued_grants oa c cs True"
    by (auto simp: issue_def Let_def split: if_splits)
  moreover have "issued_grants oa c cs True cap = Some [reply_grant c cs cap]"
    using assms(3) by (simp add: issued_grants_def fold_reply_grants)
  ultimately show ?thesis by auto
qed

lemma route_decision_Deliver:
  assumes "route_decision sd rt e a now cap = Deliver i"
  shows "\<exists>r g. r \<in> set (registrations rt) \<and> instance_id r = i \<and> decide a cap (new_principal Component i) (value_text sd (request_arguments sd e))
    (projected_policy sd (router_constraints rt) (btree_get (sub_bindings (reg_subscriptions r)) cap)) now = Allow g"
proof -
  let ?rs = "filter (\<lambda>r. List.member (sub_capabilities (reg_subscriptions r)) cap) (registrations rt)"
  from assms obtain r where r: "?rs = [r]" by (auto simp: route_decision_def split: list.splits)
  then have "r \<in> set ?rs" by simp
  then have "r \<in> set (registrations rt)" by (simp only: set_filter mem_Collect_eq)
  moreover obtain g where "instance_id r = i" "decide a cap (new_principal Component i) (value_text sd (request_arguments sd e))
    (projected_policy sd (router_constraints rt) (btree_get (sub_bindings (reg_subscriptions r)) cap)) now = Allow g"
    using assms r by (auto simp: route_decision_def Let_def split: decision.splits)
  ultimately show ?thesis by blast
qed

lemma decide_single:
  assumes "decide a cap prov req pol now = Allow g'" and "grants a cap = Some [g]" and "provider g = Some p"
  shows "prov = p" and "allows pol g req = Inr True"
  using assms by (auto simp: decide_def split: if_splits sum.splits bool.splits)

text \<open>A selector of the projection comes from the provider's binding for it.\<close>

lemma project_selectors_get:
  assumes "project_selectors sd cs v bs acc = Some sel" and "btree_wf acc" and "btree_get sel k = Some x"
  shows "btree_get acc k = Some x \<or> (\<exists>b s. (k, b) \<in> set bs \<and> project_parts sd v (binding_parts b) [] = Some s \<and> x = JString s)"
  using assms
proof (induction sd cs v bs acc rule: project_selectors.induct)
  case (2 sd cs req j b bs acc)
  show ?case
  proof (cases "btree_get cs j = None")
    case True
    with 2 show ?thesis by (auto split: if_splits)
  next
    case False
    with 2(3) obtain s where s: "binding_parts b \<noteq> []" "project_parts sd req (binding_parts b) [] = Some s"
      "project_selectors sd cs req bs (btree_insert j (JString s) acc) = Some sel"
      by (auto split: if_splits option.splits)
    from 2(2)[OF False s(1,2,3)] 2(4,5) have "btree_get (btree_insert j (JString s) acc) k = Some x \<or>
      (\<exists>b s. (k, b) \<in> set bs \<and> project_parts sd req (binding_parts b) [] = Some s \<and> x = JString s)" by simp
    with 2(4) s(2) show ?thesis by (auto split: if_splits)
  qed
qed simp

text \<open>A request that the projected operator policy allows under the constraint of one conversation names that conversation.\<close>

lemma projected_reply:
  assumes rb: "reads_back sd" and cs: "reply_constraints sd conv = Inr cs"
    and allow: "projected_allows sd (origin_constraints sd) bindings g req = Inr True" and g: "constraints g = cs"
  shows "\<exists>bs b v. bindings = Some bs \<and> (''conversation_ids'', b) \<in> set bs \<and> from_slice sd req = Inr v \<and>
    project_parts sd v (binding_parts b) [] = Some conv"
proof -
  let ?obj = "[(''conversation_ids'', JArray [JString conv])]"
  have read: "from_slice sd (constraints g) = Inr (JObject ?obj)"
    using reads_backD[OF rb] cs g by (simp add: reply_constraints_def json_object_def btree_of_def)
  with allow obtain v sel bs where v: "from_slice sd req = Inr v"
    and sel: "project_selectors sd ?obj v (case bindings of None \<Rightarrow> [] | Some bs \<Rightarrow> bs) [] = Some sel"
    and bs: "to_vec sd (JObject sel) = Inr bs" and ok: "origin_allows sd g bs = Inr True"
    by (auto simp: projected_allows_def origin_constraints_def as_object_def split: option.splits)
  from ok read reads_backD[OF rb bs] have "btree_get sel ''conversation_ids'' = Some (JString conv)"
    by (auto simp: origin_allows_def as_object_def as_array_def is_some_and_iff)
  from project_selectors_get[OF sel _ this] v show ?thesis by (cases bindings) auto
qed

section \<open>Properties\<close>

text \<open>C25: An authority is never made up. What resolves for a request was issued for an observation that lies on the
  causal chain of the request, in the agent's own stream, recorded by the ingress component of a configured
  connector that may issue authority.\<close>

theorem authority_grounded:
  assumes "holds_log s" and "resolve sd (sql_event_ops en) oa s e = Inr a"
  shows "\<exists>ob. causal_chain (stored_log s) e ob \<and> grounds sd oa a ob"
  using assms sql.resolve_from_grounded by (auto simp: resolve_def)

text \<open>A conversation to test with: an observation, a request it caused, and the component that answers.\<close>

abbreviation chat_serde :: serde where
  "chat_serde \<equiv> (table_serde [
     (''o'', JObject [(''conversationId'', JString ''c1''), (''externalSenderId'', JString ''u''), (''originEventId'', JString []), (''provider'', JString ''cli'')]),
     (''k'', JObject [(''conversation_ids'', JArray [JString ''c1''])]), (''c'', JObject [(''chat'', JString ''c1'')]),
     (''s'', JObject [(''conversation_ids'', JString ''c1'')]),
     (''t'', JObject [(''conversationId'', JString ''c1''), (''externalSenderId'', JString ''u''), (''provider'', JString ''cli''), (''trusted'', JBool False)]),
     (''r'', JObject [(''arguments'', JObject [(''chat'', JString ''c1'')]), (''capability'', JString ''cli.send'')])])
     \<lparr>json_pointer := (\<lambda>v p. if p = ''/chat'' then json_get v ''chat'' else None)\<rparr>"

abbreviation chat_request :: "string \<Rightarrow> string \<Rightarrow> bytes \<Rightarrow> event_id option \<Rightarrow> append_request" where
  "chat_request ty who bs cause \<equiv> \<lparr>stream_id = ''personal'', stream_kind = AgentStream, observed_at_ms = None, event_type = ty,
     payload_schema = ''test/1'', payload = CanonicalJson bs, actor = \<lparr>pr_kind = Component, pr_id = who\<rparr>, authority_id = None,
     activity_id = None, correlation_id = None, causation_id = cause, deduplication_key = None\<rparr>"

abbreviation chat_event :: "event_id \<Rightarrow> u64 \<Rightarrow> append_request \<Rightarrow> committed_event" where
  "chat_event i n r \<equiv> \<lparr>schema = event_schema, event_id = i, sequence = n, recorded_at_ms = 0, request = r\<rparr>"

abbreviation chat_origin :: origin_authority where
  "chat_origin \<equiv> \<lparr>oa_agent = \<lparr>pr_kind = Agent, pr_id = ''personal''\<rparr>, oa_connectors = [
     \<lparr>conn_provider = ''cli'', inherits_origin = False, ingress = ''cli-1/receive'', reply = ''cli-1/send'', reply_capabilities = [''cli.send'']\<rparr>,
     \<lparr>conn_provider = ''timer'', inherits_origin = True, ingress = ''scheduler-1'', reply = [], reply_capabilities = []\<rparr>],
     oa_grants = Map.empty, oa_max_depth = 3\<rparr>"

abbreviation chat_observation :: append_request where
  "chat_observation \<equiv> chat_request ''observation.received'' ''cli-1/receive'' ''o'' None"

lemma chat_reads_back: "reads_back chat_serde"
  unfolding reads_back_def by (auto simp: table_serde_def split: if_splits)

lemma chat_stored:
  "\<exists>s. append_event demo_engine demo_store chat_observation = (s, Inr (chat_event [] 1 chat_observation)) \<and> holds_log s \<and>
     stored_log s = [chat_event [] 1 chat_observation]"
  using demo_stores[of chat_observation] by (simp add: validate_append_def new_event_def stream_log_def)

text \<open>The authority of that conversation.\<close>

lemma chat_issued: "\<exists>a. issue chat_serde chat_origin (chat_event [] 1 chat_observation) = Inr a \<and> trusted (the_origin a) \<and>
  origin_conversation_id (the_origin a) = Some ''c1'' \<and> origin_connector (the_origin a) = Some \<lparr>pr_kind = Component, pr_id = ''cli-1/receive''\<rparr> \<and>
  grants a = [''cli.send'' \<mapsto> [reply_grant (oa_connectors chat_origin ! 0) ''k'' ''cli.send'']] \<and> expires_at_ms a = None \<and> current_depth a = 0"
  by (simp add: issue_def observing_connector_def observation_value_def new_principal_def table_serde_def json_index_def trusts_def
      reply_constraints_def json_object_def btree_of_def Let_def issued_grants_def)

lemma chat_resolved:
  assumes "holds_log s" and "stored_log s = [chat_event [] 1 chat_observation]"
    and "issue chat_serde chat_origin (chat_event [] 1 chat_observation) = Inr a"
  shows "resolve chat_serde (sql_event_ops demo_engine) chat_origin s (chat_event ''q'' 7 (chat_request ''capability.requested'' ''rlm-1'' ''r'' (Some []))) = Inr a"
proof -
  let ?q = "chat_event ''q'' 7 (chat_request ''capability.requested'' ''rlm-1'' ''r'' (Some []))"
  have "cause_of (sql_event_ops demo_engine) s ?q = Inr (chat_event [] 1 chat_observation)"
    by (simp add: cause_of_def sql.get[OF assms(1)] assms(2) word_le_nat_alt)
  moreover have "observe_origin chat_serde chat_origin (chat_event [] 1 chat_observation) None = Inr (Inl a)"
    using assms(3) by (simp add: observe_origin_def observing_connector_def observation_value_def new_principal_def table_serde_def)
  ultimately show ?thesis
    unfolding resolve_Suc by (simp del: Suc_numeral)
qed

theorem authority_grounded_witness:
  "\<exists>s a ob. append_event demo_engine demo_store chat_observation = (s, Inr (chat_event [] 1 chat_observation)) \<and>
     resolve chat_serde (sql_event_ops demo_engine) chat_origin s (chat_event ''q'' 7 (chat_request ''capability.requested'' ''rlm-1'' ''r'' (Some []))) = Inr a \<and>
     grounds chat_serde chat_origin a ob"
proof -
  obtain s a where s: "append_event demo_engine demo_store chat_observation = (s, Inr (chat_event [] 1 chat_observation))" "holds_log s"
    "stored_log s = [chat_event [] 1 chat_observation]" and a: "issue chat_serde chat_origin (chat_event [] 1 chat_observation) = Inr a"
    using chat_stored chat_issued by blast
  note r = chat_resolved[OF s(2,3) a]
  from authority_grounded[OF s(2) r] s(1) r show ?thesis by blast
qed

text \<open>C26: A derived observation, such as one a scheduler makes, keeps its origin: the authority that resolves for it speaks
  for the sender, the conversation and the trust that it states itself, so a component that may only inherit an origin
  can neither choose another conversation nor raise its trust.\<close>

theorem derived_origin_kept:
  assumes "event_type (request e) = ''observation.received''" and "observing_connector oa e = Inr c" and "inherits_origin c"
    and "observation_value sd e = Inr v" and "resolve sd ops oa s e = Inr a"
  shows "speaks_for a v"
  using assms(1-4) assms(5)[unfolded resolve_Suc] by (rule derived_speaks)

text \<open>A reminder that repeats the observation it derives from.\<close>

theorem derived_origin_kept_witness:
  "\<exists>s a. append_event demo_engine demo_store chat_observation = (s, Inr (chat_event [] 1 chat_observation)) \<and>
     resolve chat_serde (sql_event_ops demo_engine) chat_origin s
       (chat_event ''d'' 7 (chat_request ''observation.received'' ''scheduler-1'' ''o'' (Some []))) = Inr a \<and>
     origin_conversation_id (the_origin a) = Some ''c1''"
proof -
  let ?d = "chat_event ''d'' 7 (chat_request ''observation.received'' ''scheduler-1'' ''o'' (Some []))"
  obtain s a where s: "append_event demo_engine demo_store chat_observation = (s, Inr (chat_event [] 1 chat_observation))" "holds_log s"
    "stored_log s = [chat_event [] 1 chat_observation]" and a: "issue chat_serde chat_origin (chat_event [] 1 chat_observation) = Inr a"
    using chat_stored chat_issued by blast
  obtain v where v: "observation_value chat_serde ?d = Inr v" "observation_value chat_serde (chat_event [] 1 chat_observation) = Inr v"
    "json_index v ''originEventId'' = JString []" "json_index v ''conversationId'' = JString ''c1''"
    by (simp add: observation_value_def table_serde_def json_index_def)
  have c: "observing_connector chat_origin ?d = Inr (oa_connectors chat_origin ! 1)"
    "observing_connector chat_origin (chat_event [] 1 chat_observation) = Inr (oa_connectors chat_origin ! 0)"
    by (simp_all add: observing_connector_def new_principal_def)
  have "cause_of (sql_event_ops demo_engine) s ?d = Inr (chat_event [] 1 chat_observation)"
    by (simp add: cause_of_def sql.get[OF s(2)] s(3) word_le_nat_alt)
  moreover have "observe_origin chat_serde chat_origin ?d None = Inr (Inr ([], v))"
    "observe_origin chat_serde chat_origin (chat_event [] 1 chat_observation) (Some ([], v)) = Inr (Inl a)"
    using v c a by (simp_all add: observe_origin_def same_origin_def)
  ultimately have r: "resolve chat_serde (sql_event_ops demo_engine) chat_origin s ?d = Inr a"
    unfolding resolve_Suc by (simp del: Suc_numeral)
  from derived_origin_kept[OF _ c(1) _ v(1) r] v(4) s(1) r show ?thesis by (auto simp: speaks_for_def)
qed

text \<open>C27: An untrusted origin gets nothing done: whatever the operator granted and whichever providers are installed,
  no request that resolves to it is delivered, not even a reply to its own conversation.\<close>

theorem untrusted_never_delivered:
  assumes "resolve sd (sql_event_ops en) oa s e = Inr a" and "holds_log s" and "\<not> trusted (the_origin a)"
  shows "route_decision sd rt e' a now cap \<noteq> Deliver i"
proof -
  obtain ob where "issue sd oa ob = Inr a" using resolve_issued[OF assms(2,1)] by blast
  then have "grants a = Map.empty" using issue_untrusted assms(3) by blast
  then show ?thesis by (auto simp: route_decision_def decide_def Let_def split: list.splits if_splits)
qed

theorem untrusted_never_delivered_witness:
  "\<exists>a. resolve chat_serde (sql_event_ops demo_engine) chat_origin demo_store
       (chat_event ''o'' 1 (chat_request ''observation.received'' ''cli-1/receive'' ''t'' None)) = Inr a \<and>
     route_decision chat_serde demo_router demo_call a 0 ''echo.say'' \<noteq> Deliver ''echo-1''"
proof -
  let ?e = "chat_event ''o'' 1 (chat_request ''observation.received'' ''cli-1/receive'' ''t'' None)"
  obtain a where a: "issue chat_serde chat_origin ?e = Inr a" "\<not> trusted (the_origin a)"
    by (simp add: issue_def observing_connector_def observation_value_def new_principal_def table_serde_def json_index_def trusts_def Let_def)
  then have "observe_origin chat_serde chat_origin ?e None = Inr (Inl a)"
    by (simp add: observe_origin_def observing_connector_def observation_value_def new_principal_def table_serde_def)
  then have r: "resolve chat_serde (sql_event_ops demo_engine) chat_origin demo_store ?e = Inr a"
    unfolding resolve_Suc by (simp del: Suc_numeral)
  from untrusted_never_delivered[OF r demo_holds(1) a(2)] r show ?thesis by blast
qed

text \<open>C24: A reply reaches only the conversation it answers. When a request for one of the connector's reply
  capabilities is delivered under an authority that resolved from the connector's observation, it goes to the connector's reply
  component, and the conversation that the provider's binding reads from the arguments is the one of the origin.\<close>

theorem replies_confined:
  assumes "reads_back sd" and "holds_log s" and "resolve sd (sql_event_ops en) oa s e = Inr a"
    and "find (\<lambda>c. origin_connector (the_origin a) = Some (new_principal Component (ingress c))) (oa_connectors oa) = Some c"
    and "cap \<in> set (reply_capabilities c)" and "router_constraints rt = origin_constraints sd"
    and "route_decision sd rt e' a now cap = Deliver i"
  shows "i = reply c \<and> (\<exists>r bs b v. r \<in> set (registrations rt) \<and> instance_id r = i \<and> btree_get (sub_bindings (reg_subscriptions r)) cap = Some bs \<and>
    (''conversation_ids'', b) \<in> set bs \<and> from_slice sd (value_text sd (request_arguments sd e')) = Inr v \<and>
    project_parts sd v (binding_parts b) [] = origin_conversation_id (the_origin a))"
proof -
  obtain ob where ob: "issue sd oa ob = Inr a" using resolve_issued[OF assms(2,3)] by blast
  then have "origin_connector (the_origin a) = Some (actor (request ob))" by (auto simp: issue_def Let_def split: if_splits)
  with assms(4) have c: "observing_connector oa ob = Inr c" by (simp add: observing_connector_def)
  obtain r g where r: "r \<in> set (registrations rt)" "instance_id r = i" and allow: "decide a cap (new_principal Component i)
      (value_text sd (request_arguments sd e')) (projected_policy sd (origin_constraints sd) (btree_get (sub_bindings (reg_subscriptions r)) cap)) now = Allow g"
    using route_decision_Deliver[OF assms(7)] assms(6) by auto
  have "grants a cap \<noteq> None" using allow by (cases "grants a cap") (auto simp: decide_def split: if_splits)
  then have "trusted (the_origin a)" using issue_untrusted[OF ob] by (cases "trusted (the_origin a)") simp_all
  from issue_reply[OF ob c assms(5) this] obtain conv cs where conv: "origin_conversation_id (the_origin a) = Some conv"
    "reply_constraints sd conv = Inr cs" "grants a cap = Some [reply_grant c cs cap]" by blast
  note one = decide_single[OF allow conv(3), of "new_principal Component (reply c)"]
  have "i = reply c" using one(1) by (simp add: reply_grant_def new_principal_def)
  moreover have "projected_allows sd (origin_constraints sd) (btree_get (sub_bindings (reg_subscriptions r)) cap) (reply_grant c cs cap)
      (value_text sd (request_arguments sd e')) = Inr True"
    using one(2) by (simp add: reply_grant_def projected_policy_def)
  from projected_reply[OF assms(1) conv(2) this] conv(1) r have "\<exists>r bs b v. r \<in> set (registrations rt) \<and> instance_id r = i \<and>
    btree_get (sub_bindings (reg_subscriptions r)) cap = Some bs \<and> (''conversation_ids'', b) \<in> set bs \<and>
    from_slice sd (value_text sd (request_arguments sd e')) = Inr v \<and>
    project_parts sd v (binding_parts b) [] = origin_conversation_id (the_origin a)" by (auto simp: reply_grant_def)
  ultimately show ?thesis ..
qed

abbreviation chat_router :: router where
  "chat_router \<equiv> \<lparr>router_stream = ''personal'', router_agent = \<lparr>pr_kind = Agent, pr_id = ''personal''\<rparr>,
     registrations = [\<lparr>instance_id = ''cli-1/send'', reg_subscriptions = \<lparr>sub_idempotency = [], whole_stream = False, sub_event_types = [],
       sub_capabilities = [''cli.send''], sub_models = [], sub_bindings = [(''cli.send'', [(''conversation_ids'',
         \<lparr>binding_parts = [\<lparr>part_pointer = ''/chat'', part_prefix = [], part_optional = False\<rparr>], binding_required = True\<rparr>)])]\<rparr>\<rparr>],
     router_registry = core_registry, router_constraints = origin_constraints chat_serde\<rparr>"

lemma chat_delivered:
  assumes "grants a = [''cli.send'' \<mapsto> [reply_grant (oa_connectors chat_origin ! 0) ''k'' ''cli.send'']]" and "expires_at_ms a = None" and "current_depth a = 0"
  shows "route_decision chat_serde chat_router e a 0 ''cli.send'' = Deliver ''cli-1/send''"
proof -
  have "projected_allows chat_serde (origin_constraints chat_serde) (Some [(''conversation_ids'',
         \<lparr>binding_parts = [\<lparr>part_pointer = ''/chat'', part_prefix = [], part_optional = False\<rparr>], binding_required = True\<rparr>)])
      (reply_grant (oa_connectors chat_origin ! 0) ''k'' ''cli.send'') ''c'' = Inr True"
    by (simp add: projected_allows_def reply_grant_def table_serde_def as_object_def origin_constraints_def origin_allows_def as_array_def)
  then show ?thesis using assms
    by (simp add: route_decision_def decide_def is_expired_at_def projected_policy_def) (simp add: table_serde_def reply_grant_def new_principal_def)
qed

theorem replies_confined_witness:
  "\<exists>s a. append_event demo_engine demo_store chat_observation = (s, Inr (chat_event [] 1 chat_observation)) \<and>
     resolve chat_serde (sql_event_ops demo_engine) chat_origin s (chat_event ''q'' 7 (chat_request ''capability.requested'' ''rlm-1'' ''r'' (Some []))) = Inr a \<and>
     route_decision chat_serde chat_router (chat_event ''q'' 7 (chat_request ''capability.requested'' ''rlm-1'' ''r'' (Some []))) a 0 ''cli.send'' = Deliver ''cli-1/send'' \<and>
     (\<exists>v. from_slice chat_serde ''c'' = Inr v \<and> 
        project_parts chat_serde v [\<lparr>part_pointer = ''/chat'', part_prefix = [], part_optional = False\<rparr>] [] = origin_conversation_id (the_origin a))"
proof -
  let ?q = "chat_event ''q'' 7 (chat_request ''capability.requested'' ''rlm-1'' ''r'' (Some []))"
  obtain s a where s: "append_event demo_engine demo_store chat_observation = (s, Inr (chat_event [] 1 chat_observation))" "holds_log s"
    "stored_log s = [chat_event [] 1 chat_observation]" and a: "issue chat_serde chat_origin (chat_event [] 1 chat_observation) = Inr a"
    "origin_conversation_id (the_origin a) = Some ''c1''" "origin_connector (the_origin a) = Some \<lparr>pr_kind = Component, pr_id = ''cli-1/receive''\<rparr>"
    "grants a = [''cli.send'' \<mapsto> [reply_grant (oa_connectors chat_origin ! 0) ''k'' ''cli.send'']]" "expires_at_ms a = None" "current_depth a = 0"
    using chat_stored chat_issued by blast
  note r = chat_resolved[OF s(2,3) a(1)] and d = chat_delivered[OF a(4-6), of ?q]
  have c: "find (\<lambda>c. origin_connector (the_origin a) = Some (new_principal Component (ingress c))) (oa_connectors chat_origin) =
    Some (oa_connectors chat_origin ! 0)" using a(3) by (simp add: new_principal_def)
  from replies_confined[OF chat_reads_back s(2) r c _ _ d] s(1) r d show ?thesis by (auto simp: table_serde_def)
qed

end
