(* ===== verification/Component_Store.thy ===== *)
theory Component_Store
  imports Sqlite_Store Sqlite_Scan Event_Store
begin

text \<open>
  The state and delivery traits of \<open>pluribus-core\<close> as records of operations, the contract a host relies on
  when it serves components from one store of events, state and cursors, and the SQLite store as its implementation.
\<close>

record 's state_ops =
  op_state_get :: "'s \<Rightarrow> state_namespace \<Rightarrow> string \<Rightarrow> state_error + state_snapshot"
  op_state_scan :: "'s \<Rightarrow> state_namespace \<Rightarrow> string \<Rightarrow> string option \<Rightarrow> u64 \<Rightarrow> state_error + state_page"
  op_state_apply :: "'s \<Rightarrow> state_namespace \<Rightarrow> u64 \<Rightarrow> state_mutation list \<Rightarrow> 's \<times> (state_error + u64)"

record 's delivery_ops =
  op_checkpoint :: "'s \<Rightarrow> cursor_key \<Rightarrow> delivery_error + u64"
  op_commit :: "'s \<Rightarrow> delivery_commit \<Rightarrow> 's \<times> (delivery_error + delivery_receipt)"
  op_discard :: "'s \<Rightarrow> cursor_key \<Rightarrow> 's \<times> (delivery_error + unit)"

definition sql_state_ops :: "store state_ops" where
  "sql_state_ops = \<lparr>op_state_get = state_get, op_state_scan = state_scan, op_state_apply = state_apply\<rparr>"

definition sql_delivery_ops :: "engine \<Rightarrow> store delivery_ops" where
  "sql_delivery_ops en = \<lparr>op_checkpoint = delivery_checkpoint, op_commit = store_commit en, op_discard = delivery_discard\<rparr>"

locale component_store = event_store ops log inv
  for ops :: "'s event_ops" and log :: "'s \<Rightarrow> committed_event list" and inv :: "'s \<Rightarrow> bool" +
  fixes sops :: "'s state_ops" and dops :: "'s delivery_ops"
    and entries :: "'s \<Rightarrow> state_namespace \<Rightarrow> string \<rightharpoonup> bytes" and cursors :: "'s \<Rightarrow> cursor_key \<Rightarrow> u64"
  assumes append_keeps: "\<lbrakk>inv s; op_append ops s r = (s', res)\<rbrakk> \<Longrightarrow> entries s' = entries s \<and> cursors s' = cursors s"
    and state_value: "inv s \<Longrightarrow> \<exists>n. op_state_get sops s ns k = Inr \<lparr>snapshot_revision = n, snapshot_value = entries s ns k\<rparr>"
    and checkpoint_read: "inv s \<Longrightarrow> op_checkpoint dops s ck = Inr (cursors s ck)"
    and commit_failed: "\<lbrakk>inv s; op_commit dops s c = (s', Inl e)\<rbrakk> \<Longrightarrow> inv s' \<and> log s' = log s \<and> entries s' = entries s \<and> cursors s' = cursors s"
    and commit_done: "\<lbrakk>inv s; op_commit dops s c = (s', Inr rc)\<rbrakk> \<Longrightarrow> inv s' \<and> cursors s (cursor c) = expected_checkpoint c \<and>
      receipt_checkpoint rc = (case checkpoint c of None \<Rightarrow> expected_checkpoint c | Some n \<Rightarrow> n) \<and>
      cursors s' = (cursors s)(cursor c := receipt_checkpoint rc) \<and>
      entries s' = (entries s)(cursor_namespace (cursor c) := fold mutate (mutations c) (entries s (cursor_namespace (cursor c)))) \<and>
      list_all2 answers (commit_events c) (receipt_events rc) \<and>
      (\<exists>new. log s' = log s @ new \<and> set (receipt_events rc) \<subseteq> set (log s') \<and> request ` set new \<subseteq> set (commit_events c))"
begin

text \<open>A commit only adds the proposed events, whatever it returns.\<close>

lemma commit_grows:
  assumes "inv s" and "op_commit dops s c = (s', r)"
  shows "inv s'" and "\<exists>new. log s' = log s @ new \<and> request ` set new \<subseteq> set (commit_events c)"
  using commit_failed[OF assms(1)] commit_done[OF assms(1)] assms(2) by (cases r; fastforce)+

end

definition holds_store :: "store \<Rightarrow> bool" where
  "holds_store s \<longleftrightarrow> holds_log s \<and> state_wf (db s)"

lemma holds_store_wf: "holds_store s \<longleftrightarrow> store_wf s (stored_log s)"
  by (simp add: holds_store_def store_wf_def holds_log_def)

lemma store_wf_holds: "store_wf s es \<Longrightarrow> holds_store s \<and> stored_log s = es"
  using holds_log_represents stored_log_represents by (auto simp: store_wf_def holds_store_def)

lemma append_event_same_state:
  assumes "holds_store s" and "append_event en s r = (s', res)"
  shows "same_state (db s) (db s')"
proof (cases res)
  case (Inl e)
  then have "db s' = db s" using append_event_error assms by (auto simp: holds_store_def holds_log_def)
  then show ?thesis by (simp add: same_state_def)
next
  case (Inr e)
  with append_event_ok assms show ?thesis by (fastforce simp: holds_store_def holds_log_def)
qed

interpretation sqls: event_store "sql_event_ops en" stored_log holds_store
proof
  fix s s' :: store and r res
  assume inv: "holds_store s" and call: "op_append (sql_event_ops en) s r = (s', res)"
  then have "same_state (db s) (db s')" using append_event_same_state by (simp add: sql_event_ops_def)
  with inv call sql.append[of s en r s' res] show "holds_store s' \<and> (case res of Inl _ \<Rightarrow> stored_log s' = stored_log s
    | Inr e \<Rightarrow> \<exists>eid at. log_append (stored_log s) r eid at = Inr (stored_log s', e))"
    by (auto simp: holds_store_def same_state_wf)
qed (simp_all add: holds_store_def sql.wf sql.get sql.read sql.query sql.query_sound)

interpretation sqld: component_store "sql_event_ops en" stored_log holds_store sql_state_ops "sql_delivery_ops en"
  "\<lambda>s. entries_of (db s)" "\<lambda>s. cursor_of (db s)"
proof
  fix s s' :: store and r res ns k ck c e rc
  show "entries_of (db s') = entries_of (db s) \<and> cursor_of (db s') = cursor_of (db s)"
    if "holds_store s" "op_append (sql_event_ops en) s r = (s', res)"
    using same_state_views[OF append_event_same_state[of s en r s' res]] that by (simp add: sql_event_ops_def)
  assume inv: "holds_store s"
  then have st: "state_wf (db s)" and wf: "store_wf s (stored_log s)" by (simp_all add: holds_store_def holds_store_wf[symmetric])
  show "\<exists>n. op_state_get sql_state_ops s ns k = Inr \<lparr>snapshot_revision = n, snapshot_value = entries_of (db s) ns k\<rparr>"
    by (simp add: sql_state_ops_def state_get_def state_revision_wf[OF st] entries_of_def)
  show "op_checkpoint (sql_delivery_ops en) s ck = Inr (cursor_of (db s) ck)"
    by (simp add: sql_delivery_ops_def delivery_checkpoint_def read_checkpoint_wf[OF st])
  show "holds_store s' \<and> stored_log s' = stored_log s \<and> entries_of (db s') = entries_of (db s) \<and> cursor_of (db s') = cursor_of (db s)"
    if "op_commit (sql_delivery_ops en) s c = (s', Inl e)"
  proof -
    from that have "store_commit en s c = (s', Inl e)" by (simp add: sql_delivery_ops_def)
    then have "db s' = db s" by (cases rule: store_commit_cases) auto
    with inv show ?thesis by (simp add: holds_store_def holds_log_def stored_log_def)
  qed
  assume "op_commit (sql_delivery_ops en) s c = (s', Inr rc)"
  then have "store_commit en s c = (s', Inr rc)" by (simp add: sql_delivery_ops_def)
  then have "commit_in en c s = (s', Inr rc)" by (cases rule: store_commit_cases) auto
  from commit_in_ok[OF wf this] obtain new where eff: "commit_effect c rc (db s) (db s')" and new: "store_wf s' (stored_log s @ new)"
    "list_all2 answers (commit_events c) (receipt_events rc)" "set (receipt_events rc) \<subseteq> set (stored_log s @ new)"
    "request ` set new \<subseteq> set (commit_events c)" by blast
  have "cursor_of (db s') = (cursor_of (db s))(cursor c := receipt_checkpoint rc)"
    and "entries_of (db s') = (entries_of (db s))(cursor_namespace (cursor c) := fold mutate (mutations c) (entries_of (db s) (cursor_namespace (cursor c))))"
    using eff by (auto simp: commit_effect_def fun_eq_iff)
  with eff new store_wf_holds[OF new(1)] show "holds_store s' \<and> cursor_of (db s) (cursor c) = expected_checkpoint c \<and>
      receipt_checkpoint rc = (case checkpoint c of None \<Rightarrow> expected_checkpoint c | Some n \<Rightarrow> n) \<and>
      cursor_of (db s') = (cursor_of (db s))(cursor c := receipt_checkpoint rc) \<and>
      entries_of (db s') = (entries_of (db s))(cursor_namespace (cursor c) := fold mutate (mutations c) (entries_of (db s) (cursor_namespace (cursor c)))) \<and>
      list_all2 answers (commit_events c) (receipt_events rc) \<and>
      (\<exists>new. stored_log s' = stored_log s @ new \<and> set (receipt_events rc) \<subseteq> set (stored_log s') \<and> request ` set new \<subseteq> set (commit_events c))"
    by (auto simp: commit_effect_def)
qed

end
