(* ===== verification/Host_Services.thy ===== *)
theory Host_Services
  imports Component_Store Host_Blobs Registry Json
begin

text \<open>
  The event and state imports the Wasm host gives a component (\<open>events::Host\<close> and \<open>state::Host for HostState\<close> in
  \<open>pluribus-runtime-wasm\<close>): what a proposal becomes before it is stored, which events and blobs a component may
  see, and the page it gets for a query. A component's record of an event, a payload or a blob reference has
  the fields of the core's, so the types of the core serve for both sides of the boundary.
\<close>

section \<open>Limits and errors\<close>

definition max_state_key_bytes :: nat where "max_state_key_bytes = 512"
definition max_state_value_bytes :: nat where "max_state_value_bytes = 1024 * 1024"
definition max_state_mutations :: nat where "max_state_mutations = 256"
definition max_state_scan_entries :: u32 where "max_state_scan_entries = 1000"
definition max_event_page :: u32 where "max_event_page = 1000"
definition max_outcome_events :: nat where "max_outcome_events = 1000"

record resource_exhaustion =
  re_resource :: string
  re_current_bytes :: u64
  re_requested_bytes :: u64
  re_limit_bytes :: u64
  re_phase :: string
  re_job_id :: "string option"
  re_session_id :: "string option"

record runtime_error =
  err_message :: string
  err_trapped :: bool
  err_resource :: "resource_exhaustion option"

definition runtime_failure :: "string \<Rightarrow> runtime_error" where
  "runtime_failure m = \<lparr>err_message = m, err_trapped = False, err_resource = None\<rparr>"

definition runtime_trap :: "string \<Rightarrow> runtime_error" where
  "runtime_trap m = \<lparr>err_message = m, err_trapped = True, err_resource = None\<rparr>"

definition runtime_limit :: "resource_exhaustion \<Rightarrow> string \<Rightarrow> runtime_error" where
  "runtime_limit r m = \<lparr>err_message = m, err_trapped = True, err_resource = Some r\<rparr>"

definition host_state_error :: "state_error \<Rightarrow> host_error" where
  "host_state_error e = (case e of
       StateConflict expected actual \<Rightarrow>
         host_error Conflict (''state revision conflict: expected '' @ show_u64 expected @ '', actual '' @ show_u64 actual)
     | StateInvalid m \<Rightarrow> host_error InvalidArgument m
     | StateStorage m \<Rightarrow> \<lparr>code = Internal, message = m, retryable = True, details = None\<rparr>)"

section \<open>What crosses the boundary\<close>

record wit_event =
  we_event_id :: string
  we_sequence :: u64
  we_recorded_at_ms :: i64
  we_event_type :: string
  we_payload_schema :: string
  we_payload :: event_payload
  we_actor :: principal_ref
  we_authority_id :: "string option"
  we_activity_id :: "string option"
  we_correlation_id :: "string option"
  we_causation_id :: "string option"

definition to_wit_event :: "committed_event \<Rightarrow> wit_event" where
  "to_wit_event e = \<lparr>we_event_id = event_id e, we_sequence = sequence e, we_recorded_at_ms = recorded_at_ms e,
     we_event_type = event_type (request e), we_payload_schema = payload_schema (request e), we_payload = payload (request e),
     we_actor = actor (request e), we_authority_id = authority_id (request e), we_activity_id = activity_id (request e),
     we_correlation_id = correlation_id (request e), we_causation_id = causation_id (request e)\<rparr>"

record proposal =
  prop_event_type :: string
  prop_payload_schema :: string
  prop_payload :: event_payload
  prop_causation_id :: "string option"
  prop_idempotency_key :: "string option"

datatype wit_mutation = WitSet state_entry | WitDelete string

record event_filter =
  filter_after :: "u64 option"
  filter_types :: "string list"
  filter_correlation :: "string option"
  filter_activity :: "string option"
  filter_from_ms :: "i64 option"
  filter_to_ms :: "i64 option"
  filter_text :: "string option"
  filter_before :: "u64 option"
  filter_conversation :: "string option"
  filter_descending :: bool

record event_page =
  page_events :: "wit_event list"
  next_sequence :: "u64 option"

record wit_state_page =
  wit_entries :: "state_entry list"
  wit_next_key :: "string option"

text \<open>What the host stamps on a component's proposals.\<close>

record delivery =
  dl_instance :: string
  dl_agent :: principal_ref
  dl_authority :: string
  dl_activity :: string
  dl_correlation :: string
  dl_origin :: string
  dl_depth :: u32
  dl_deadline :: "i64 option"

record 'b host_state =
  hs_delivery :: delivery
  hs_model :: "string option"
  hs_identity :: "string option"
  hs_replaying :: bool
  hs_registry :: event_type_registry
  hs_emits :: "string list"
  hs_blobs :: "'b host_blobs"
  hs_append_sequence :: u64
  hs_emit_call :: bool
  hs_evidence :: "resource_exhaustion option"
  hs_phase :: string

section \<open>Blobs an event names\<close>

definition json_or :: "json option \<Rightarrow> json option \<Rightarrow> json option" where
  "json_or a b = (case a of None \<Rightarrow> b | Some _ \<Rightarrow> a)"

definition blob_ref_from :: "(string, json) btree \<Rightarrow> blob_ref option" where
  "blob_ref_from m =
     Option.bind (Option.bind (btree_get m ''algorithm'') as_str) (\<lambda>a.
     Option.bind (Option.bind (btree_get m ''digest'') as_str) (\<lambda>d.
     Option.bind (Option.bind (btree_get m ''size'') as_u64) (\<lambda>n.
     Option.bind (Option.bind (json_or (json_or (btree_get m ''media_type'') (btree_get m ''media-type'')) (btree_get m ''mediaType'')) as_str) (\<lambda>t.
       Some \<lparr>algorithm = a, digest = d, blob_size = n, media_type = t\<rparr>))))"

fun collect_blob_refs :: "json \<Rightarrow> blob_ref list" where
  "collect_blob_refs (JObject m) =
     (case blob_ref_from m of None \<Rightarrow> [] | Some b \<Rightarrow> [b]) @ concat (map (\<lambda>p. collect_blob_refs (snd p)) m)"
| "collect_blob_refs (JArray vs) = concat (map collect_blob_refs vs)"
| "collect_blob_refs _ = []"

definition referenced_blobs :: "serde \<Rightarrow> committed_event \<Rightarrow> blob_ref list" where
  "referenced_blobs sd e = (case payload (request e) of
       Blob b \<Rightarrow> [b]
     | CanonicalJson bs \<Rightarrow> (case from_slice sd bs of Inr v \<Rightarrow> collect_blob_refs v | Inl _ \<Rightarrow> []))"

definition http_request_visible :: "serde \<Rightarrow> committed_event \<Rightarrow> string \<Rightarrow> bool" where
  "http_request_visible sd e i =
     (if event_type (request e) \<noteq> ''http.request.received'' \<or> pr_id (actor (request e)) = i then True
      else case payload (request e) of
          Blob _ \<Rightarrow> False
        | CanonicalJson bs \<Rightarrow> is_some_and (\<lambda>v. as_str (json_index v ''consumer'') = Some i) (ok_opt (from_slice sd bs)))"

definition reveal_event_blobs :: "serde \<Rightarrow> 'b host_state \<Rightarrow> committed_event list \<Rightarrow> 'b host_state" where
  "reveal_event_blobs sd h es =
     (let found = concat (map (referenced_blobs sd) (filter (\<lambda>e. http_request_visible sd e (dl_instance (hs_delivery h))) es))
      in h\<lparr>hs_blobs := (hs_blobs h)\<lparr>visible_blobs :=
        fold List.insert (filter (\<lambda>b. validate_blob_ref b = Inr ()) found) (visible_blobs (hs_blobs h))\<rparr>\<rparr>)"

definition same_blob_content :: "blob_ref \<Rightarrow> blob_ref \<Rightarrow> bool" where
  "same_blob_content a b \<longleftrightarrow> algorithm a = algorithm b \<and> digest a = digest b \<and> blob_size a = blob_size b"

definition payload_blobs :: "serde \<Rightarrow> event_payload \<Rightarrow> runtime_error + blob_ref list" where
  "payload_blobs sd p = (case p of
       Blob b \<Rightarrow> Inr [b]
     | CanonicalJson bs \<Rightarrow> rbind (map_err (\<lambda>e. runtime_failure (''invalid proposal JSON: '' @ e)) (from_slice sd bs)) (\<lambda>v.
         Inr (collect_blob_refs v)))"

definition authorize_blob_references :: "serde \<Rightarrow> event_payload \<Rightarrow> blob_ref list \<Rightarrow> runtime_error + unit" where
  "authorize_blob_references sd p visible =
     rbind (payload_blobs sd p) (\<lambda>found.
       if list_ex (\<lambda>b. \<not> list_ex (same_blob_content b) visible) (filter (\<lambda>b. validate_blob_ref b = Inr ()) found)
       then Inl (runtime_failure ''proposal references a blob not visible to this delivery'')
       else Inr ())"

section \<open>From a proposal to a request\<close>

definition core_payload :: "event_payload \<Rightarrow> host_error + event_payload" where
  "core_payload p = (case p of
       CanonicalJson bs \<Rightarrow> Inr (CanonicalJson bs)
     | Blob b \<Rightarrow> rbind (core_blob_ref b) (\<lambda>b. Inr (Blob b)))"

text \<open>The host's default model and the agent's instructions go into a model request.\<close>

definition insert_model :: "'b host_state \<Rightarrow> (string, json) btree \<Rightarrow> runtime_error + (string, json) btree" where
  "insert_model h m =
     (if btree_get m ''model'' \<noteq> None then Inr m
      else rbind (ok_or (runtime_failure ''no host model configured'') (hs_model h)) (\<lambda>model.
        Inr (btree_insert ''model'' (JString model) m)))"

definition add_instructions :: "json \<Rightarrow> json list \<Rightarrow> runtime_error + json list" where
  "add_instructions content ms = (case ms of
       JObject first # rest \<Rightarrow>
         if json_index (JObject first) ''role'' = JString ''system'' then
           rbind (ok_or (runtime_failure ''system message requires content'') (Option.bind (btree_get first ''content'') as_array)) (\<lambda>parts.
             Inr (JObject (btree_insert ''content'' (JArray (content # parts)) first) # rest))
         else Inr (json_object [(''role'', JString ''system''), (''content'', JArray [content])] # ms)
     | _ \<Rightarrow> Inr (json_object [(''role'', JString ''system''), (''content'', JArray [content])] # ms))"

definition insert_identity :: "'b host_state \<Rightarrow> (string, json) btree \<Rightarrow> runtime_error + (string, json) btree" where
  "insert_identity h m = (case hs_identity h of
       None \<Rightarrow> Inr m
     | Some text \<Rightarrow>
       if text = [] then Inr m
       else rbind (ok_or (runtime_failure ''model request requires messages'') (Option.bind (btree_get m ''messages'') as_array)) (\<lambda>ms.
         rbind (add_instructions (json_object [(''kind'', JString ''text''), (''text'', JString text)]) ms) (\<lambda>ms.
           Inr (btree_insert ''messages'' (JArray ms) m))))"

definition model_request :: "serde \<Rightarrow> 'b host_state \<Rightarrow> bytes \<Rightarrow> runtime_error + bytes" where
  "model_request sd h bs =
     rbind (map_err (\<lambda>e. runtime_failure (''invalid model request: '' @ e)) (from_slice sd bs)) (\<lambda>v.
     rbind (ok_or (runtime_failure ''model request must be an object'') (as_object v)) (\<lambda>m.
     rbind (insert_model h m) (\<lambda>m.
     rbind (insert_identity h m) (\<lambda>m.
       map_err runtime_failure (to_vec sd (JObject m))))))"

definition proposal_request ::
  "serde \<Rightarrow> 'b host_state \<Rightarrow> proposal \<Rightarrow> event_id option \<Rightarrow> string option \<Rightarrow> runtime_error + append_request" where
  "proposal_request sd h p cause derived =
     (if hs_replaying h then Inl (runtime_failure ''events cannot be appended during replay'')
      else
        let cause = (case prop_causation_id p of None \<Rightarrow> cause | Some i \<Rightarrow> Some i) in
        if cause = None \<and> \<not> hs_emit_call h
        then Inl (runtime_failure ''proposal needs an explicit causation ID when a batch carries several events'')
        else
          rbind (map_err (\<lambda>e. runtime_failure (''invalid proposal payload: '' @ message e)) (core_payload (prop_payload p))) (\<lambda>pay.
          rbind (authorize_blob_references sd pay (visible_blobs (hs_blobs h))) (\<lambda>_.
          rbind (case (prop_event_type p = ''model.requested'', pay) of
              (True, CanonicalJson bs) \<Rightarrow> rbind (model_request sd h bs) (\<lambda>bs. Inr (CanonicalJson bs))
            | _ \<Rightarrow> Inr pay) (\<lambda>pay.
          let r = \<lparr>stream_id = pr_id (dl_agent (hs_delivery h)), stream_kind = AgentStream, observed_at_ms = None,
                event_type = prop_event_type p, payload_schema = prop_payload_schema p, payload = pay,
                actor = new_principal Component (dl_instance (hs_delivery h)),
                authority_id = Some (dl_authority (hs_delivery h)), activity_id = Some (dl_activity (hs_delivery h)),
                correlation_id = Some (dl_correlation (hs_delivery h)), causation_id = cause,
                deduplication_key = (case prop_idempotency_key p of None \<Rightarrow> derived | Some k \<Rightarrow> Some k)\<rparr>
          in rbind (map_err (\<lambda>e. runtime_failure (registry_error_display e)) (registry_authorize (hs_registry h) r (hs_emits h))) (\<lambda>_.
               Inr r)))))"

section \<open>The events interface\<close>

definition host_append ::
  "serde \<Rightarrow> 's event_ops \<Rightarrow> 'b host_state \<Rightarrow> 's \<Rightarrow> proposal \<Rightarrow> 'b host_state \<times> 's \<times> (host_error + u64)" where
  "host_append sd ops h s p =
     (if prop_idempotency_key p = None
      then (h, s, Inl (host_error InvalidArgument ''append requires an idempotency key so a redelivery deduplicates''))
      else
        let h = h\<lparr>hs_append_sequence := hs_append_sequence h + 1\<rparr> in
        case proposal_request sd h p (Some (dl_origin (hs_delivery h))) None of
          Inl e \<Rightarrow> (h, s, Inl (host_error PermissionDenied (err_message e)))
        | Inr r \<Rightarrow>
          let (s, x) = op_append ops s r in
          (h, s, rbind (map_err (\<lambda>e. host_error Internal (''cannot append: '' @ append_error_display e)) x) (\<lambda>e. Inr (sequence e))))"

definition host_get :: "serde \<Rightarrow> 's event_ops \<Rightarrow> 'b host_state \<Rightarrow> 's \<Rightarrow> string \<Rightarrow> 'b host_state \<times> (host_error + wit_event)" where
  "host_get sd ops h s i =
     (case op_get ops s i of
        Inl e \<Rightarrow> (h, Inl (host_error Internal (''cannot read: '' @ append_error_display e)))
      | Inr found \<Rightarrow>
        (case Option.bind found (\<lambda>e. if stream_id (request e) = pr_id (dl_agent (hs_delivery h)) \<and>
             http_request_visible sd e (dl_instance (hs_delivery h)) then Some e else None) of
           None \<Rightarrow> (h, Inl (host_error NotFound ''no such event''))
         | Some e \<Rightarrow> (reveal_event_blobs sd h [e], Inr (to_wit_event e))))"

definition event_conversation_id :: "serde \<Rightarrow> committed_event \<Rightarrow> string option" where
  "event_conversation_id sd e = (case payload (request e) of
       Blob _ \<Rightarrow> None
     | CanonicalJson bs \<Rightarrow> Option.bind (ok_opt (from_slice sd bs)) (\<lambda>v.
         case as_str (json_index v ''conversationId'') of
           Some c \<Rightarrow> Some c
         | None \<Rightarrow> as_str (json_index (json_index v ''arguments'') ''conversationId'')))"

definition filter_query :: "event_filter \<Rightarrow> event_query" where
  "filter_query f = default_query\<lparr>after_sequence := filter_after f, before_sequence := filter_before f, event_types := filter_types f,
     text_query := filter_text f, descending := filter_descending f, q_correlation_id := filter_correlation f,
     q_activity_id := filter_activity f, recorded_from_ms := filter_from_ms f, recorded_to_ms := filter_to_ms f\<rparr>"

definition searching :: "event_filter \<Rightarrow> bool" where
  "searching f \<longleftrightarrow> filter_text f \<noteq> None \<or> filter_before f \<noteq> None \<or> filter_conversation f \<noteq> None \<or> filter_descending f"

definition last_of :: "'a list \<Rightarrow> 'a option" where
  "last_of xs = (if xs = [] then None else Some (last xs))"

text \<open>The events of a page a component may see; when it searches, also those of the conversation it asks for.\<close>

definition selects :: "serde \<Rightarrow> 'b host_state \<Rightarrow> event_filter \<Rightarrow> committed_event \<Rightarrow> bool" where
  "selects sd h f e \<longleftrightarrow> http_request_visible sd e (dl_instance (hs_delivery h)) \<and>
     (searching f \<longrightarrow> is_none_or (\<lambda>w. event_conversation_id sd e = Some w) (filter_conversation f))"

definition host_query ::
  "serde \<Rightarrow> 's event_ops \<Rightarrow> 'b host_state \<Rightarrow> 's \<Rightarrow> event_filter \<Rightarrow> u32 \<Rightarrow> 'b host_state \<times> (host_error + event_page)" where
  "host_query sd ops h s f limit =
     (if is_some_and (\<lambda>q. 4096 < length q) (filter_text f) then (h, Inl (host_error InvalidArgument ''search text is too long''))
      else if limit = 0 then (h, Inr \<lparr>page_events = [], next_sequence = None\<rparr>)
      else
        let requested = unat (min limit max_event_page) in
        case op_query ops s (pr_id (dl_agent (hs_delivery h))) (filter_query f)
            (if searching f then of_nat (unat max_event_page) else of_nat requested) of
          Inl e \<Rightarrow> (h, Inl (host_error Internal (''cannot query: '' @ append_error_display e)))
        | Inr es \<Rightarrow>
          let selected = take requested (filter (selects sd h f) es);
              next = (if searching f then (case last_of selected of None \<Rightarrow> last_of es | Some e \<Rightarrow> Some e) else last_of es)
          in (fold (\<lambda>e h. reveal_event_blobs sd h [e]) selected h,
              Inr \<lparr>page_events = map to_wit_event selected, next_sequence = map_option sequence next\<rparr>))"

section \<open>The state interface\<close>

definition validate_state_key :: "string \<Rightarrow> host_error + unit" where
  "validate_state_key k = (if max_state_key_bytes < length k
     then Inl (host_error CodeResourceExhausted ''state key exceeds 512 bytes'') else Inr ())"

definition host_state_get :: "'s state_ops \<Rightarrow> 'b host_state \<Rightarrow> 's \<Rightarrow> string \<Rightarrow> host_error + bytes option" where
  "host_state_get sops h s k =
     rbind (validate_state_key k) (\<lambda>_.
     rbind (map_err host_state_error (op_state_get sops s (dl_instance (hs_delivery h)) k)) (\<lambda>snap. Inr (snapshot_value snap)))"

definition host_scan ::
  "'s state_ops \<Rightarrow> 'b host_state \<Rightarrow> 's \<Rightarrow> string \<Rightarrow> string option \<Rightarrow> u32 \<Rightarrow> host_error + wit_state_page" where
  "host_scan sops h s prefix after limit =
     rbind (validate_state_key prefix) (\<lambda>_.
     rbind (case after of None \<Rightarrow> Inr () | Some k \<Rightarrow> validate_state_key k) (\<lambda>_.
     rbind (map_err host_state_error (op_state_scan sops s (dl_instance (hs_delivery h)) prefix after
         (of_nat (unat (min limit max_state_scan_entries))))) (\<lambda>page.
       Inr \<lparr>wit_entries = page_entries page, wit_next_key = next_key page\<rparr>)))"

definition convert_mutation :: "wit_mutation \<Rightarrow> runtime_error + state_mutation" where
  "convert_mutation m = (case m of
       WitSet e \<Rightarrow>
         if max_state_key_bytes < length (entry_key e) then Inl (runtime_failure ''state key exceeds 512 bytes'')
         else if max_state_value_bytes < length (entry_value e) then Inl (runtime_failure ''state value exceeds 1 MiB'')
         else Inr (SetKey (entry_key e) (entry_value e))
     | WitDelete k \<Rightarrow>
         if max_state_key_bytes < length k then Inl (runtime_failure ''state key exceeds 512 bytes'') else Inr (DeleteKey k))"

definition convert_mutations :: "wit_mutation list \<Rightarrow> runtime_error + state_mutation list" where
  "convert_mutations ms =
     (if max_state_mutations < length ms then Inl (runtime_failure ''outcome proposes too many mutations'')
      else collect_results (map convert_mutation ms))"

end
