(* ===== verification/Instances.thy ===== *)
theory Instances
  imports Host_Services Paging
begin

text \<open>
  The life of a component instance in the Wasm host (\<open>InstanceCore\<close> in \<open>lib.rs\<close> and the source loop in \<open>runner.rs\<close> of
  \<open>pluribus-runtime-wasm\<close>): a delivery hands the component a batch of events and commits what it proposes in one
  transaction, a skip moves the cursor past a batch, a rebuild replays the component's own events. The component itself
  runs in the Wasm engine, so a call into it is an argument: it may change the host's state and the store through
  the imports, and it ends with an outcome, an error of its own, or a trap.
\<close>

section \<open>Resources\<close>

definition reset_resource_evidence :: "string \<Rightarrow> 'b host_state \<Rightarrow> 'b host_state" where
  "reset_resource_evidence phase h = h\<lparr>hs_evidence := None, hs_phase := phase\<rparr>"

text \<open>The first limit a call runs into is kept as evidence of why it ended.\<close>

definition record_exhaustion :: "string \<Rightarrow> u64 \<Rightarrow> u64 \<Rightarrow> u64 \<Rightarrow> 'b host_state \<Rightarrow> 'b host_state" where
  "record_exhaustion resource current requested limit h = (case hs_evidence h of
       Some _ \<Rightarrow> h
     | None \<Rightarrow> h\<lparr>hs_evidence := Some \<lparr>re_resource = resource, re_current_bytes = current, re_requested_bytes = requested,
         re_limit_bytes = limit, re_phase = hs_phase h, re_job_id = None, re_session_id = None\<rparr>\<rparr>)"

definition memory_growing :: "u64 \<Rightarrow> u64 \<Rightarrow> u64 \<Rightarrow> 'b host_state \<Rightarrow> 'b host_state" where
  "memory_growing memory_limit current desired h =
     (if memory_limit < desired then record_exhaustion ''memory'' current desired memory_limit h else h)"

definition resource_error :: "'b host_state \<Rightarrow> string \<Rightarrow> runtime_error" where
  "resource_error h m = (case hs_evidence h of None \<Rightarrow> runtime_trap m | Some r \<Rightarrow> runtime_limit r m)"

definition error_code_text :: "error_code \<Rightarrow> string" where
  "error_code_text c = (case c of
       InvalidArgument \<Rightarrow> ''invalid-argument'' | NotFound \<Rightarrow> ''not-found'' | PermissionDenied \<Rightarrow> ''permission-denied''
     | Unsupported \<Rightarrow> ''unsupported'' | Conflict \<Rightarrow> ''conflict'' | Unavailable \<Rightarrow> ''unavailable''
     | CodeResourceExhausted \<Rightarrow> ''resource-exhausted'' | Cancelled \<Rightarrow> ''cancelled''
     | DeadlineExceeded \<Rightarrow> ''deadline-exceeded'' | Internal \<Rightarrow> ''internal'')"

text \<open>The derived reader of the evidence a component reports: three numbers, two texts, and two texts that may be missing.\<close>

definition optional_text :: "json \<Rightarrow> string \<Rightarrow> string option option" where
  "optional_text v k = (case json_get v k of
       None \<Rightarrow> Some None
     | Some JNull \<Rightarrow> Some None
     | Some x \<Rightarrow> map_option Some (as_str x))"

definition resource_of_json :: "json \<Rightarrow> resource_exhaustion option" where
  "resource_of_json v =
     Option.bind (as_str (json_index v ''resource'')) (\<lambda>r.
     Option.bind (as_u64 (json_index v ''currentBytes'')) (\<lambda>c.
     Option.bind (as_u64 (json_index v ''requestedBytes'')) (\<lambda>q.
     Option.bind (as_u64 (json_index v ''limitBytes'')) (\<lambda>l.
     Option.bind (as_str (json_index v ''phase'')) (\<lambda>p.
     Option.bind (optional_text v ''job_id'') (\<lambda>j.
     Option.bind (optional_text v ''session_id'') (\<lambda>s.
       Some \<lparr>re_resource = r, re_current_bytes = c, re_requested_bytes = q, re_limit_bytes = l, re_phase = p,
         re_job_id = j, re_session_id = s\<rparr>)))))))"

definition plugin_failure :: "serde \<Rightarrow> host_error \<Rightarrow> runtime_error" where
  "plugin_failure sd e =
     (let m = error_code_text (code e) @ '': '' @ message e in
      if code e = CodeResourceExhausted then
        (case Option.bind (details e) (\<lambda>d. Option.bind (ok_opt (from_slice sd d)) resource_of_json) of
           Some r \<Rightarrow> \<lparr>err_message = m, err_trapped = False, err_resource = Some r\<rparr>
         | None \<Rightarrow> runtime_failure m)
      else runtime_failure m)"

section \<open>Instances\<close>

datatype commit_phase = InitPhase | HandlePhase | StopPhase

definition derived_key :: "commit_phase \<Rightarrow> string \<Rightarrow> u64 \<Rightarrow> nat \<Rightarrow> string" where
  "derived_key ph i at ordinal = i @ '':'' @ show_u64 at @ '':'' @ show_nat ordinal @
     (case ph of HandlePhase \<Rightarrow> [] | InitPhase \<Rightarrow> '':init'' | StopPhase \<Rightarrow> '':stop'')"

record guest_outcome =
  oc_events :: "proposal list"
  oc_mutations :: "wit_mutation list"
  oc_checkpoint :: "u64 option"

record outcome =
  out_events :: "committed_event list"
  out_checkpoint :: u64

datatype guest_end = GuestTrap string | GuestDeadline | GuestFailed host_error | GuestDone guest_outcome

datatype start_end = StartTrap string | StartDeadline | StartExited "runtime_error option" | StartReady guest_outcome

type_synonym ('b, 's) guest_call = "'b host_state \<Rightarrow> 's \<Rightarrow> wit_event list \<Rightarrow> 'b host_state \<times> 's \<times> guest_end"

record 'b instance_core =
  ic_host :: "'b host_state"
  ic_id :: string
  ic_cursor :: cursor_key
  ic_checkpoint :: u64
  ic_interrupted :: bool
  ic_started :: bool

definition release_host :: "'b blob_ops \<Rightarrow> 'b host_state \<Rightarrow> 'b host_state" where
  "release_host bops h = h\<lparr>hs_blobs := release_handles bops (hs_blobs h)\<rparr>"

definition prepare_call :: "string \<Rightarrow> 'b host_state \<Rightarrow> 'b host_state" where
  "prepare_call phase h = reset_resource_evidence phase (h\<lparr>hs_emit_call := False\<rparr>)"

definition proposal_requests ::
  "serde \<Rightarrow> 'b host_state \<Rightarrow> commit_phase \<Rightarrow> string \<Rightarrow> u64 \<Rightarrow> event_id option \<Rightarrow> proposal list \<Rightarrow> runtime_error + append_request list" where
  "proposal_requests sd h ph i at cause ps =
     collect_results (map (\<lambda>(n, p). proposal_request sd h p cause (Some (derived_key ph i at n))) (enumerate 0 ps))"

definition core_commit ::
  "serde \<Rightarrow> 'b blob_ops \<Rightarrow> 's delivery_ops \<Rightarrow> 'b instance_core \<Rightarrow> 's \<Rightarrow> guest_outcome \<Rightarrow> event_id option \<Rightarrow> commit_phase \<Rightarrow>
   'b instance_core \<times> 's \<times> (runtime_error + outcome)" where
  "core_commit sd bops dops c s oc cause ph =
     (let c = c\<lparr>ic_host := release_host bops (ic_host c)\<rparr> in
      if max_outcome_events < length (oc_events oc) then (c, s, Inl (runtime_failure ''outcome proposes too many events''))
      else case rbind (proposal_requests sd (ic_host c) ph (ic_id c) (ic_checkpoint c) cause (oc_events oc)) (\<lambda>rs.
          rbind (convert_mutations (oc_mutations oc)) (\<lambda>ms. Inr (rs, ms))) of
        Inl e \<Rightarrow> (c, s, Inl e)
      | Inr (rs, ms) \<Rightarrow>
        let (s, x) = op_commit dops s \<lparr>cursor = ic_cursor c, expected_checkpoint = ic_checkpoint c, checkpoint = oc_checkpoint oc,
              mutations = ms, commit_events = rs\<rparr>
        in case x of
             Inl e \<Rightarrow> (c, s, Inl (runtime_failure (''cannot commit delivery: '' @ delivery_error_display e)))
           | Inr rc \<Rightarrow> (c\<lparr>ic_checkpoint := receipt_checkpoint rc\<rparr>, s,
               Inr \<lparr>out_events = receipt_events rc, out_checkpoint = receipt_checkpoint rc\<rparr>))"

text \<open>A call that is interrupted leaves the instance unusable until it is instantiated again.\<close>

definition in_lifecycle ::
  "('b instance_core \<Rightarrow> 'b instance_core \<times> 's \<times> (runtime_error + 'a)) \<Rightarrow> (runtime_error + 'a \<Rightarrow> bool) \<Rightarrow> 'b instance_core \<Rightarrow> 's \<Rightarrow>
   'b instance_core \<times> 's \<times> (runtime_error + 'a)" where
  "in_lifecycle f interrupted c s =
     (if ic_interrupted c then (c, s, Inl (runtime_trap ''interrupted lifecycle requires re-instantiation''))
      else let (c, s, r) = f (c\<lparr>ic_interrupted := True\<rparr>) in (c\<lparr>ic_interrupted := interrupted r\<rparr>, s, r))"

definition core_init ::
  "serde \<Rightarrow> 'b blob_ops \<Rightarrow> 's delivery_ops \<Rightarrow> ('b host_state \<Rightarrow> 's \<Rightarrow> 'b host_state \<times> 's \<times> start_end) \<Rightarrow> 'b instance_core \<Rightarrow> 's \<Rightarrow>
   'b instance_core \<times> 's \<times> (runtime_error + outcome)" where
  "core_init sd bops dops run c s = in_lifecycle (\<lambda>c.
     if ic_started c then (c, s, Inl (runtime_failure ''plugin already initialized''))
     else
       let (h, s, x) = run (prepare_call ''startup'' (ic_host c)) s; c = c\<lparr>ic_host := h, ic_started := True\<rparr> in
       case x of
         StartDeadline \<Rightarrow> (c, s, Inl (resource_error h ''startup deadline exceeded''))
       | StartTrap m \<Rightarrow> (c, s, Inl (resource_error h (''startup trapped: '' @ m)))
       | StartExited e \<Rightarrow> (c, s, Inl (case e of None \<Rightarrow> runtime_trap ''run exited before ready'' | Some e \<Rightarrow> e))
       | StartReady oc \<Rightarrow> core_commit sd bops dops c s oc (Some (dl_origin (hs_delivery h))) InitPhase) isl c s"

text \<open>A batch as the component gets it: the body of an HTTP request for another consumer is blanked.\<close>

definition delivered_event :: "serde \<Rightarrow> string \<Rightarrow> committed_event \<Rightarrow> wit_event" where
  "delivered_event sd i e = (if http_request_visible sd e i then to_wit_event e
     else (to_wit_event e)\<lparr>we_payload := CanonicalJson ''{}''\<rparr>)"

definition only_cause :: "committed_event list \<Rightarrow> event_id option" where
  "only_cause es = (case es of [e] \<Rightarrow> Some (event_id e) | _ \<Rightarrow> None)"

definition handle_inner ::
  "serde \<Rightarrow> 'b blob_ops \<Rightarrow> 's delivery_ops \<Rightarrow> ('b, 's) guest_call \<Rightarrow> committed_event list \<Rightarrow> 'b instance_core \<Rightarrow> 's \<Rightarrow>
   'b instance_core \<times> 's \<times> (runtime_error + outcome)" where
  "handle_inner sd bops dops guest es c s =
     (if es = [] then (c, s, Inr \<lparr>out_events = [], out_checkpoint = ic_checkpoint c\<rparr>)
      else
        let batch = map (delivered_event sd (dl_instance (hs_delivery (ic_host c)))) es;
            (h, s, x) = guest (prepare_call ''delivery'' (reveal_event_blobs sd (ic_host c) es)) s batch
        in case x of
             GuestTrap m \<Rightarrow> (c\<lparr>ic_host := release_host bops h\<rparr>, s, Inl (resource_error h (''handle trapped: '' @ m)))
           | GuestDeadline \<Rightarrow> (c\<lparr>ic_host := release_host bops h\<rparr>, s, Inl (resource_error h ''handle trapped: handler deadline exceeded''))
           | GuestFailed e \<Rightarrow> (c\<lparr>ic_host := release_host bops h\<rparr>, s, Inl (plugin_failure sd e))
           | GuestDone oc \<Rightarrow>
             if is_some_and (\<lambda>n. \<not> (sequence (hd es) \<le> n \<and> n \<le> sequence (last es))) (oc_checkpoint oc)
             then (c\<lparr>ic_host := h\<rparr>, s, Inl (runtime_failure (''checkpoint '' @ show_u64 (the (oc_checkpoint oc)) @
               '' is outside the delivered batch '' @ show_u64 (sequence (hd es)) @ ''..='' @ show_u64 (sequence (last es)))))
             else core_commit sd bops dops (c\<lparr>ic_host := h\<rparr>) s oc (only_cause es) HandlePhase)"

definition core_handle ::
  "serde \<Rightarrow> 'b blob_ops \<Rightarrow> 's delivery_ops \<Rightarrow> ('b, 's) guest_call \<Rightarrow> 'b instance_core \<Rightarrow> 's \<Rightarrow> committed_event list \<Rightarrow>
   'b instance_core \<times> 's \<times> (runtime_error + outcome)" where
  "core_handle sd bops dops guest c s es = in_lifecycle (\<lambda>c. handle_inner sd bops dops guest es c s)
     (\<lambda>r. case r of Inl e \<Rightarrow> err_trapped e | Inr _ \<Rightarrow> False) c s"

definition core_skip_with_events ::
  "'b blob_ops \<Rightarrow> 's delivery_ops \<Rightarrow> 'b instance_core \<Rightarrow> 's \<Rightarrow> u64 \<Rightarrow> append_request list \<Rightarrow> 'b instance_core \<times> 's \<times> (runtime_error + outcome)" where
  "core_skip_with_events bops dops c s n rs = in_lifecycle (\<lambda>c.
     let c = c\<lparr>ic_host := release_host bops (ic_host c)\<rparr>;
         (s, x) = op_commit dops s \<lparr>cursor = ic_cursor c, expected_checkpoint = ic_checkpoint c, checkpoint = Some n, mutations = [], commit_events = rs\<rparr>
     in case x of
          Inl e \<Rightarrow> (c, s, Inl (runtime_failure (''cannot skip delivery: '' @ delivery_error_display e)))
        | Inr rc \<Rightarrow> (c\<lparr>ic_checkpoint := receipt_checkpoint rc\<rparr>, s,
            Inr \<lparr>out_events = receipt_events rc, out_checkpoint = receipt_checkpoint rc\<rparr>)) (\<lambda>_. False) c s"

definition core_skip ::
  "'b blob_ops \<Rightarrow> 's delivery_ops \<Rightarrow> 'b instance_core \<Rightarrow> 's \<Rightarrow> u64 \<Rightarrow> 'b instance_core \<times> 's \<times> (runtime_error + unit)" where
  "core_skip bops dops c s n = (let (c, s, r) = core_skip_with_events bops dops c s n [] in (c, s, rbind r (\<lambda>_. Inr ())))"

definition core_stop ::
  "serde \<Rightarrow> 'b blob_ops \<Rightarrow> 's delivery_ops \<Rightarrow> ('b host_state \<Rightarrow> 's \<Rightarrow> 'b host_state \<times> 's \<times> guest_end) \<Rightarrow> 'b instance_core \<Rightarrow> 's \<Rightarrow>
   'b instance_core \<times> 's \<times> (runtime_error + outcome)" where
  "core_stop sd bops dops stop c s = in_lifecycle (\<lambda>c.
     let c = c\<lparr>ic_started := False\<rparr>; (h, s, x) = stop (prepare_call ''execution'' (ic_host c)) s in
     case x of
       GuestDone oc \<Rightarrow> core_commit sd bops dops (c\<lparr>ic_host := h\<rparr>) s oc None StopPhase
     | GuestFailed e \<Rightarrow> (c\<lparr>ic_host := release_host bops h\<rparr>, s, Inl (plugin_failure sd e))
     | GuestTrap m \<Rightarrow> (c\<lparr>ic_host := release_host bops h\<rparr>, s, Inl (resource_error h (''stop trapped: '' @ m)))
     | GuestDeadline \<Rightarrow> (c\<lparr>ic_host := release_host bops h\<rparr>, s, Inl (resource_error h ''stop trapped: call deadline exceeded''))) (\<lambda>_. False) c s"

section \<open>Rebuilding a projection\<close>

definition rebuild_page ::
  "'s event_ops \<Rightarrow> 's \<Rightarrow> stream_id \<Rightarrow> string list \<Rightarrow> u64 \<Rightarrow> u64 \<Rightarrow> runtime_error + committed_event list" where
  "rebuild_page ops s stream types after limit = map_err (\<lambda>e. runtime_failure (append_error_display e))
     (op_query ops s stream (default_query\<lparr>after_sequence := Some after, event_types := types\<rparr>) limit)"

definition rebuild_marker :: string where
  "rebuild_marker = ''__host/rebuild''"

definition read_marker :: "serde \<Rightarrow> 's state_ops \<Rightarrow> 'b host_state \<Rightarrow> 's \<Rightarrow> runtime_error + u64" where
  "read_marker sd sops h s =
     rbind (map_err (\<lambda>e. runtime_failure (state_error_display e)) (op_state_get sops s (dl_instance (hs_delivery h)) rebuild_marker)) (\<lambda>snap.
       case snapshot_value snap of
         None \<Rightarrow> Inr 0
       | Some bs \<Rightarrow> rbind (map_err runtime_failure (from_slice sd bs)) (\<lambda>v. ok_or (runtime_failure ''invalid type: expected u64'') (as_u64 v)))"

text \<open>How far the events of the given types go. The instance is not active, so no one adds to them meanwhile.\<close>

definition rebuild_high :: "'s event_ops \<Rightarrow> 's \<Rightarrow> stream_id \<Rightarrow> string list \<Rightarrow> u64 \<Rightarrow> (runtime_error + u64) option" where
  "rebuild_high ops s stream types after =
     page_loop (\<lambda>after. rebuild_page ops s stream types after 1000) (\<lambda>e _. Inl e) (\<lambda>page _. Continue (sequence (last page))) Inr after after"

definition own_events :: "string \<Rightarrow> committed_event list \<Rightarrow> committed_event list" where
  "own_events i es = filter (\<lambda>e. actor (request e) = new_principal Component i) es"

definition replay_page ::
  "serde \<Rightarrow> ('b, 's) guest_call \<Rightarrow> 'b host_state \<Rightarrow> 's \<Rightarrow> committed_event list \<Rightarrow> 'b host_state \<times> 's \<times> (runtime_error + guest_outcome)" where
  "replay_page sd guest h s own =
     (if own = [] then (h, s, Inr \<lparr>oc_events = [], oc_mutations = [], oc_checkpoint = None\<rparr>)
      else
        let (h, s, x) = guest ((prepare_call ''restore'' h)\<lparr>hs_replaying := True\<rparr>) s (map to_wit_event own); h = h\<lparr>hs_replaying := False\<rparr> in
        case x of
          GuestTrap m \<Rightarrow> (h, s, Inl (resource_error h (''replay trapped: '' @ m)))
        | GuestDeadline \<Rightarrow> (h, s, Inl (resource_error h ''replay trapped: replay deadline exceeded''))
        | GuestFailed e \<Rightarrow> (h, s, Inl (plugin_failure sd e))
        | GuestDone oc \<Rightarrow>
          if oc_events oc \<noteq> [] \<or> oc_checkpoint oc \<noteq> Some (sequence (last own))
          then (h, s, Inl (runtime_failure ''replay must consume its batch without emitting events''))
          else (h, s, Inr oc))"

definition rebuild_step ::
  "serde \<Rightarrow> 'b blob_ops \<Rightarrow> 's event_ops \<Rightarrow> 's delivery_ops \<Rightarrow> ('b, 's) guest_call \<Rightarrow> string list \<Rightarrow> u64 \<Rightarrow> 'b instance_core \<Rightarrow> 's \<Rightarrow> u64 \<Rightarrow>
   'b instance_core \<times> 's \<times> (runtime_error + u64 option)" where
  "rebuild_step sd bops ops dops guest types high c s after =
     (case rebuild_page ops s (pr_id (dl_agent (hs_delivery (ic_host c)))) types after 32 of
        Inl e \<Rightarrow> (c, s, Inl e)
      | Inr page \<Rightarrow>
        let page = takeWhile (\<lambda>e. sequence e \<le> high) page in
        if page = [] then (c, s, Inr None)
        else
          let (h, s, x) = replay_page sd guest (ic_host c) s (own_events (ic_id c) page); c = c\<lparr>ic_host := h\<rparr> in
          case x of
            Inl e \<Rightarrow> (c, s, Inl e)
          | Inr oc \<Rightarrow>
            let (c, s, r) = core_commit sd bops dops c s \<lparr>oc_events = oc_events oc,
                  oc_mutations = oc_mutations oc @ [WitSet \<lparr>entry_key = rebuild_marker, entry_value = show_u64 (sequence (last page))\<rparr>],
                  oc_checkpoint = None\<rparr> None HandlePhase
            in (c, s, rbind r (\<lambda>_. Inr (Some (sequence (last page))))))"

partial_function (option) rebuild_loop ::
  "serde \<Rightarrow> 'b blob_ops \<Rightarrow> 's event_ops \<Rightarrow> 's delivery_ops \<Rightarrow> ('b, 's) guest_call \<Rightarrow> string list \<Rightarrow> u64 \<Rightarrow> 'b instance_core \<Rightarrow> 's \<Rightarrow> u64 \<Rightarrow>
   ('b instance_core \<times> 's \<times> (runtime_error + unit)) option" where
  "rebuild_loop sd bops ops dops guest types high c s after =
     (if after < high then
        (case rebuild_step sd bops ops dops guest types high c s after of
           (c, s, Inl e) \<Rightarrow> Some (c, s, Inl e)
         | (c, s, Inr None) \<Rightarrow> Some (c, s, Inr ())
         | (c, s, Inr (Some n)) \<Rightarrow> rebuild_loop sd bops ops dops guest types high c s n)
      else Some (c, s, Inr ()))"

declare rebuild_loop.simps [code]

definition core_rebuild ::
  "serde \<Rightarrow> 'b blob_ops \<Rightarrow> 's event_ops \<Rightarrow> 's state_ops \<Rightarrow> 's delivery_ops \<Rightarrow> ('b, 's) guest_call \<Rightarrow> string list \<Rightarrow> 'b instance_core \<Rightarrow> 's \<Rightarrow>
   ('b instance_core \<times> 's \<times> (runtime_error + unit)) option" where
  "core_rebuild sd bops ops sops dops guest types c s =
     (if ic_interrupted c then Some (c, s, Inl (runtime_trap ''interrupted lifecycle requires re-instantiation''))
      else if types = [] then Some (c\<lparr>ic_interrupted := False\<rparr>, s, Inr ())
      else case read_marker sd sops (ic_host c) s of
          Inl e \<Rightarrow> Some (c\<lparr>ic_interrupted := False\<rparr>, s, Inl e)
        | Inr after \<Rightarrow>
          Option.bind (rebuild_high ops s (pr_id (dl_agent (hs_delivery (ic_host c)))) types after) (\<lambda>high. case high of
              Inl e \<Rightarrow> Some (c\<lparr>ic_interrupted := False\<rparr>, s, Inl e)
            | Inr high \<Rightarrow> map_option (\<lambda>(c, s, r). (c\<lparr>ic_interrupted := False\<rparr>, s, r))
                (rebuild_loop sd bops ops dops guest types high (c\<lparr>ic_interrupted := True\<rparr>) s after)))"

end
