(* ===== verification/Runner.thy ===== *)
theory Runner
  imports Instances
begin

text \<open>
  The source loop of an instance (\<open>runner.rs\<close> of \<open>pluribus-runtime-wasm\<close>): the component waits for a batch or a
  stop, commits or rejects what it was given, and may commit events of its own in between. A reply sent to the waiting
  host and an output published without a delivery are appended to lists. The lock around a commit makes it one step.
\<close>

record 'b runner =
  rn_host :: "'b host_state"
  rn_active :: bool
  rn_stopping :: bool
  rn_shutdown :: bool
  rn_cancelled :: bool
  rn_pending :: "committed_event list option"
  rn_cursor :: cursor_key
  rn_checkpoint :: u64
  rn_replies :: "(runtime_error + outcome) list"
  rn_output :: "(runtime_error + outcome) list"

datatype command = DeliverBatch "committed_event list" | StopAt i64

datatype wake = WakeEvents "wit_event list" | WakeStop i64

definition start_runner :: "'b instance_core \<Rightarrow> 'b runner" where
  "start_runner c = \<lparr>rn_host = (prepare_call ''execution'' (ic_host c))\<lparr>hs_emit_call := True\<rparr>, rn_active = True, rn_stopping = False,
     rn_shutdown = False, rn_cancelled = False, rn_pending = None, rn_cursor = ic_cursor c, rn_checkpoint = ic_checkpoint c,
     rn_replies = [], rn_output = []\<rparr>"

definition interrupted :: "'b runner \<Rightarrow> bool" where
  "interrupted r = (if rn_active r \<and> rn_pending r = None then rn_shutdown r else rn_cancelled r)"

definition cancel :: "'b runner \<Rightarrow> 'b runner" where
  "cancel r = r\<lparr>rn_cancelled := True\<rparr>"

definition shutdown :: "'b runner \<Rightarrow> 'b runner" where
  "shutdown r = r\<lparr>rn_shutdown := True, rn_cancelled := True\<rparr>"

definition reset_cancellation :: "'b runner \<Rightarrow> 'b runner" where
  "reset_cancellation r = r\<lparr>rn_cancelled := False\<rparr>"

definition stream_denied :: host_error where
  "stream_denied = host_error PermissionDenied ''local streams require an endpoint grant''"

text \<open>What a commit is about: a delivered batch, whose cursor it must advance within the batch, or nothing
  delivered, when it may not move the cursor and every event needs its own key.\<close>

definition commit_cause :: "'b runner \<Rightarrow> proposal list \<Rightarrow> u64 option \<Rightarrow> runtime_error + event_id option" where
  "commit_cause r ps cp = (case rn_pending r of
       Some batch \<Rightarrow>
         let low = (case batch of [] \<Rightarrow> 0 | e # _ \<Rightarrow> sequence e); high = (case batch of [] \<Rightarrow> 0 | _ \<Rightarrow> sequence (last batch)) in
         if \<not> is_some_and (\<lambda>n. low \<le> n \<and> n \<le> high) cp then Inl (runtime_failure ''checkpoint must identify a delivered event'')
         else Inr (only_cause batch)
     | None \<Rightarrow>
         if cp \<noteq> None then Inl (runtime_failure ''external commit cannot advance delivery checkpoint'')
         else if list_ex (\<lambda>p. is_none_or (\<lambda>k. k = []) (prop_idempotency_key p)) ps
         then Inl (runtime_failure ''external events require idempotency keys'')
         else Inr None)"

definition run_commit ::
  "serde \<Rightarrow> 's delivery_ops \<Rightarrow> 'b runner \<Rightarrow> 's \<Rightarrow> proposal list \<Rightarrow> wit_mutation list \<Rightarrow> u64 option \<Rightarrow> 'b runner \<times> 's \<times> (runtime_error + outcome)" where
  "run_commit sd dops r s ps ms cp =
     (if max_outcome_events < length ps then (r, s, Inl (runtime_failure ''outcome proposes too many events''))
      else case rbind (commit_cause r ps cp) (\<lambda>cause.
          rbind (proposal_requests sd (rn_host r) HandlePhase (dl_instance (hs_delivery (rn_host r))) (rn_checkpoint r) cause ps) (\<lambda>rs.
          rbind (convert_mutations ms) (\<lambda>ms. Inr (rs, ms)))) of
        Inl e \<Rightarrow> (r, s, Inl e)
      | Inr (rs, ms) \<Rightarrow>
        let (s, x) = op_commit dops s \<lparr>cursor = rn_cursor r, expected_checkpoint = rn_checkpoint r, checkpoint = cp,
              mutations = ms, commit_events = rs\<rparr>
        in case x of
             Inl e \<Rightarrow> (r, s, Inl (runtime_failure (''cannot commit source output: '' @ delivery_error_display e)))
           | Inr rc \<Rightarrow> (r\<lparr>rn_checkpoint := receipt_checkpoint rc\<rparr>, s,
               Inr \<lparr>out_events = receipt_events rc, out_checkpoint = receipt_checkpoint rc\<rparr>))"

definition source_commit ::
  "serde \<Rightarrow> 's delivery_ops \<Rightarrow> 'b runner \<Rightarrow> 's \<Rightarrow> proposal list \<Rightarrow> wit_mutation list \<Rightarrow> u64 option \<Rightarrow> 'b runner \<times> 's \<times> (host_error + unit)" where
  "source_commit sd dops r s ps ms cp =
     (if \<not> rn_active r \<or> hs_replaying (rn_host r) then (r, s, Inl stream_denied)
      else if rn_pending r \<noteq> None \<and> interrupted r then (r, s, Inl (host_error Cancelled ''call cancelled''))
      else
        let (r, s, x) = run_commit sd dops r s ps ms cp in
        case x of
          Inl e \<Rightarrow> (r, s, Inl (host_error Internal (err_message e)))
        | Inr out \<Rightarrow>
          let r = (if rn_pending r \<noteq> None then r\<lparr>rn_pending := None, rn_replies := rn_replies r @ [Inr out]\<rparr>
                   else if out_events out \<noteq> [] then r\<lparr>rn_output := rn_output r @ [Inr out]\<rparr> else r)
          in (r\<lparr>rn_host := (rn_host r)\<lparr>hs_emit_call := True\<rparr>\<rparr>, s, Inr ()))"

definition source_reject :: "serde \<Rightarrow> 'b runner \<Rightarrow> host_error \<Rightarrow> 'b runner \<times> (host_error + unit)" where
  "source_reject sd r e = (case rn_pending r of
       None \<Rightarrow> (r, Inl (host_error Conflict ''no internal delivery''))
     | Some _ \<Rightarrow> (r\<lparr>rn_pending := None, rn_replies := rn_replies r @ [Inl (plugin_failure sd e)],
         rn_host := (rn_host r)\<lparr>hs_emit_call := True\<rparr>\<rparr>, Inr ()))"

text \<open>Waiting for a command. The command is what the inbox yields, or the stop that a shutdown wakes the loop with.\<close>

definition source_next :: "serde \<Rightarrow> 'b runner \<Rightarrow> i64 \<Rightarrow> command option \<Rightarrow> 'b runner \<times> (host_error + wake)" where
  "source_next sd r now cmd =
     (if rn_shutdown r then (r\<lparr>rn_stopping := True\<rparr>, Inr (WakeStop now))
      else if \<not> rn_active r \<or> rn_stopping r \<or> hs_replaying (rn_host r) \<or> interrupted r then (r, Inl stream_denied)
      else if rn_pending r \<noteq> None then (r, Inl (host_error Conflict ''commit or reject delivery before waiting''))
      else case cmd of
          None \<Rightarrow> (r, Inl (host_error Cancelled ''source stopped''))
        | Some (StopAt deadline) \<Rightarrow> (r\<lparr>rn_stopping := True, rn_host := reset_resource_evidence ''execution'' (rn_host r)\<rparr>, Inr (WakeStop deadline))
        | Some (DeliverBatch es) \<Rightarrow>
          let h = reveal_event_blobs sd (reset_resource_evidence ''delivery'' (rn_host r)) es
          in (r\<lparr>rn_host := h\<lparr>hs_emit_call := False\<rparr>, rn_pending := Some es\<rparr>,
              Inr (WakeEvents (map (delivered_event sd (dl_instance (hs_delivery h))) es))))"

text \<open>The host moves the cursor of a running instance itself.\<close>

definition running_skip :: "'s delivery_ops \<Rightarrow> 'b runner \<Rightarrow> 's \<Rightarrow> u64 \<Rightarrow> append_request list \<Rightarrow> 'b runner \<times> 's \<times> (runtime_error + outcome)" where
  "running_skip dops r s n rs =
     (let (s, x) = op_commit dops s \<lparr>cursor = rn_cursor r, expected_checkpoint = rn_checkpoint r, checkpoint = Some n,
            mutations = [], commit_events = rs\<rparr>
      in case x of
           Inl e \<Rightarrow> (r, s, Inl (runtime_failure (''cannot skip delivery: '' @ delivery_error_display e)))
         | Inr rc \<Rightarrow> (r\<lparr>rn_checkpoint := receipt_checkpoint rc\<rparr>, s,
             Inr \<lparr>out_events = receipt_events rc, out_checkpoint = receipt_checkpoint rc\<rparr>))"

definition running_advance :: "'s delivery_ops \<Rightarrow> 'b runner \<Rightarrow> 's \<Rightarrow> u64 \<Rightarrow> 'b runner \<times> 's \<times> (runtime_error + unit)" where
  "running_advance dops r s n =
     (let (s, x) = op_commit dops s \<lparr>cursor = rn_cursor r, expected_checkpoint = rn_checkpoint r, checkpoint = Some n,
            mutations = [], commit_events = []\<rparr>
      in case x of
           Inl e \<Rightarrow> (r, s, Inl (runtime_failure (delivery_error_display e)))
         | Inr rc \<Rightarrow> (r\<lparr>rn_checkpoint := receipt_checkpoint rc\<rparr>, s, Inr ()))"

lemma running_advance_skip: "running_advance dops r s n = (r', s', x) \<Longrightarrow> \<exists>y. running_skip dops r s n [] = (r', s', y)"
  by (auto simp: running_advance_def running_skip_def Let_def split: prod.splits sum.splits)

end
