(* ===== verification/Host_Facts.thy ===== *)
theory Host_Facts
  imports Runner
begin

text \<open>
  What the host guarantees about a component: its events carry the provenance the host stamps on them and an
  allowed type, they name only blobs it could see, it touches no other component's state or cursor, it sees only the blobs
  it stored or was handed, its queries page through exactly the events it may see, and each delivery to its
  source loop is answered once.
\<close>

section \<open>Blobs of a request\<close>

lemma map_of_btree_insert: "k \<noteq> j \<Longrightarrow> map_of (btree_insert k v m) j = map_of m j"
  by (induction m) auto

lemma btree_insert_values: "snd ` set (btree_insert k v m) \<subseteq> insert v (snd ` set m)"
  by (induction m) auto

definition value_blobs :: "json list \<Rightarrow> blob_ref set" where
  "value_blobs vs = (\<Union>v \<in> set vs. set (collect_blob_refs v))"

lemma blobs_of_object:
  "set (collect_blob_refs (JObject m)) = set_option (blob_ref_from m) \<union> (\<Union>v \<in> snd ` set m. set (collect_blob_refs v))"
  by (auto split: option.splits)

text \<open>A member that is no part of a reference adds only the blobs of its value.\<close>

lemma blobs_insert_member:
  assumes "k \<notin> {''algorithm'', ''digest'', ''size'', ''media_type'', ''media-type'', ''mediaType''}"
  shows "set (collect_blob_refs (JObject (btree_insert k v m))) \<subseteq> set (collect_blob_refs v) \<union> set (collect_blob_refs (JObject m))"
proof -
  have "blob_ref_from (btree_insert k v m) = blob_ref_from m"
    using assms by (simp add: blob_ref_from_def map_of_btree_insert)
  then show ?thesis unfolding blobs_of_object using UN_mono[OF btree_insert_values[of k v m] subset_refl, of "\<lambda>v. set (collect_blob_refs v)"] by auto
qed

lemma blobs_of_member: "map_of m k = Some v \<Longrightarrow> set (collect_blob_refs v) \<subseteq> set (collect_blob_refs (JObject m))"
  unfolding blobs_of_object by (force dest: map_of_SomeD)

lemma bind_as_array: "Option.bind x as_array = Some vs \<longleftrightarrow> x = Some (JArray vs)"
  by (cases x) (auto simp: as_array_def split: json.splits)

lemma as_object_Some: "as_object v = Some m \<longleftrightarrow> v = JObject m"
  by (cases v) (auto simp: as_object_def)

lemma insert_model_blobs: "insert_model h m = Inr m' \<Longrightarrow> set (collect_blob_refs (JObject m')) \<subseteq> set (collect_blob_refs (JObject m))"
  using blobs_insert_member[of "''model''" "JString x" m for x] by (auto simp: insert_model_def split: if_splits)

lemma system_message_blobs:
  "set (collect_blob_refs (json_object [(''role'', JString ''system''), (''content'', JArray [json_object [(''kind'', JString ''text''), (''text'', JString t)]])])) = {}"
  by (simp add: json_object_def btree_of_def blob_ref_from_def json_or_def)

lemma instruction_blobs: "set (collect_blob_refs (json_object [(''kind'', JString ''text''), (''text'', JString t)])) = {}"
  by (simp add: json_object_def btree_of_def blob_ref_from_def json_or_def)

lemma add_instructions_blobs:
  assumes "add_instructions (json_object [(''kind'', JString ''text''), (''text'', JString t)]) ms = Inr ms'"
  shows "value_blobs ms' \<subseteq> value_blobs ms"
proof (cases "\<exists>first rest. ms = JObject first # rest \<and> json_index (JObject first) ''role'' = JString ''system''")
  case True
  then obtain first rest where ms: "ms = JObject first # rest" "json_index (JObject first) ''role'' = JString ''system''" by blast
  with assms obtain parts where p: "map_of first ''content'' = Some (JArray parts)"
    and ms': "ms' = JObject (btree_insert ''content'' (JArray (json_object [(''kind'', JString ''text''), (''text'', JString t)] # parts)) first) # rest"
    by (auto simp: add_instructions_def bind_as_array)
  have "set (collect_blob_refs (JArray parts)) \<subseteq> set (collect_blob_refs (JObject first))" using blobs_of_member[OF p] .
  moreover have "set (collect_blob_refs (JArray (json_object [(''kind'', JString ''text''), (''text'', JString t)] # parts))) = set (collect_blob_refs (JArray parts))"
    using instruction_blobs[of t] by simp
  ultimately show ?thesis
    using blobs_insert_member[of "''content''" "JArray (json_object [(''kind'', JString ''text''), (''text'', JString t)] # parts)" first] ms ms'
    by (auto simp: value_blobs_def simp del: collect_blob_refs.simps)
next
  case False
  then have "ms' = json_object [(''role'', JString ''system''), (''content'', JArray [json_object [(''kind'', JString ''text''), (''text'', JString t)]])] # ms"
    using assms by (auto simp: add_instructions_def split: list.splits json.splits if_splits)
  then show ?thesis using system_message_blobs[of t] by (simp add: value_blobs_def)
qed

lemma insert_identity_blobs:
  assumes "insert_identity h m = Inr m'"
  shows "set (collect_blob_refs (JObject m')) \<subseteq> set (collect_blob_refs (JObject m))"
proof (cases "hs_identity h = None \<or> hs_identity h = Some []")
  case True
  with assms show ?thesis by (auto simp: insert_identity_def)
next
  case False
  then obtain t where t: "hs_identity h = Some t" "t \<noteq> []" by auto
  let ?content = "json_object [(''kind'', JString ''text''), (''text'', JString t)]"
  have "insert_identity h m = rbind (ok_or (runtime_failure ''model request requires messages'') (Option.bind (btree_get m ''messages'') as_array))
      (\<lambda>ms. rbind (add_instructions ?content ms) (\<lambda>ms. Inr (btree_insert ''messages'' (JArray ms) m)))"
    using t by (simp add: insert_identity_def)
  with assms obtain ms ms' where ms: "map_of m ''messages'' = Some (JArray ms)"
    and add: "add_instructions ?content ms = Inr ms'" and m': "m' = btree_insert ''messages'' (JArray ms') m"
    by (auto simp: bind_as_array simp del: collect_blob_refs.simps)
  have "set (collect_blob_refs (JArray ms')) \<subseteq> set (collect_blob_refs (JObject m))"
    using add_instructions_blobs[OF add] blobs_of_member[OF ms] by (auto simp: value_blobs_def)
  then show ?thesis using blobs_insert_member[of "''messages''" "JArray ms'" m] unfolding m' by blast
qed

definition named_blobs :: "serde \<Rightarrow> event_payload \<Rightarrow> blob_ref set" where
  "named_blobs sd p = (case payload_blobs sd p of Inr bs \<Rightarrow> {b \<in> set bs. validate_blob_ref b = Inr ()} | Inl _ \<Rightarrow> {})"

lemma model_request_blobs:
  assumes "reads_back sd" and "model_request sd h bs = Inr bs'"
  shows "named_blobs sd (CanonicalJson bs') \<subseteq> named_blobs sd (CanonicalJson bs)"
proof -
  from assms(2) obtain m m1 m2 where m: "from_slice sd bs = Inr (JObject m)" "insert_model h m = Inr m1" "insert_identity h m1 = Inr m2"
    "to_vec sd (JObject m2) = Inr bs'"
    by (auto simp: model_request_def as_object_Some)
  have "set (collect_blob_refs (JObject m2)) \<subseteq> set (collect_blob_refs (JObject m))"
    using insert_model_blobs[OF m(2)] insert_identity_blobs[OF m(3)] by blast
  then show ?thesis using m(1) reads_backD[OF assms(1) m(4)] by (auto simp: named_blobs_def payload_blobs_def simp del: collect_blob_refs.simps)
qed

section \<open>Provenance\<close>

definition stamped :: "'b host_state \<Rightarrow> append_request \<Rightarrow> bool" where
  "stamped h r \<longleftrightarrow> stream_id r = pr_id (dl_agent (hs_delivery h)) \<and> stream_kind r = AgentStream \<and>
     actor r = new_principal Component (dl_instance (hs_delivery h)) \<and> authority_id r = Some (dl_authority (hs_delivery h)) \<and>
     activity_id r = Some (dl_activity (hs_delivery h)) \<and> correlation_id r = Some (dl_correlation (hs_delivery h)) \<and>
     observed_at_ms r = None \<and> registry_authorize (hs_registry h) r (hs_emits h) = Inr ()"

lemma proposal_request_stamped: "proposal_request sd h p cause derived = Inr r \<Longrightarrow> stamped h r"
  by (auto simp: proposal_request_def Let_def stamped_def split: if_splits)

lemma proposal_request_blobs:
  assumes rb: "reads_back sd" and call: "proposal_request sd h p cause derived = Inr r" and b: "b \<in> named_blobs sd (payload r)"
  shows "\<exists>v \<in> set (visible_blobs (hs_blobs h)). same_blob_content b v"
proof -
  let ?final = "\<lambda>pay. case (prop_event_type p = ''model.requested'', pay) of
      (True, CanonicalJson bs) \<Rightarrow> rbind (model_request sd h bs) (\<lambda>bs. Inr (CanonicalJson bs)) | _ \<Rightarrow> Inr pay"
  from call obtain pay where auth: "authorize_blob_references sd pay (visible_blobs (hs_blobs h)) = Inr ()"
    and final: "?final pay = Inr (payload r)"
    by (auto simp: proposal_request_def Let_def split: if_splits)
  have "named_blobs sd (payload r) \<subseteq> named_blobs sd pay"
  proof (cases "prop_event_type p = ''model.requested'' \<and> (\<exists>bs. pay = CanonicalJson bs)")
    case True
    then obtain bs bs' where "pay = CanonicalJson bs" "model_request sd h bs = Inr bs'" "payload r = CanonicalJson bs'" using final by auto
    with model_request_blobs[OF rb] show ?thesis by simp
  next
    case False
    then have "payload r = pay" using final by (auto split: bool.splits event_payload.splits)
    then show ?thesis by simp
  qed
  with b have "b \<in> named_blobs sd pay" by blast
  with auth show ?thesis
    by (auto simp: authorize_blob_references_def named_blobs_def list_ex_iff split: if_splits sum.splits)
qed

section \<open>What a component can do through its imports\<close>

text \<open>A call of a component is a sequence of calls of its imports; the references it got for content it stored are collected, and so
  are the events it was shown. The imports left out read state, credentials, blobs by reference or the network, and change
  neither the log, the cursors nor what the component can see.\<close>

inductive import_run ::
  "serde \<Rightarrow> 'b blob_ops \<Rightarrow> 's event_ops \<Rightarrow> 'b host_state \<Rightarrow> 's \<Rightarrow> blob_ref list \<Rightarrow> wit_event list \<Rightarrow> 'b host_state \<Rightarrow> 's \<Rightarrow> bool" for sd bops ops where
  run_none: "import_run sd bops ops h s [] [] h s"
| run_append: "\<lbrakk>import_run sd bops ops h s ups ws h1 s1; host_append sd ops h1 s1 p = (h2, s2, res)\<rbrakk> \<Longrightarrow> import_run sd bops ops h s ups ws h2 s2"
| run_get: "\<lbrakk>import_run sd bops ops h s ups ws h1 s1; host_get sd ops h1 s1 i = (h2, res)\<rbrakk> \<Longrightarrow>
    import_run sd bops ops h s ups (ws @ (case res of Inr w \<Rightarrow> [w] | Inl _ \<Rightarrow> [])) h2 s1"
| run_query: "\<lbrakk>import_run sd bops ops h s ups ws h1 s1; host_query sd ops h1 s1 f n = (h2, res)\<rbrakk> \<Longrightarrow>
    import_run sd bops ops h s ups (ws @ (case res of Inr p \<Rightarrow> page_events p | Inl _ \<Rightarrow> [])) h2 s1"
| run_put: "\<lbrakk>import_run sd bops ops h s ups ws h1 s1; host_put bops (hs_blobs h1) m bs = (b2, res)\<rbrakk> \<Longrightarrow>
    import_run sd bops ops h s (ups @ (case res of Inr b \<Rightarrow> [b] | Inl _ \<Rightarrow> [])) ws (h1\<lparr>hs_blobs := b2\<rparr>) s1"
| run_open: "\<lbrakk>import_run sd bops ops h s ups ws h1 s1; host_open_write bops (hs_blobs h1) m sz = (b2, res)\<rbrakk> \<Longrightarrow>
    import_run sd bops ops h s ups ws (h1\<lparr>hs_blobs := b2\<rparr>) s1"
| run_write: "\<lbrakk>import_run sd bops ops h s ups ws h1 s1; host_write bops (hs_blobs h1) up off bs = (b2, res)\<rbrakk> \<Longrightarrow>
    import_run sd bops ops h s ups ws (h1\<lparr>hs_blobs := b2\<rparr>) s1"
| run_finish: "\<lbrakk>import_run sd bops ops h s ups ws h1 s1; host_finish bops (hs_blobs h1) up = (b2, res)\<rbrakk> \<Longrightarrow>
    import_run sd bops ops h s (ups @ (case res of Inr b \<Rightarrow> [b] | Inl _ \<Rightarrow> [])) ws (h1\<lparr>hs_blobs := b2\<rparr>) s1"
| run_read: "\<lbrakk>import_run sd bops ops h s ups ws h1 s1; host_read bops (hs_blobs h1) b off n = (b2, res)\<rbrakk> \<Longrightarrow>
    import_run sd bops ops h s ups ws (h1\<lparr>hs_blobs := b2\<rparr>) s1"
| run_grow: "import_run sd bops ops h s ups ws h1 s1 \<Longrightarrow> import_run sd bops ops h s ups ws (memory_growing lim cur des h1) s1"

text \<open>What no import changes: whom the host acts for, and what the component may produce.\<close>

definition same_rights :: "'b host_state \<Rightarrow> 'b host_state \<Rightarrow> bool" where
  "same_rights h h' \<longleftrightarrow> hs_delivery h' = hs_delivery h \<and> hs_registry h' = hs_registry h \<and> hs_emits h' = hs_emits h"

lemma same_rights_refl [simp]: "same_rights h h"
  by (simp add: same_rights_def)

lemma same_rights_trans: "same_rights a b \<Longrightarrow> same_rights b c \<Longrightarrow> same_rights a c"
  by (simp add: same_rights_def)

lemma same_rights_stamped: "same_rights h h' \<Longrightarrow> stamped h' r = stamped h r"
  by (simp add: same_rights_def stamped_def)

lemma same_rights_reveal [simp]: "same_rights h (reveal_event_blobs sd h es)"
  by (simp add: same_rights_def reveal_event_blobs_def Let_def)

lemma same_rights_reveal_all: "same_rights h (fold (\<lambda>e h. reveal_event_blobs sd h [e]) es h)"
proof (induction es arbitrary: h)
  case (Cons e es)
  then show ?case using same_rights_trans[OF same_rights_reveal[of h sd "[e]"]] by simp
qed simp

lemma prepare_rights: "same_rights h (prepare_call ph (reveal_event_blobs sd h es))"
  by (simp add: same_rights_def prepare_call_def reset_resource_evidence_def reveal_event_blobs_def Let_def)

lemma same_rights_append: "host_append sd ops h s p = (h', s', res) \<Longrightarrow> same_rights h h'"
  by (auto simp: host_append_def Let_def same_rights_def split: if_splits sum.splits prod.splits)

lemma same_rights_get: "host_get sd ops h s i = (h', res) \<Longrightarrow> same_rights h h'"
  by (auto simp: host_get_def split: sum.splits option.splits)

lemma same_rights_query: "host_query sd ops h s f n = (h', res) \<Longrightarrow> same_rights h h'"
  using same_rights_reveal_all[of h sd] by (auto simp: host_query_def Let_def split: if_splits sum.splits)

lemma same_rights_update [simp]: "same_rights h (h\<lparr>hs_blobs := b\<rparr>)" "same_rights h (memory_growing lim cur des h)"
  by (auto simp: same_rights_def memory_growing_def record_exhaustion_def split: option.splits)

lemma import_run_rights: "import_run sd bops ops h s ups ws h' s' \<Longrightarrow> same_rights h h'"
  by (induction rule: import_run.induct)
    (auto intro: same_rights_trans dest: same_rights_append same_rights_get same_rights_query)

lemma proposal_requests_stamped:
  assumes "proposal_requests sd h ph i at cause ps = Inr rs" and "r \<in> set rs"
  shows "stamped h r"
proof -
  let ?f = "\<lambda>(n, p). proposal_request sd h p cause (Some (derived_key ph i at n))"
  have eq: "map ?f (enumerate 0 ps) = map Inr rs" using assms(1) by (simp add: proposal_requests_def collect_results_Inr)
  have "Inr r \<in> set (map Inr rs)" using assms(2) by simp
  then have "Inr r \<in> set (map ?f (enumerate 0 ps))" by (simp only: eq)
  then show ?thesis by (auto intro: proposal_request_stamped)
qed

text \<open>A call that acts only through the imports.\<close>

definition confined :: "serde \<Rightarrow> 'b blob_ops \<Rightarrow> 's event_ops \<Rightarrow> ('b, 's) guest_call \<Rightarrow> bool" where
  "confined sd bops ops guest \<longleftrightarrow> (\<forall>h s es h' s' x. guest h s es = (h', s', x) \<longrightarrow> (\<exists>ups ws. import_run sd bops ops h s ups ws h' s'))"

context component_store
begin

text \<open>The effects a component may have on the store: new events it is the stamped author of, and its own state and cursor.\<close>

definition own_effect :: "'b host_state \<Rightarrow> cursor_key \<Rightarrow> 's \<Rightarrow> 's \<Rightarrow> bool" where
  "own_effect h k s s' \<longleftrightarrow> inv s' \<and> (\<exists>new. log s' = log s @ new \<and> (\<forall>e \<in> set new. stamped h (request e))) \<and>
     (\<forall>ns. ns \<noteq> cursor_namespace k \<longrightarrow> entries s' ns = entries s ns) \<and> (\<forall>j. j \<noteq> k \<longrightarrow> cursors s' j = cursors s j)"

lemma own_effect_refl: "inv s \<Longrightarrow> own_effect h k s s"
  by (simp add: own_effect_def)

lemma own_effect_trans:
  assumes "own_effect h k s s1" and "own_effect h' k s1 s2" and "same_rights h h'"
  shows "own_effect h k s s2"
proof -
  obtain a b where "log s1 = log s @ a" "\<forall>e \<in> set a. stamped h (request e)" "log s2 = log s1 @ b" "\<forall>e \<in> set b. stamped h (request e)"
    using assms same_rights_stamped[OF assms(3)] by (auto simp: own_effect_def)
  then have "\<exists>new. log s2 = log s @ new \<and> (\<forall>e \<in> set new. stamped h (request e))" by (intro exI[of _ "a @ b"]) auto
  with assms(1,2) show ?thesis by (simp add: own_effect_def)
qed

lemma append_effect:
  assumes "inv s" and "op_append ops s r = (s', res)" and "stamped h r"
  shows "own_effect h k s s'"
proof -
  have "\<exists>new. log s' = log s @ new \<and> request ` set new \<subseteq> {r}"
  proof (cases res)
    case (Inr e)
    then show ?thesis using append[OF assms(1,2)] log_append_answers by fastforce
  qed (use append[OF assms(1,2)] in auto)
  then show ?thesis using assms append[OF assms(1,2)] append_keeps[OF assms(1,2)] by (auto simp: own_effect_def)
qed

lemma host_append_effect:
  assumes "inv s" and "host_append sd ops h s p = (h', s', res)"
  shows "own_effect h k s s'"
proof (cases "s' = s")
  case True
  with assms(1) show ?thesis by (simp add: own_effect_refl)
next
  case False
  then obtain r x where r: "proposal_request sd (h\<lparr>hs_append_sequence := hs_append_sequence h + 1\<rparr>) p (Some (dl_origin (hs_delivery h))) None = Inr r"
    "op_append ops s r = (s', x)"
    using assms(2) by (auto simp: host_append_def Let_def split: if_splits sum.splits prod.splits)
  from proposal_request_stamped[OF r(1)] have "stamped h r" by (simp add: stamped_def)
  with append_effect[OF assms(1) r(2)] show ?thesis .
qed

lemma import_run_effect: "import_run sd bops ops h s ups ws h' s' \<Longrightarrow> inv s \<Longrightarrow> own_effect h k s s'"
proof (induction rule: import_run.induct)
  case (run_append h s ups ws h1 s1 p h2 s2 res)
  then have "own_effect h k s s1" "inv s1" by (auto simp: own_effect_def)
  with host_append_effect[OF _ run_append(2)] import_run_rights[OF run_append(1)] show ?case by (blast intro: own_effect_trans)
qed (auto simp: own_effect_refl)

lemma import_run_cursors: "import_run sd bops ops h s ups ws h' s' \<Longrightarrow> inv s \<Longrightarrow> cursors s' = cursors s"
proof (induction rule: import_run.induct)
  case (run_append h s ups ws h1 s1 p h2 s2 res)
  have "inv s1" using import_run_effect[OF run_append(1,4), of undefined] by (simp add: own_effect_def)
  then have "cursors s2 = cursors s1"
    using run_append(2) append_keeps by (auto simp: host_append_def Let_def split: if_splits sum.splits prod.splits)
  with run_append show ?case by simp
qed simp_all

lemma commit_own_effect:
  assumes "inv s" and "op_commit dops s c = (s', x)" and "\<forall>r \<in> set (commit_events c). stamped h r"
  shows "own_effect h (cursor c) s s'"
proof (cases x)
  case (Inl e)
  with commit_failed[OF assms(1)] assms(2) show ?thesis by (simp add: own_effect_def)
next
  case (Inr rc)
  with commit_done[OF assms(1)] assms(2) have "inv s' \<and> cursors s' = (cursors s)(cursor c := receipt_checkpoint rc) \<and>
      entries s' = (entries s)(cursor_namespace (cursor c) := fold mutate (mutations c) (entries s (cursor_namespace (cursor c)))) \<and>
      (\<exists>new. log s' = log s @ new \<and> request ` set new \<subseteq> set (commit_events c))" by blast
  with assms(3) show ?thesis by (auto simp: own_effect_def)
qed

lemma core_commit_effect:
  assumes "inv s" and "core_commit sd bops dops c s oc cause ph = (c', s', r)"
  shows "own_effect (ic_host c) (ic_cursor c) s s'"
proof (cases "s' = s")
  case True
  with assms(1) show ?thesis by (simp add: own_effect_refl)
next
  case False
  let ?h = "release_host bops (ic_host c)"
  from False obtain rs ms x where rs: "proposal_requests sd ?h ph (ic_id c) (ic_checkpoint c) cause (oc_events oc) = Inr rs"
    and commit: "op_commit dops s \<lparr>cursor = ic_cursor c, expected_checkpoint = ic_checkpoint c, checkpoint = oc_checkpoint oc,
              mutations = ms, commit_events = rs\<rparr> = (s', x)"
    using assms(2) by (auto simp: core_commit_def Let_def split: if_splits sum.splits prod.splits)
  have "same_rights (ic_host c) ?h" by (simp add: same_rights_def release_host_def)
  then have "\<forall>r \<in> set rs. stamped (ic_host c) r" using proposal_requests_stamped[OF rs] same_rights_stamped by blast
  with commit_own_effect[OF assms(1) commit, of "ic_host c"] show ?thesis by simp
qed

lemma handle_effect:
  assumes inv: "inv s" and conf: "confined sd bops ops guest" and call: "core_handle sd bops dops guest c s es = (c', s', r)"
  shows "own_effect (ic_host c) (ic_cursor c) s s'"
proof (cases "ic_interrupted c \<or> es = []")
  case True
  with call have "s' = s"
    by (cases "ic_interrupted c"; cases "es = []") (simp_all add: core_handle_def in_lifecycle_def handle_inner_def)
  with inv show ?thesis by (simp add: own_effect_refl)
next
  case False
  let ?h0 = "prepare_call ''delivery'' (reveal_event_blobs sd (ic_host c) es)"
  let ?batch = "map (delivered_event sd (dl_instance (hs_delivery (ic_host c)))) es"
  obtain h s1 x where g: "guest ?h0 s ?batch = (h, s1, x)" by (cases "guest ?h0 s ?batch")
  with conf obtain ups ws where run: "import_run sd bops ops ?h0 s ups ws h s1" unfolding confined_def by blast
  have first: "own_effect (ic_host c) (ic_cursor c) s s1"
    using own_effect_trans[OF own_effect_refl[OF inv] import_run_effect[OF run inv] prepare_rights] .
  then have inv1: "inv s1" by (simp add: own_effect_def)
  have rights: "same_rights (ic_host c) h" using same_rights_trans[OF prepare_rights import_run_rights[OF run]] .
  show ?thesis
  proof (cases "s' = s1")
    case True
    with first show ?thesis by simp
  next
    case other: False
    then obtain oc c2 r2 where "core_commit sd bops dops (c\<lparr>ic_interrupted := True, ic_host := h\<rparr>) s1 oc (only_cause es) HandlePhase = (c2, s', r2)"
      using call False g by (auto simp: core_handle_def in_lifecycle_def handle_inner_def Let_def split: guest_end.splits if_splits prod.splits)
    from core_commit_effect[OF inv1 this] have "own_effect h (ic_cursor c) s1 s'" by simp
    with first rights show ?thesis by (blast intro: own_effect_trans)
  qed
qed

end

section \<open>Visible blobs\<close>

text \<open>A blob that an event named which the component received.\<close>

definition handed :: "serde \<Rightarrow> wit_event list \<Rightarrow> blob_ref \<Rightarrow> bool" where
  "handed sd ws b \<longleftrightarrow> (\<exists>w \<in> set ws. b \<in> named_blobs sd (we_payload w))"

text \<open>An event the component may be shown.\<close>

definition showable :: "serde \<Rightarrow> 'b host_state \<Rightarrow> committed_event list \<Rightarrow> wit_event \<Rightarrow> bool" where
  "showable sd h es w \<longleftrightarrow> (\<exists>e \<in> set es. w = to_wit_event e \<and> stream_id (request e) = pr_id (dl_agent (hs_delivery h)) \<and>
     http_request_visible sd e (dl_instance (hs_delivery h)))"

lemma handed_append [simp]: "handed sd (ws @ vs) b \<longleftrightarrow> handed sd ws b \<or> handed sd vs b"
  by (auto simp: handed_def)

lemma showable_mono: "showable sd h es w \<Longrightarrow> set es \<subseteq> set es' \<Longrightarrow> same_rights h h' \<Longrightarrow> showable sd h' es' w"
  by (auto simp: showable_def same_rights_def)

lemma set_fold_insert: "set (fold List.insert xs ys) = set xs \<union> set ys"
  by (induction xs arbitrary: ys) auto

lemma referenced_named: "b \<in> set (referenced_blobs sd e) \<and> validate_blob_ref b = Inr () \<longleftrightarrow> b \<in> named_blobs sd (payload (request e))"
proof (cases "payload (request e)")
  case (CanonicalJson bs)
  then show ?thesis by (cases "from_slice sd bs") (auto simp: referenced_blobs_def named_blobs_def payload_blobs_def)
qed (auto simp: referenced_blobs_def named_blobs_def payload_blobs_def)

text \<open>What is revealed is named by an event as it is delivered, where a request for another component has lost its payload.\<close>

lemma reveal_visible:
  assumes "b \<in> set (visible_blobs (hs_blobs (reveal_event_blobs sd h es)))"
  shows "b \<in> set (visible_blobs (hs_blobs h)) \<or> handed sd (map (delivered_event sd (dl_instance (hs_delivery h))) es) b"
proof (rule disjCI)
  let ?i = "dl_instance (hs_delivery h)"
  assume "\<not> handed sd (map (delivered_event sd ?i) es) b"
  moreover have "b \<in> named_blobs sd (we_payload (delivered_event sd ?i e))"
    if "http_request_visible sd e ?i" "b \<in> set (referenced_blobs sd e)" "validate_blob_ref b = Inr ()" for e
    using that referenced_named[of b sd e] by (simp add: delivered_event_def to_wit_event_def)
  ultimately show "b \<in> set (visible_blobs (hs_blobs h))"
    using assms by (auto simp: reveal_event_blobs_def Let_def set_fold_insert handed_def)
qed

lemma reveal_all_visible:
  assumes "\<And>e. e \<in> set es \<Longrightarrow> http_request_visible sd e (dl_instance (hs_delivery h))"
    and "b \<in> set (visible_blobs (hs_blobs (fold (\<lambda>e h. reveal_event_blobs sd h [e]) es h)))"
  shows "b \<in> set (visible_blobs (hs_blobs h)) \<or> handed sd (map to_wit_event es) b"
  using assms
proof (induction es arbitrary: h)
  case (Cons e es)
  let ?h = "reveal_event_blobs sd h [e]"
  have same: "hs_delivery ?h = hs_delivery h" using same_rights_reveal[of h sd "[e]"] by (simp add: same_rights_def)
  have "b \<in> set (visible_blobs (hs_blobs ?h)) \<or> handed sd (map to_wit_event es) b"
    by (rule Cons.IH) (use Cons.prems same in auto)
  moreover have "b \<in> set (visible_blobs (hs_blobs ?h)) \<Longrightarrow> b \<in> set (visible_blobs (hs_blobs h)) \<or> handed sd [to_wit_event e] b"
    using reveal_visible[of b sd h "[e]"] Cons.prems(1)[of e] by (simp add: delivered_event_def)
  ultimately show ?case by (auto simp: handed_def)
qed simp

lemma put_visible: "host_put bops h m bs = (h', res) \<Longrightarrow> set (visible_blobs h') \<subseteq> set (visible_blobs h) \<union> set (case res of Inr b \<Rightarrow> [b] | Inl _ \<Rightarrow> [])"
  by (auto simp: host_put_def Let_def split: if_splits sum.splits prod.splits)

lemma finish_visible: "host_finish bops h up = (h', res) \<Longrightarrow> set (visible_blobs h') \<subseteq> set (visible_blobs h) \<union> set (case res of Inr b \<Rightarrow> [b] | Inl _ \<Rightarrow> [])"
  by (auto simp: host_finish_def Let_def split: if_splits sum.splits prod.splits)

lemma other_visible:
  "host_open_write bops h m sz = (h', r1) \<Longrightarrow> visible_blobs h' = visible_blobs h"
  "host_write bops h up off bs = (h', r2) \<Longrightarrow> visible_blobs h' = visible_blobs h"
  "host_read bops h b off n = (h', r3) \<Longrightarrow> visible_blobs h' = visible_blobs h"
  by (auto simp: host_open_write_def host_write_def host_read_def Let_def split: if_splits sum.splits prod.splits)

lemma append_visible: "host_append sd ops h s p = (h', s', res) \<Longrightarrow> hs_blobs h' = hs_blobs h"
  by (auto simp: host_append_def Let_def split: if_splits sum.splits prod.splits)

context component_store
begin

lemma get_visible:
  assumes "inv s" and "host_get sd ops h s i = (h', res)"
  shows "set (visible_blobs (hs_blobs h')) \<subseteq> set (visible_blobs (hs_blobs h)) \<union> {b. handed sd (case res of Inr w \<Rightarrow> [w] | Inl _ \<Rightarrow> []) b}"
    and "\<forall>w \<in> set (case res of Inr w \<Rightarrow> [w] | Inl _ \<Rightarrow> []). showable sd h (log s) w"
proof -
  have "set (visible_blobs (hs_blobs h')) \<subseteq> set (visible_blobs (hs_blobs h)) \<union> {b. handed sd (case res of Inr w \<Rightarrow> [w] | Inl _ \<Rightarrow> []) b} \<and>
      (\<forall>w \<in> set (case res of Inr w \<Rightarrow> [w] | Inl _ \<Rightarrow> []). showable sd h (log s) w)"
  proof (cases res)
    case (Inl x)
    with assms(2) have "h' = h" by (auto simp: host_get_def split: sum.splits option.splits)
    with Inl show ?thesis by simp
  next
    case (Inr w)
    then obtain e where e: "find (\<lambda>e. event_id e = i) (log s) = Some e" "stream_id (request e) = pr_id (dl_agent (hs_delivery h))"
      "http_request_visible sd e (dl_instance (hs_delivery h))" "h' = reveal_event_blobs sd h [e]" "w = to_wit_event e"
      using assms(2) by (auto simp: host_get_def get[OF assms(1)] split: option.splits if_splits Option.bind_splits)
    have "e \<in> set (log s)" using find_SomeD[OF e(1)] by simp
    with e(2,3,5) have "showable sd h (log s) w" by (auto simp: showable_def)
    with Inr reveal_visible[of _ sd h "[e]"] e(3-5) show ?thesis by (auto simp: delivered_event_def)
  qed
  then show "set (visible_blobs (hs_blobs h')) \<subseteq> set (visible_blobs (hs_blobs h)) \<union> {b. handed sd (case res of Inr w \<Rightarrow> [w] | Inl _ \<Rightarrow> []) b}"
    "\<forall>w \<in> set (case res of Inr w \<Rightarrow> [w] | Inl _ \<Rightarrow> []). showable sd h (log s) w" by blast+
qed

lemma query_visible:
  assumes "inv s" and "host_query sd ops h s f n = (h', res)"
  shows "set (visible_blobs (hs_blobs h')) \<subseteq>
      set (visible_blobs (hs_blobs h)) \<union> {b. handed sd (case res of Inr p \<Rightarrow> page_events p | Inl _ \<Rightarrow> []) b}"
    and "\<forall>w \<in> set (case res of Inr p \<Rightarrow> page_events p | Inl _ \<Rightarrow> []). showable sd h (log s) w"
proof -
  have "set (visible_blobs (hs_blobs h')) \<subseteq> set (visible_blobs (hs_blobs h)) \<union> {b. handed sd (case res of Inr p \<Rightarrow> page_events p | Inl _ \<Rightarrow> []) b} \<and>
      (\<forall>w \<in> set (case res of Inr p \<Rightarrow> page_events p | Inl _ \<Rightarrow> []). showable sd h (log s) w)"
  proof (cases "\<exists>page. res = Inr page \<and> page_events page \<noteq> []")
    case False
    with assms(2) have "h' = h" by (auto simp: host_query_def Let_def split: if_splits sum.splits)
    with False show ?thesis by (auto split: sum.splits)
  next
    case True
    then obtain page where page: "res = Inr page" "page_events page \<noteq> []" by blast
    define k where "k = unat (min n max_event_page)"
    define lim :: u64 where "lim = (if searching f then of_nat (unat max_event_page) else of_nat k)"
    have ok: "\<not> is_some_and (\<lambda>q. 4096 < length q) (filter_text f)" "n \<noteq> 0"
      using assms(2) page by (auto simp: host_query_def split: if_splits)
    obtain es where es: "op_query ops s (pr_id (dl_agent (hs_delivery h))) (filter_query f) lim = Inr es"
      using assms(2) page(1) ok by (cases "op_query ops s (pr_id (dl_agent (hs_delivery h))) (filter_query f) lim")
        (simp_all add: host_query_def Let_def flip: k_def lim_def)
    have h': "h' = fold (\<lambda>e h. reveal_event_blobs sd h [e]) (take k (filter (selects sd h f) es)) h"
      and pe: "(case res of Inr p \<Rightarrow> page_events p | Inl _ \<Rightarrow> []) = map to_wit_event (take k (filter (selects sd h f) es))"
      using assms(2) page(1) ok es by (auto simp: host_query_def Let_def simp flip: k_def lim_def)
    let ?sel = "take k (filter (selects sd h f) es)"
    have sel: "http_request_visible sd e (dl_instance (hs_delivery h))" "e \<in> set (stream_log (log s) (pr_id (dl_agent (hs_delivery h))))"
      if "e \<in> set ?sel" for e
      using that query_sound[OF assms(1) es] by (auto simp: selects_def dest!: in_set_takeD)
    have "set (visible_blobs (hs_blobs h')) \<subseteq> set (visible_blobs (hs_blobs h)) \<union> {b. handed sd (map to_wit_event ?sel) b}"
      using reveal_all_visible[of ?sel sd h] sel(1) unfolding h' by blast
    moreover have "\<forall>w \<in> set (map to_wit_event ?sel). showable sd h (log s) w" using sel by (auto simp: showable_def)
    ultimately show ?thesis unfolding pe by blast
  qed
  then show "set (visible_blobs (hs_blobs h')) \<subseteq>
      set (visible_blobs (hs_blobs h)) \<union> {b. handed sd (case res of Inr p \<Rightarrow> page_events p | Inl _ \<Rightarrow> []) b}"
    "\<forall>w \<in> set (case res of Inr p \<Rightarrow> page_events p | Inl _ \<Rightarrow> []). showable sd h (log s) w" by blast+
qed

lemma import_run_inv: "import_run sd bops ops h s ups ws h' s' \<Longrightarrow> inv s \<Longrightarrow> inv s'"
  using import_run_effect[of sd bops h s ups ws h' s' undefined] by (simp add: own_effect_def)

lemma import_run_visible:
  "import_run sd bops ops h s ups ws h' s' \<Longrightarrow> inv s \<Longrightarrow>
     set (visible_blobs (hs_blobs h')) \<subseteq> set (visible_blobs (hs_blobs h)) \<union> set ups \<union> {b. handed sd ws b}"
proof (induction rule: import_run.induct)
  case (run_append h s ups ws h1 s1 p h2 s2 res)
  with append_visible[OF run_append(2)] show ?case by simp
next
  case (run_get h s ups ws h1 s1 i h2 res)
  from get_visible(1)[OF import_run_inv[OF run_get(1,4)] run_get(2)] run_get show ?case by auto
next
  case (run_query h s ups ws h1 s1 f n h2 res)
  from query_visible(1)[OF import_run_inv[OF run_query(1,4)] run_query(2)] run_query show ?case by auto
next
  case (run_put h s ups ws h1 s1 m bs b2 res)
  then show ?case using put_visible[OF run_put(2)] by auto
next
  case (run_finish h s ups ws h1 s1 up b2 res)
  then show ?case using finish_visible[OF run_finish(2)] by auto
qed (auto simp: handed_def other_visible memory_growing_def record_exhaustion_def split: option.splits)

lemma import_run_shown:
  "import_run sd bops ops h s ups ws h' s' \<Longrightarrow> inv s \<Longrightarrow> \<forall>w \<in> set ws. showable sd h (log s') w"
proof (induction rule: import_run.induct)
  case (run_append h s ups ws h1 s1 p h2 s2 res)
  obtain new where "log s2 = log s1 @ new"
    using host_append_effect[OF import_run_inv[OF run_append(1,4)] run_append(2), of undefined] by (auto simp: own_effect_def)
  then have "showable sd h (log s1) w \<Longrightarrow> showable sd h (log s2) w" for w by (elim showable_mono) auto
  with run_append show ?case by blast
next
  case (run_get h s ups ws h1 s1 i h2 res)
  have "showable sd h1 (log s1) w \<Longrightarrow> showable sd h (log s1) w" for w
    using import_run_rights[OF run_get(1)] by (auto simp: showable_def same_rights_def)
  with get_visible(2)[OF import_run_inv[OF run_get(1,4)] run_get(2)] run_get show ?case by auto
next
  case (run_query h s ups ws h1 s1 f n h2 res)
  have "showable sd h1 (log s1) w \<Longrightarrow> showable sd h (log s1) w" for w
    using import_run_rights[OF run_query(1)] by (auto simp: showable_def same_rights_def)
  with query_visible(2)[OF import_run_inv[OF run_query(1,4)] run_query(2)] run_query show ?case by auto
qed auto

end

section \<open>Pages of a query\<close>

lemma filter_take_prefix: "filter P (take m xs) = take (length (filter P (take m xs))) (filter P xs)"
proof -
  have "filter P xs = filter P (take m xs) @ filter P (drop m xs)" by (metis append_take_drop_id filter_append)
  then show ?thesis by simp
qed

lemma filter_conj_filter: "filter (\<lambda>x. P x \<and> Q x) xs = filter Q (filter P xs)"
  by simp

text \<open>The first elements of a sorted list that are selected from a prefix, and how far they reach.\<close>

lemma selected_upto:
  fixes g :: "'a \<Rightarrow> 'b::linorder"
  assumes sorted: "sorted_wrt (<) (map g xs)" and sel: "take r (filter P (take m xs)) \<noteq> []"
  shows "filter (\<lambda>x. P x \<and> g x \<le> g (last (take r (filter P (take m xs))))) xs = take r (filter P (take m xs))"
proof -
  let ?k = "min r (length (filter P (take m xs)))"
  have eq: "take r (filter P (take m xs)) = take ?k (filter P xs)"
    by (subst filter_take_prefix) simp
  have "sorted_wrt (<) (map g (filter P xs))" using sorted by (induction xs) auto
  from upto_sorted[OF this, of ?k] sel show ?thesis unfolding filter_conj_filter eq by simp
qed

lemma page_upto:
  fixes g :: "'a \<Rightarrow> 'b::linorder"
  assumes "sorted_wrt (<) (map g xs)" and "take m xs \<noteq> []"
  shows "filter (\<lambda>x. P x \<and> g x \<le> g (last (take m xs))) xs = filter P (take m xs)"
proof -
  have "filter (\<lambda>x. P x \<and> g x \<le> g (last (take m xs))) xs = filter P (filter (\<lambda>x. g x \<le> g (last (take m xs))) xs)"
    by (simp add: conj_commute)
  then show ?thesis using upto_sorted[OF assms] by simp
qed

text \<open>Whether an event comes no later than a bound in the order of the query.\<close>

definition within :: "bool \<Rightarrow> u64 option \<Rightarrow> committed_event \<Rightarrow> bool" where
  "within desc bound e = is_none_or (\<lambda>n. if desc then n \<le> sequence e else sequence e \<le> n) bound"

lemma page_cases:
  fixes g :: "'a \<Rightarrow> 'b::linorder"
  assumes sorted: "sorted_wrt (<) (map g all)" and m: "0 < m" "0 < r" and less: "\<not> srch \<Longrightarrow> m \<le> r"
    and es: "es = take m all" and sel: "sel = take r (filter P es)"
    and nxt: "nxt = (if srch then (case last_of sel of None \<Rightarrow> last_of es | Some e \<Rightarrow> Some e) else last_of es)"
  shows "sel = filter (\<lambda>e. P e \<and> is_none_or (\<lambda>x. g e \<le> g x) nxt) all \<and> (nxt = None \<longleftrightarrow> all = [])"
proof (cases "all = []")
  case True
  then show ?thesis using es sel nxt by (auto simp: last_of_def)
next
  case False
  then have ne: "take m all \<noteq> []" using m by simp
  show ?thesis
  proof (cases "srch \<and> sel \<noteq> []")
    case True
    then have "nxt = Some (last sel)" using nxt by (simp add: last_of_def)
    with True selected_upto[OF sorted, of r P m] sel es False show ?thesis by simp
  next
    case nosel: False
    then have n: "nxt = Some (last (take m all))" using nxt es ne by (auto simp: last_of_def)
    have "sel = filter P (take m all)"
    proof (cases srch)
      case True
      with nosel sel es m(2) show ?thesis by auto
    next
      case f: False
      have "length (filter P (take m all)) \<le> r" using less[OF f] length_filter_le[of P "take m all"] by simp
      with sel es show ?thesis by simp
    qed
    with n page_upto[OF sorted ne, of P] False show ?thesis by simp
  qed
qed

lemma filter_query_simps [simp]:
  "text_query (filter_query f) = filter_text f" "before_sequence (filter_query f) = filter_before f" "descending (filter_query f) = filter_descending f"
  by (simp_all add: filter_query_def)

text \<open>The order of the answers to a query, as a number that grows.\<close>

definition query_rank :: "bool \<Rightarrow> committed_event \<Rightarrow> int" where
  "query_rank desc e = (if desc then - uint (sequence e) else uint (sequence e))"

lemma within_rank: "within desc (map_option sequence x) e \<longleftrightarrow> is_none_or (\<lambda>x. query_rank desc e \<le> query_rank desc x) x"
  by (cases x) (auto simp: within_def query_rank_def word_le_def)

lemma answers_sorted:
  assumes "log_wf es"
  shows "sorted_wrt (<) (map (query_rank (descending q)) (query_answers en es stream q))"
proof -
  let ?found = "filter (\<lambda>e. query_matches q e \<and> text_found en q e) (stream_log es stream)"
  have up: "sorted_wrt (\<lambda>a b. uint (sequence a) < uint (sequence b)) ?found"
    using stream_log_strict[OF assms, of "\<lambda>e. query_matches q e \<and> text_found en q e" stream] by (simp add: sorted_wrt_map word_less_def)
  then have "sorted_wrt (\<lambda>a b. uint (sequence b) < uint (sequence a)) (rev ?found)" by (simp add: sorted_wrt_rev)
  with up show ?thesis by (simp add: query_answers_def Let_def sorted_wrt_map query_rank_def)
qed

lemma query_pages:
  assumes ops: "\<And>lim. op_query ops s (pr_id (dl_agent (hs_delivery h))) (filter_query f) lim = Inr (take (unat lim) all)"
    and sorted: "sorted_wrt (<) (map (query_rank (filter_descending f)) all)"
    and call: "host_query sd ops h s f n = (h', Inr page)" and n: "n \<noteq> 0"
  shows "page_events page = map to_wit_event (filter (\<lambda>e. selects sd h f e \<and> within (filter_descending f) (next_sequence page) e) all) \<and>
    (next_sequence page = None \<longleftrightarrow> all = [])"
proof -
  define r where "r = unat (min n max_event_page)"
  have r: "0 < r" "r \<le> 1000" using n by (auto simp: r_def max_event_page_def min_def unat_gt_0 word_le_nat_alt split: if_splits)
  define m where "m = (if searching f then 1000 else r)"
  have lim: "unat (if searching f then of_nat (unat max_event_page) else of_nat r :: u64) = m"
    using r by (auto simp: m_def max_event_page_def unat_of_nat)
  define es where "es = take m all"
  define sel where "sel = take r (filter (selects sd h f) es)"
  define nxt where "nxt = (if searching f then (case last_of sel of None \<Rightarrow> last_of es | Some e \<Rightarrow> Some e) else last_of es)"
  have q: "op_query ops s (pr_id (dl_agent (hs_delivery h))) (filter_query f) (if searching f then of_nat (unat max_event_page) else of_nat r) = Inr es"
    using ops lim by (simp add: es_def)
  have page: "page = \<lparr>page_events = map to_wit_event sel, next_sequence = map_option sequence nxt\<rparr>"
    using call n q by (simp add: host_query_def Let_def r_def[symmetric] sel_def[symmetric] nxt_def split: if_splits)
  from page_cases[OF sorted _ r(1) _ es_def sel_def nxt_def] r
  have "sel = filter (\<lambda>e. selects sd h f e \<and> is_none_or (\<lambda>x. query_rank (filter_descending f) e \<le> query_rank (filter_descending f) x) nxt) all \<and>
      (nxt = None \<longleftrightarrow> all = [])"
    by (simp add: m_def)
  then show ?thesis by (simp add: page within_rank)
qed

section \<open>The source loop\<close>

definition in_batch_range :: "committed_event list \<Rightarrow> u64 \<Rightarrow> bool" where
  "in_batch_range es n = (case es of [] \<Rightarrow> n = 0 | e # _ \<Rightarrow> sequence e \<le> n \<and> n \<le> sequence (last es))"

text \<open>Everything that can happen to a running instance: its component's calls, the host's commands, cancellation and skips, and
  what others do to the store meanwhile. The batches handed to the component are collected.\<close>

inductive source_run ::
  "serde \<Rightarrow> 'b blob_ops \<Rightarrow> 's event_ops \<Rightarrow> 's delivery_ops \<Rightarrow> ('s \<Rightarrow> 's \<Rightarrow> bool) \<Rightarrow> 'b runner \<Rightarrow> 's \<Rightarrow> committed_event list list \<Rightarrow> 'b runner \<Rightarrow> 's \<Rightarrow> bool"
  for sd bops ops dops env where
  src_none: "source_run sd bops ops dops env r s [] r s"
| src_commit: "\<lbrakk>source_run sd bops ops dops env r s bs r1 s1; source_commit sd dops r1 s1 ps ms cp = (r2, s2, res)\<rbrakk> \<Longrightarrow>
    source_run sd bops ops dops env r s bs r2 s2"
| src_reject: "\<lbrakk>source_run sd bops ops dops env r s bs r1 s1; source_reject sd r1 e = (r2, res)\<rbrakk> \<Longrightarrow> source_run sd bops ops dops env r s bs r2 s1"
| src_next: "\<lbrakk>source_run sd bops ops dops env r s bs r1 s1; source_next sd r1 now cmd = (r2, res)\<rbrakk> \<Longrightarrow>
    source_run sd bops ops dops env r s (bs @ (case (cmd, res) of (Some (DeliverBatch es), Inr (WakeEvents _)) \<Rightarrow> [es] | _ \<Rightarrow> [])) r2 s1"
| src_import: "\<lbrakk>source_run sd bops ops dops env r s bs r1 s1; import_run sd bops ops (rn_host r1) s1 ups ws h s2\<rbrakk> \<Longrightarrow>
    source_run sd bops ops dops env r s bs (r1\<lparr>rn_host := h\<rparr>) s2"
| src_cancel: "source_run sd bops ops dops env r s bs r1 s1 \<Longrightarrow> source_run sd bops ops dops env r s bs (cancel r1) s1"
| src_reset: "source_run sd bops ops dops env r s bs r1 s1 \<Longrightarrow> source_run sd bops ops dops env r s bs (reset_cancellation r1) s1"
| src_shutdown: "source_run sd bops ops dops env r s bs r1 s1 \<Longrightarrow> source_run sd bops ops dops env r s bs (shutdown r1) s1"
| src_skip: "\<lbrakk>source_run sd bops ops dops env r s bs r1 s1; running_skip dops r1 s1 n rs = (r2, s2, res)\<rbrakk> \<Longrightarrow> source_run sd bops ops dops env r s bs r2 s2"
| src_env: "\<lbrakk>source_run sd bops ops dops env r s bs r1 s1; env s1 s2\<rbrakk> \<Longrightarrow> source_run sd bops ops dops env r s bs r1 s2"

text \<open>The batches are those that were answered, in order, and the one still open.\<close>

definition answered_in_order :: "committed_event list list \<Rightarrow> 'b runner \<Rightarrow> bool" where
  "answered_in_order bs r \<longleftrightarrow> (\<exists>closed. bs = closed @ (case rn_pending r of None \<Rightarrow> [] | Some b \<Rightarrow> [b]) \<and>
     list_all2 (\<lambda>b x. case x of Inl _ \<Rightarrow> True | Inr out \<Rightarrow> in_batch_range b (out_checkpoint out)) closed (rn_replies r))"

lemma commit_cause_Inr:
  assumes "commit_cause r ps cp = Inr cause"
  shows "case rn_pending r of None \<Rightarrow> cp = None | Some b \<Rightarrow> \<exists>n. cp = Some n \<and> in_batch_range b n"
proof (cases "rn_pending r")
  case (Some b)
  with assms show ?thesis
    by (cases cp; cases b) (auto simp: commit_cause_def in_batch_range_def Let_def split: if_splits)
qed (use assms in \<open>auto simp: commit_cause_def split: if_splits\<close>)

text \<open>A number between two delivered events is accepted although it identifies none of them.\<close>

lemma checkpoint_between:
  assumes "rn_pending r = Some [a, b]" and "sequence a < n" and "n < sequence b"
  shows "commit_cause r ps (Some n) = Inr None" and "n \<notin> sequence ` set [a, b]"
  using assms by (auto simp: commit_cause_def only_cause_def)

lemma answered_reply:
  assumes "answered_in_order bs r" and "rn_pending r = Some b" and "case x of Inl _ \<Rightarrow> True | Inr out \<Rightarrow> in_batch_range b (out_checkpoint out)"
    and "rn_pending r' = None" and "rn_replies r' = rn_replies r @ [x]"
  shows "answered_in_order bs r'"
proof -
  obtain closed where closed: "bs = closed @ [b]"
    "list_all2 (\<lambda>b x. case x of Inl _ \<Rightarrow> True | Inr out \<Rightarrow> in_batch_range b (out_checkpoint out)) closed (rn_replies r)"
    using assms(1,2) by (auto simp: answered_in_order_def)
  then have "list_all2 (\<lambda>b x. case x of Inl _ \<Rightarrow> True | Inr out \<Rightarrow> in_batch_range b (out_checkpoint out)) (closed @ [b]) (rn_replies r @ [x])"
    using assms(3) by (intro list_all2_appendI) auto
  with assms(4,5) closed(1) show ?thesis by (auto simp: answered_in_order_def)
qed

lemma answered_same: "answered_in_order bs r \<Longrightarrow> rn_pending r' = rn_pending r \<Longrightarrow> rn_replies r' = rn_replies r \<Longrightarrow> answered_in_order bs r'"
  by (simp add: answered_in_order_def)

lemma source_reject_answered:
  assumes "answered_in_order bs r" and "source_reject sd r e = (r', res)"
  shows "answered_in_order bs r' \<and> rn_cursor r' = rn_cursor r \<and> rn_checkpoint r' = rn_checkpoint r"
proof (cases "rn_pending r")
  case (Some b)
  with answered_reply[OF assms(1) Some, of "Inl (plugin_failure sd e)" r'] assms(2) show ?thesis by (auto simp: source_reject_def)
qed (use assms in \<open>auto simp: source_reject_def\<close>)

lemma source_next_answered:
  assumes "answered_in_order bs r" and "source_next sd r now cmd = (r', res)"
  shows "answered_in_order (bs @ (case (cmd, res) of (Some (DeliverBatch es), Inr (WakeEvents _)) \<Rightarrow> [es] | _ \<Rightarrow> [])) r' \<and>
    rn_cursor r' = rn_cursor r \<and> rn_checkpoint r' = rn_checkpoint r"
proof (cases "\<exists>es w. cmd = Some (DeliverBatch es) \<and> res = Inr (WakeEvents w)")
  case True
  then obtain es w where c: "cmd = Some (DeliverBatch es)" "res = Inr (WakeEvents w)" by blast
  with assms(2) have "rn_pending r = None" "rn_pending r' = Some es" "rn_replies r' = rn_replies r" "rn_cursor r' = rn_cursor r" "rn_checkpoint r' = rn_checkpoint r"
    by (auto simp: source_next_def Let_def split: if_splits)
  with assms(1) c show ?thesis by (auto simp: answered_in_order_def)
next
  case False
  with assms(2) have "rn_pending r' = rn_pending r \<and> rn_replies r' = rn_replies r \<and> rn_cursor r' = rn_cursor r \<and> rn_checkpoint r' = rn_checkpoint r"
    by (auto simp: source_next_def Let_def split: if_splits option.splits command.splits)
  moreover have "(case (cmd, res) of (Some (DeliverBatch es), Inr (WakeEvents _)) \<Rightarrow> [es] | _ \<Rightarrow> []) = []"
    using False by (auto split: option.splits command.splits sum.splits wake.splits)
  ultimately show ?thesis using assms(1) by (auto intro: answered_same)
qed

context component_store
begin

lemma run_commit_cases:
  assumes inv: "inv s" and call: "run_commit sd dops r s ps ms cp = (r', s', x)"
  shows "inv s' \<and> (case x of
      Inl e \<Rightarrow> r' = r \<and> cursors s' = cursors s
    | Inr out \<Rightarrow> r' = r\<lparr>rn_checkpoint := out_checkpoint out\<rparr> \<and> cursors s' = (cursors s)(rn_cursor r := out_checkpoint out) \<and>
        (case rn_pending r of None \<Rightarrow> out_checkpoint out = rn_checkpoint r | Some b \<Rightarrow> in_batch_range b (out_checkpoint out)))"
proof (cases "\<exists>cause rs qs. \<not> max_outcome_events < length ps \<and> commit_cause r ps cp = Inr cause \<and>
    proposal_requests sd (rn_host r) HandlePhase (dl_instance (hs_delivery (rn_host r))) (rn_checkpoint r) cause ps = Inr rs \<and> convert_mutations ms = Inr qs")
  case False
  then have "r' = r \<and> s' = s \<and> (\<exists>e. x = Inl e)"
    using call by (auto simp: run_commit_def split: if_splits sum.splits)
  with inv show ?thesis by auto
next
  case True
  then obtain cause rs qs where ok: "\<not> max_outcome_events < length ps" "commit_cause r ps cp = Inr cause"
    "proposal_requests sd (rn_host r) HandlePhase (dl_instance (hs_delivery (rn_host r))) (rn_checkpoint r) cause ps = Inr rs" "convert_mutations ms = Inr qs" by blast
  let ?c = "\<lparr>cursor = rn_cursor r, expected_checkpoint = rn_checkpoint r, checkpoint = cp, mutations = qs, commit_events = rs\<rparr>"
  obtain y where y: "op_commit dops s ?c = (s', y)"
    using call ok by (auto simp: run_commit_def Let_def split: prod.splits sum.splits)
  show ?thesis
  proof (cases y)
    case (Inl e)
    with call ok y commit_failed[OF inv] show ?thesis by (auto simp: run_commit_def)
  next
    case (Inr rc)
    then have x: "x = Inr \<lparr>out_events = receipt_events rc, out_checkpoint = receipt_checkpoint rc\<rparr>" "r' = r\<lparr>rn_checkpoint := receipt_checkpoint rc\<rparr>"
      using call ok y by (auto simp: run_commit_def)
    have d: "inv s' \<and> receipt_checkpoint rc = (case cp of None \<Rightarrow> rn_checkpoint r | Some n \<Rightarrow> n) \<and>
        cursors s' = (cursors s)(rn_cursor r := receipt_checkpoint rc)"
      using commit_done[OF inv y[unfolded Inr]] by (cases cp) simp_all
    with x commit_cause_Inr[OF ok(2)] show ?thesis by (cases "rn_pending r") auto
  qed
qed

lemma source_commit_answered:
  assumes inv: "inv s" and ans: "answered_in_order bs r" and cur: "cursors s (rn_cursor r) = rn_checkpoint r"
    and call: "source_commit sd dops r s ps ms cp = (r', s', res)"
  shows "inv s' \<and> answered_in_order bs r' \<and> cursors s' (rn_cursor r') = rn_checkpoint r'"
proof -
  obtain r1 s1 x where rc: "run_commit sd dops r s ps ms cp = (r1, s1, x)" by (cases "run_commit sd dops r s ps ms cp")
  show ?thesis
  proof (cases "(\<not> rn_active r \<or> hs_replaying (rn_host r)) \<or> (rn_pending r \<noteq> None \<and> interrupted r)")
    case True
    with call inv ans cur show ?thesis by (auto simp: source_commit_def split: if_splits)
  next
    case False
    note c = run_commit_cases[OF inv rc]
    show ?thesis
    proof (cases x)
      case (Inl e)
      with False call rc c ans cur show ?thesis by (auto simp: source_commit_def)
    next
      case (Inr out)
      with c have r1: "r1 = r\<lparr>rn_checkpoint := out_checkpoint out\<rparr>" "inv s1" "cursors s1 = (cursors s)(rn_cursor r := out_checkpoint out)" by auto
      have r': "s' = s1" "rn_cursor r' = rn_cursor r" "rn_checkpoint r' = out_checkpoint out"
        using False call rc Inr r1 by (auto simp: source_commit_def Let_def)
      have "answered_in_order bs r'"
      proof (cases "rn_pending r")
        case (Some b)
        with c Inr have "in_batch_range b (out_checkpoint out)" by simp
        moreover have "rn_pending r' = None" "rn_replies r' = rn_replies r @ [Inr out]"
          using False call rc Inr r1 Some by (auto simp: source_commit_def Let_def)
        ultimately show ?thesis using answered_reply[OF ans Some, of "Inr out"] by simp
      next
        case None
        with False call rc Inr r1 have "rn_pending r' = None" "rn_replies r' = rn_replies r"
          by (auto simp: source_commit_def Let_def)
        with None ans show ?thesis by (auto intro: answered_same)
      qed
      with r1 r' show ?thesis by simp
    qed
  qed
qed

lemma running_skip_answered:
  assumes inv: "inv s" and "answered_in_order bs r" and "cursors s (rn_cursor r) = rn_checkpoint r"
    and call: "running_skip dops r s n rs = (r', s', res)"
  shows "inv s' \<and> answered_in_order bs r' \<and> cursors s' (rn_cursor r') = rn_checkpoint r'"
proof -
  let ?c = "\<lparr>cursor = rn_cursor r, expected_checkpoint = rn_checkpoint r, checkpoint = Some n, mutations = [], commit_events = rs\<rparr>"
  obtain s1 x where x: "op_commit dops s ?c = (s1, x)" by fastforce
  show ?thesis
  proof (cases x)
    case (Inl e)
    with x call commit_failed[OF inv] assms(2,3) show ?thesis by (auto simp: running_skip_def)
  next
    case (Inr rc)
    then have "s' = s1" "r' = r\<lparr>rn_checkpoint := receipt_checkpoint rc\<rparr>" using x call by (auto simp: running_skip_def)
    moreover have "inv s1 \<and> cursors s1 = (cursors s)(rn_cursor r := receipt_checkpoint rc)"
      using commit_done[OF inv x[unfolded Inr]] by simp
    ultimately show ?thesis using assms(2) by (auto intro: answered_same)
  qed
qed

lemma source_run_answered:
  assumes "source_run sd bops ops dops env r s bs r' s'" and "inv s" and "cursors s (rn_cursor r) = rn_checkpoint r"
    and "rn_pending r = None" and "rn_replies r = []"
    and env: "\<And>a b. env a b \<Longrightarrow> inv a \<Longrightarrow> inv b \<and> cursors b (rn_cursor r) = cursors a (rn_cursor r)"
  shows "inv s' \<and> answered_in_order bs r' \<and> rn_cursor r' = rn_cursor r \<and> cursors s' (rn_cursor r') = rn_checkpoint r'"
  using assms
proof (induction rule: source_run.induct)
  case (src_none r s)
  then show ?case by (simp add: answered_in_order_def)
next
  case (src_commit r s bs r1 s1 ps ms cp r2 s2 res)
  have "rn_cursor r2 = rn_cursor r1"
    using src_commit(2) by (auto simp: source_commit_def run_commit_def Let_def split: if_splits sum.splits prod.splits)
  with src_commit source_commit_answered[OF _ _ _ src_commit(2)] show ?case by auto
next
  case (src_reject r s bs r1 s1 e r2 res)
  with source_reject_answered[OF _ src_reject(2)] show ?case by auto
next
  case (src_next r s bs r1 s1 now cmd r2 res)
  then have "inv s1 \<and> answered_in_order bs r1 \<and> rn_cursor r1 = rn_cursor r \<and> cursors s1 (rn_cursor r1) = rn_checkpoint r1" by blast
  with source_next_answered[OF _ src_next(2)] show ?case by auto
next
  case (src_import r s bs r1 s1 ups ws h s2)
  then have "inv s1" by blast
  from import_run_effect[OF src_import(2) this, of "\<lparr>cursor_stream = undefined, cursor_namespace = undefined\<rparr>"]
    import_run_cursors[OF src_import(2)] src_import show ?case by (auto simp: own_effect_def intro: answered_same)
next
  case (src_skip r s bs r1 s1 n rs r2 s2 res)
  have "rn_cursor r2 = rn_cursor r1"
    using src_skip(2) by (auto simp: running_skip_def Let_def split: sum.splits prod.splits)
  with src_skip running_skip_answered[OF _ _ _ src_skip(2)] show ?case by auto
next
  case (src_env r s bs r1 s1 s2)
  then show ?case by metis
qed (auto simp: cancel_def reset_cancellation_def shutdown_def intro: answered_same)

end

section \<open>The host over the SQLite store\<close>

text \<open>A host and a runner to test with.\<close>

abbreviation svc_host :: "file_store host_state" where
  "svc_host \<equiv> \<lparr>hs_delivery = \<lparr>dl_instance = ''echo-1'', dl_agent = \<lparr>pr_kind = Agent, pr_id = ''personal''\<rparr>, dl_authority = ''a'', dl_activity = ''act'',
       dl_correlation = ''cor'', dl_origin = ''o'', dl_depth = 0, dl_deadline = None\<rparr>,
     hs_model = None, hs_identity = None, hs_replaying = False, hs_registry = core_registry, hs_emits = [''observation.received''],
     hs_blobs = demo_host, hs_append_sequence = 0, hs_emit_call = True,
     hs_evidence = None, hs_phase = ''startup''\<rparr>"

abbreviation svc_instance :: "file_store instance_core" where
  "svc_instance \<equiv> \<lparr>ic_host = svc_host, ic_id = ''echo-1'', ic_cursor = \<lparr>cursor_stream = ''personal'', cursor_namespace = ''echo-1''\<rparr>,
     ic_checkpoint = 0, ic_interrupted = False, ic_started = True\<rparr>"

abbreviation json_serde :: serde where
  "json_serde \<equiv> \<lparr>from_slice = (\<lambda>b. if b = ''{}'' then Inr (JObject []) else Inl ''bad''), to_vec = (\<lambda>v. if v = JObject [] then Inr ''{}'' else Inl ''bad''),
     value_text = (\<lambda>_. []), number_text = (\<lambda>_. []), json_pointer = (\<lambda>_ _. None)\<rparr>"

lemma json_serde_reads_back: "reads_back json_serde"
  by (simp add: reads_back_def)

text \<open>A component that answers every batch with one observation.\<close>

abbreviation svc_guest :: "(file_store, store) guest_call" where
  "svc_guest \<equiv> (\<lambda>h s es. (h, s, GuestDone \<lparr>oc_events = [\<lparr>prop_event_type = ''observation.received'', prop_payload_schema = ''pluribus.observation/1'',
     prop_payload = CanonicalJson ''{}'', prop_causation_id = None, prop_idempotency_key = None\<rparr>], oc_mutations = [WitDelete ''k''],
     oc_checkpoint = map_option we_sequence (last_of es)\<rparr>))"

lemma demo_store_holds: "holds_store demo_store" "stored_log demo_store = []" "cursor_of empty_database k = 0"
proof -
  have "store_wf demo_store []" using store_wf_fresh[of "metadata demo_store"] by (simp add: fresh_store_def)
  then show "holds_store demo_store" "stored_log demo_store = []" using store_wf_holds by blast+
  show "cursor_of empty_database k = 0" by (simp add: cursor_of_def read_checkpoint_def empty_database_def parse_zero)
qed

text \<open>C28: A component is confined. Whatever it does during a delivery through its imports and with its outcome, the store
  changes only by new events that carry the host's stamp (the agent's stream, the instance as actor, the delivery's
  authority, activity and correlation) and a type it may produce, and by its own state and cursor.\<close>

theorem component_confined:
  assumes "holds_store s" and "confined sd bops (sql_event_ops en) guest"
    and "core_handle sd bops (sql_delivery_ops en) guest c s es = (c', s', r)"
  shows "holds_store s' \<and> (\<exists>new. stored_log s' = stored_log s @ new \<and> (\<forall>e \<in> set new. stamped (ic_host c) (request e))) \<and>
    (\<forall>ns. ns \<noteq> cursor_namespace (ic_cursor c) \<longrightarrow> entries_of (db s') ns = entries_of (db s) ns) \<and>
    (\<forall>k. k \<noteq> ic_cursor c \<longrightarrow> cursor_of (db s') k = cursor_of (db s) k)"
  using sqld.handle_effect[OF assms] by (simp add: sqld.own_effect_def)

lemma svc_guest_confined: "confined sd bops ops (\<lambda>h s es. (h, s, f es))"
  unfolding confined_def by (auto intro: import_run.run_none)

theorem component_confined_witness:
  "\<exists>c' s' r new. core_handle json_serde (file_ops demo_sha) (sql_delivery_ops demo_engine) svc_guest svc_instance demo_store [demo_event] = (c', s', r) \<and>
     stored_log s' = new \<and> (\<forall>e \<in> set new. actor (request e) = \<lparr>pr_kind = Component, pr_id = ''echo-1''\<rparr>)"
proof -
  obtain c' s' r where call: "core_handle json_serde (file_ops demo_sha) (sql_delivery_ops demo_engine) svc_guest svc_instance demo_store [demo_event] = (c', s', r)"
    by (cases "core_handle json_serde (file_ops demo_sha) (sql_delivery_ops demo_engine) svc_guest svc_instance demo_store [demo_event]")
  from component_confined[OF demo_store_holds(1) svc_guest_confined call] have "\<forall>e \<in> set (stored_log s'). stamped svc_host (request e)"
    by (auto simp: demo_store_holds)
  with call show ?thesis by (auto simp: stamped_def new_principal_def)
qed

text \<open>C30: A component handles only the blobs it was given. After a batch was handed to it and any use of its event and blob imports, a blob it can see was
  visible before the batch, is content it stored itself, or is named by an event of the batch as it was delivered or by an
  event that an import returned to it; and an import returns only events of the agent's stream that the component may see.
  A blob that an event it proposes names has the content of one of these, also after the host completed a model
  request.\<close>

theorem blobs_disclosed:
  assumes "reads_back sd" and "holds_store s"
    and "import_run sd bops (sql_event_ops en) (prepare_call ph (reveal_event_blobs sd h es)) s ups ws h' s'"
    and "batch = map (delivered_event sd (dl_instance (hs_delivery h))) es"
  shows "set (visible_blobs (hs_blobs h')) \<subseteq> set (visible_blobs (hs_blobs h)) \<union> set ups \<union> {b. handed sd (batch @ ws) b} \<and>
    list_all (showable sd h (stored_log s')) ws \<and>
    (proposal_request sd h' p cause key = Inr r \<longrightarrow> (\<forall>b \<in> named_blobs sd (payload r).
       \<exists>v. (v \<in> set (visible_blobs (hs_blobs h)) \<or> v \<in> set ups \<or> handed sd (batch @ ws) v) \<and> same_blob_content b v))"
proof -
  let ?h0 = "prepare_call ph (reveal_event_blobs sd h es)"
  have "hs_blobs ?h0 = hs_blobs (reveal_event_blobs sd h es)" by (simp add: prepare_call_def reset_resource_evidence_def)
  then have "set (visible_blobs (hs_blobs ?h0)) \<subseteq> set (visible_blobs (hs_blobs h)) \<union> {b. handed sd batch b}"
    using reveal_visible[of _ sd h es] assms(4) by auto
  then have seen: "set (visible_blobs (hs_blobs h')) \<subseteq> set (visible_blobs (hs_blobs h)) \<union> set ups \<union> {b. handed sd (batch @ ws) b}"
    using sqld.import_run_visible[OF assms(3,2)] by auto
  have "showable sd ?h0 (stored_log s') w \<Longrightarrow> showable sd h (stored_log s') w" for w
    using prepare_rights[of h ph sd es] by (auto simp: showable_def same_rights_def)
  then have "list_all (showable sd h (stored_log s')) ws" using sqld.import_run_shown[OF assms(3,2)] by (auto simp: list_all_iff)
  moreover have "\<exists>v. (v \<in> set (visible_blobs (hs_blobs h)) \<or> v \<in> set ups \<or> handed sd (batch @ ws) v) \<and> same_blob_content b v"
    if "proposal_request sd h' p cause key = Inr r" "b \<in> named_blobs sd (payload r)" for b
    using proposal_request_blobs[OF assms(1) that] seen by blast
  ultimately show ?thesis using seen by blast
qed

abbreviation svc_blob :: blob_ref where
  "svc_blob \<equiv> \<lparr>algorithm = ''sha256'', digest = replicate 64 (CHR ''0''), blob_size = 3, media_type = ''text/plain''\<rparr>"

abbreviation svc_blob_request :: append_request where
  "svc_blob_request \<equiv> \<lparr>stream_id = ''personal'', stream_kind = AgentStream, observed_at_ms = None, event_type = ''observation.received'',
     payload_schema = ''test/1'', payload = Blob svc_blob, actor = \<lparr>pr_kind = Component, pr_id = ''cli-1''\<rparr>, authority_id = None,
     activity_id = None, correlation_id = None, causation_id = None, deduplication_key = None\<rparr>"

lemma svc_blob_valid: "validate_blob_ref svc_blob = Inr ()"
proof -
  have "is_lower_hex (CHR ''0'')" by (simp add: is_lower_hex_def is_ascii_digit_def)
  then have "list_all is_lower_hex (replicate 64 (CHR ''0''))" by (simp add: list_all_iff)
  then show ?thesis by (simp add: validate_blob_ref_Inr sha256_algorithm_def validate_media_type_def is_ascii_def is_ascii_control_def)
qed

theorem blobs_disclosed_witness:
  "\<exists>s e h' w. append_event demo_engine demo_store svc_blob_request = (s, Inr e) \<and>
     host_get json_serde (sql_event_ops demo_engine) (prepare_call ''delivery'' (reveal_event_blobs json_serde svc_host [])) s [] = (h', Inr w) \<and>
     w = to_wit_event e \<and> (\<forall>b \<in> set (visible_blobs (hs_blobs h')). handed json_serde [w] b) \<and> showable json_serde svc_host [e] w"
proof -
  let ?h = "prepare_call ''delivery'' (reveal_event_blobs json_serde svc_host [])"
  obtain s res where call: "append_event demo_engine demo_store svc_blob_request = (s, res)" by fastforce
  define e where "e = new_event [] svc_blob_request [] 0"
  have "log_append [] svc_blob_request (peek_id demo_store) (peek_clock demo_store) = Inr ([e], e)"
    using svc_blob_valid by (simp add: e_def log_append_def validate_append_def stream_log_def peek_id_def peek_clock_def)
  then have res: "res = Inr e" and rep: "represents (db s) [e]"
    using append_event_log[OF _ call, of "[]"] by (simp_all add: represents_empty)
  have log: "stored_log s = [e]" using stored_log_represents[OF rep] .
  have holds: "holds_store s" using demo_store_holds(1) sqls.append[of demo_store demo_engine svc_blob_request s res] call by (simp add: sql_event_ops_def)
  have e: "stream_id (request e) = ''personal''" "event_id e = []" "http_request_visible json_serde e i" for i
    by (simp_all add: e_def new_event_def http_request_visible_def)
  have "dl_agent (hs_delivery ?h) = \<lparr>pr_kind = Agent, pr_id = ''personal''\<rparr>" using prepare_rights[of svc_host "''delivery''" json_serde "[]"] by (simp add: same_rights_def)
  then obtain h' where get: "host_get json_serde (sql_event_ops demo_engine) ?h s [] = (h', Inr (to_wit_event e))"
    using sqls.get[OF holds, of demo_engine "[]"] log e by (simp add: host_get_def)
  have "import_run json_serde (file_ops demo_sha) (sql_event_ops demo_engine) ?h s [] [to_wit_event e] h' s"
    using import_run.run_get[OF import_run.run_none get] by simp
  note shown = blobs_disclosed[OF json_serde_reads_back holds this refl]
  have "\<forall>b \<in> set (visible_blobs (hs_blobs h')). handed json_serde [to_wit_event e] b" "showable json_serde svc_host [e] (to_wit_event e)"
    using shown[THEN conjunct1] shown[THEN conjunct2, THEN conjunct1] log by auto
  with call res get show ?thesis by blast
qed

text \<open>C31: A page of a query is exact, whatever the filter asks for and in both orders. It holds, in the order of the query, exactly the
  answers of the store that the component may see and that are in the conversation it asks for, from the first up to the
  event whose sequence the page names as the next; a limit of zero gives an empty page. The next sequence is absent only when the store
  has no answer at all, so it is also present on a page that reached the end.\<close>

theorem query_page_exact:
  assumes "holds_store s" and "host_query sd (sql_event_ops en) h s f n = (h', Inr page)"
    and "all = query_answers en (stored_log s) (pr_id (dl_agent (hs_delivery h))) (filter_query f)"
  shows "if n = 0 then page_events page = [] \<and> next_sequence page = None
    else page_events page = map to_wit_event (filter (\<lambda>e. selects sd h f e \<and> within (filter_descending f) (next_sequence page) e) all) \<and>
      (next_sequence page = None \<longleftrightarrow> all = [])"
proof (cases "n = 0")
  case True
  with assms(2) show ?thesis by (auto simp: host_query_def split: if_splits)
next
  case False
  have rep: "represents (db s) (stored_log s)" using assms(1) by (simp add: holds_store_def holds_log_def)
  have "op_query (sql_event_ops en) s (pr_id (dl_agent (hs_delivery h))) (filter_query f) lim = Inr (take (unat lim) all)" for lim
    using query_events_answers[OF rep] assms(3) by (simp add: sql_event_ops_def)
  moreover have "sorted_wrt (<) (map (query_rank (filter_descending f)) all)"
    using answers_sorted[of "stored_log s" "filter_query f"] rep assms(3) by (simp add: represents_def)
  ultimately show ?thesis using query_pages[OF _ _ assms(2) False] False by simp
qed

abbreviation svc_filter :: event_filter where
  "svc_filter \<equiv> \<lparr>filter_after = None, filter_types = [], filter_correlation = None, filter_activity = None, filter_from_ms = None,
     filter_to_ms = None, filter_text = None, filter_before = None, filter_conversation = None, filter_descending = False\<rparr>"

theorem query_page_exact_witness:
  "\<exists>s h' page. append_event demo_engine demo_store demo_request = (s, Inr demo_event) \<and>
     host_query json_serde (sql_event_ops demo_engine) svc_host s svc_filter 10 = (h', Inr page) \<and> page_events page = [to_wit_event demo_event]"
proof -
  obtain s res where call: "append_event demo_engine demo_store demo_request = (s, res)" by fastforce
  then have res: "res = Inr demo_event" and rep: "represents (db s) [demo_event]"
    using append_event_log[OF _ call, of "[]"] by (simp_all add: represents_empty demo_append)
  have holds: "holds_store s" using demo_store_holds(1) sqls.append[of demo_store demo_engine demo_request s res] call by (simp add: sql_event_ops_def)
  have log: "stored_log s = [demo_event]" using stored_log_represents[OF rep] .
  have m: "query_answers demo_engine [demo_event] ''personal'' (filter_query svc_filter) = [demo_event]"
    by (simp add: query_answers_def stream_log_def query_matches_iff filter_query_def default_query_def text_found_def)
  have answers: "op_query (sql_event_ops demo_engine) s ''personal'' (filter_query svc_filter) 10 = Inr [demo_event]"
    using query_events_answers[OF rep] m by (simp add: sql_event_ops_def)
  obtain h' page where q: "host_query json_serde (sql_event_ops demo_engine) svc_host s svc_filter 10 = (h', Inr page)" "next_sequence page = Some 1"
    using answers by (simp add: host_query_def Let_def searching_def last_of_def max_event_page_def)
  from query_page_exact[OF holds q(1) refl] have "page_events page =
      map to_wit_event (filter (\<lambda>e. selects json_serde svc_host svc_filter e \<and> within False (next_sequence page) e) [demo_event])"
    using m log by simp
  then have "page_events page = [to_wit_event demo_event]"
    using q(2) by (simp add: within_def selects_def http_request_visible_def)
  with call res q show ?thesis by blast
qed

text \<open>C32: Each delivery to a source loop is answered once. In every run of a loop, whatever its component, the host and
  other components do, the batches handed out are answered in order and at most the last is still open; a batch
  is answered with a checkpoint only if it lies between the first and the last sequence of the batch; and the loop's checkpoint is the
  stored cursor.\<close>

theorem source_answers_once:
  assumes "source_run sd bops (sql_event_ops en) (sql_delivery_ops en) env r s bs r' s'" and "holds_store s"
    and "cursor_of (db s) (rn_cursor r) = rn_checkpoint r" and "rn_pending r = None" and "rn_replies r = []"
    and "\<And>a b. env a b \<Longrightarrow> holds_store a \<Longrightarrow> holds_store b \<and> cursor_of (db b) (rn_cursor r) = cursor_of (db a) (rn_cursor r)"
  shows "holds_store s' \<and> answered_in_order bs r' \<and> cursor_of (db s') (rn_cursor r') = rn_checkpoint r'"
  using sqld.source_run_answered[OF assms] by blast

text \<open>A batch that the component rejects.\<close>

theorem source_answers_once_witness:
  "\<exists>r1 r2 w. source_next json_serde (start_runner svc_instance) 0 (Some (DeliverBatch [demo_event])) = (r1, Inr w) \<and>
     source_reject json_serde r1 (host_error Unavailable ''later'') = (r2, Inr ()) \<and> answered_in_order [[demo_event]] r2"
proof -
  let ?r = "start_runner svc_instance"
  obtain r1 w where n: "source_next json_serde ?r 0 (Some (DeliverBatch [demo_event])) = (r1, Inr (WakeEvents w))" and p: "rn_pending r1 = Some [demo_event]"
    by (simp add: source_next_def start_runner_def interrupted_def prepare_call_def reset_resource_evidence_def Let_def)
  obtain r2 where rej: "source_reject json_serde r1 (host_error Unavailable ''later'') = (r2, Inr ())"
    using p by (simp add: source_reject_def)
  have "source_run json_serde (file_ops demo_sha) (sql_event_ops demo_engine) (sql_delivery_ops demo_engine) (\<lambda>_ _. False) ?r demo_store [[demo_event]] r2 demo_store"
    using source_run.src_reject[OF source_run.src_next[OF source_run.src_none n] rej] by simp
  from source_answers_once[OF this demo_store_holds(1)] have "answered_in_order [[demo_event]] r2"
    by (simp add: start_runner_def demo_store_holds)
  with n rej show ?thesis by blast
qed

end
