(* ===== verification/Schedules.thy ===== *)
theory Schedules
  imports Json
begin

text \<open>
  The schedules of the scheduler plugin (\<open>schedule.rs\<close>, \<open>management.rs\<close> and \<open>timers.rs\<close>): when a rule is due,
  what an occurrence emits, and the requests that create, read, change and delete schedules. Calendars and cron
  expressions are read by packages, which \<open>calendar\<close> stands for; \<open>schedule_serde\<close> stands for the code that serde
  derives. A panic, which an index assignment raises on a value that is not an object, is the result \<open>None\<close>.
\<close>

section \<open>Timing\<close>

datatype timing = At string | After i64 | Cron string string

record ('tz, 'cron) calendar =
  parse_rfc3339 :: "string \<Rightarrow> string + i64"
  tz_from_str :: "string \<Rightarrow> string + 'tz"
  cron_from_str :: "string \<Rightarrow> string + 'cron"
  millis_in_range :: "i64 \<Rightarrow> bool"
  find_next_occurrence :: "'cron \<Rightarrow> 'tz \<Rightarrow> i64 \<Rightarrow> string + i64"

definition timing_next :: "('tz, 'cron) calendar \<Rightarrow> timing \<Rightarrow> i64 \<Rightarrow> string + i64 option" where
  "timing_next cal t now = (case t of
       Cron expression timezone \<Rightarrow>
         if word_count expression \<noteq> 5 then Inl ''cron requires five fields: minute hour day month weekday''
         else rbind (tz_from_str cal timezone) (\<lambda>tz.
           rbind (cron_from_str cal expression) (\<lambda>cron.
           if \<not> millis_in_range cal now then Inl ''timestamp out of range''
           else rbind (find_next_occurrence cal cron tz now) (\<lambda>t. Inr (Some t))))
     | _ \<Rightarrow> Inr None)"

definition in_future :: "i64 \<Rightarrow> i64 \<Rightarrow> string + i64" where
  "in_future now due = (if due \<le> now then Inl ''scheduled time must be in the future'' else Inr due)"

definition timing_first :: "('tz, 'cron) calendar \<Rightarrow> timing \<Rightarrow> i64 \<Rightarrow> string + i64" where
  "timing_first cal t now = (case t of
       At at \<Rightarrow> rbind (parse_rfc3339 cal at) (in_future now)
     | After milliseconds \<Rightarrow>
         if 0 < milliseconds
         then rbind (ok_or ''delay exceeds timestamp range'' (i64_checked_add now milliseconds)) (in_future now)
         else Inl ''milliseconds must be positive''
     | Cron _ _ \<Rightarrow> rbind (timing_next cal t now) (\<lambda>n. ok_or ''cron has no next occurrence'' n))"

section \<open>Schedules\<close>

record schedule =
  sch_id :: string
  sch_revision :: u64
  sch_name :: string
  prompt :: string
  sch_timing :: timing
  next_at_ms :: "i64 option"
  last_at_ms :: "i64 option"
  paused :: bool
  sch_error :: "string option"
  origin_event_id :: string
  sch_origin :: json
  sch_cause :: string

record timer =
  timer_request :: string
  timer_owner :: string
  timer_due :: i64

text \<open>The form of a schedule that \<open>json!\<close> derives from its declaration.\<close>

definition timing_json :: "timing \<Rightarrow> json" where
  "timing_json t = (case t of
       At at \<Rightarrow> json_object [(''kind'', JString ''at''), (''at'', JString at)]
     | After n \<Rightarrow> json_object [(''kind'', JString ''after''), (''milliseconds'', json_i64 n)]
     | Cron e z \<Rightarrow> json_object [(''kind'', JString ''cron''), (''expression'', JString e), (''timezone'', JString z)])"

definition schedule_json :: "schedule \<Rightarrow> json" where
  "schedule_json s = json_object [(''id'', JString (sch_id s)), (''revision'', json_u64 (sch_revision s)), (''name'', JString (sch_name s)),
     (''prompt'', JString (prompt s)), (''timing'', timing_json (sch_timing s)), (''nextAtMs'', json_opt json_i64 (next_at_ms s)),
     (''lastAtMs'', json_opt json_i64 (last_at_ms s)), (''paused'', JBool (paused s)), (''error'', json_opt JString (sch_error s)),
     (''originEventId'', JString (origin_event_id s)), (''origin'', sch_origin s), (''cause'', JString (sch_cause s))]"

record schedule_serde =
  timing_from_value :: "json \<Rightarrow> string + timing"
  schedule_from_value :: "json \<Rightarrow> string + schedule option"
  schedule_from_slice :: "bytes \<Rightarrow> string + schedule"
  schedule_to_vec :: "schedule \<Rightarrow> string + bytes"
  timer_from_slice :: "bytes \<Rightarrow> string + timer"
  timer_to_vec :: "timer \<Rightarrow> string + bytes"
  u64_from_slice :: "bytes \<Rightarrow> string + u64"
  u64_to_vec :: "u64 \<Rightarrow> string + bytes"

text \<open>An occurrence: the key under which it is emitted, the observation, and the schedule afterwards.\<close>

definition occurrence_key :: "schedule \<Rightarrow> i64 \<Rightarrow> string" where
  "occurrence_key s d = ''schedule:'' @ sch_id s @ '':'' @ show_u64 (sch_revision s) @ '':'' @ show_i64 d"

definition occurrence_value :: "schedule \<Rightarrow> i64 \<Rightarrow> i64 \<Rightarrow> json option" where
  "occurrence_value s d now =
     Option.bind (json_assign ''originEventId'' (JString (origin_event_id s)) (sch_origin s)) (\<lambda>v.
     Option.bind (json_assign ''message'' (json_object [(''text'', JString (prompt s))]) v) (\<lambda>v.
       json_assign ''schedule'' (json_object [(''id'', JString (sch_id s)), (''name'', JString (sch_name s)),
         (''revision'', json_u64 (sch_revision s)), (''scheduledAtMs'', json_i64 d), (''emittedAtMs'', json_i64 now)]) v))"

definition advance :: "('tz, 'cron) calendar \<Rightarrow> i64 \<Rightarrow> i64 \<Rightarrow> schedule \<Rightarrow> schedule" where
  "advance cal d now s = (case timing_next cal (sch_timing s) now of
       Inr n \<Rightarrow> s\<lparr>last_at_ms := Some d, next_at_ms := n\<rparr>
     | Inl e \<Rightarrow> s\<lparr>last_at_ms := Some d, next_at_ms := None, sch_error := Some e\<rparr>)"

definition occurrence :: "('tz, 'cron) calendar \<Rightarrow> schedule \<Rightarrow> i64 \<Rightarrow> (schedule \<times> (string \<times> json) option) option" where
  "occurrence cal s now = (case next_at_ms s of
       None \<Rightarrow> Some (s, None)
     | Some d \<Rightarrow>
       if d \<le> now \<and> \<not> paused s
       then map_option (\<lambda>v. (advance cal d now s, Some (occurrence_key s d, v))) (occurrence_value s d now)
       else Some (s, None))"

definition owned_by :: "schedule \<Rightarrow> json \<Rightarrow> bool" where
  "owned_by s orig = list_all (\<lambda>field. json_index (sch_origin s) field = json_index orig field)
     [''provider'', ''externalSenderId'', ''conversationId'']"

section \<open>Management\<close>

type_synonym schedules = "(string, schedule) btree"
type_synonym change = "(string \<times> schedule option) option"

definition text_field :: "json \<Rightarrow> string \<Rightarrow> nat \<Rightarrow> string + string" where
  "text_field v field n =
     ok_or (field @ '' must contain 1..'' @ show_nat n @ '' bytes'')
       (Option.bind (as_str (json_index v field)) (\<lambda>s. if \<not> is_blank s \<and> length s \<le> n then Some s else None))"

definition schedule_key :: "string \<Rightarrow> string" where
  "schedule_key i = ''schedule:'' @ i"

definition list_schedules :: "schedules \<Rightarrow> json \<Rightarrow> json \<Rightarrow> json" where
  "list_schedules m args orig =
     (let limit = unat (min (max (case as_u64 (json_index args ''limit'') of None \<Rightarrow> 50 | Some n \<Rightarrow> n) 1) 100);
          after = (case as_str (json_index args ''after'') of None \<Rightarrow> [] | Some a \<Rightarrow> a);
          rows = filter (\<lambda>s. after < sch_id s \<and> owned_by s orig) (map snd m);
          page = take limit rows;
          cont = (if drop limit rows = [] then None else map_option sch_id (if page = [] then None else Some (last page)))
      in json_object [(''schedules'', JArray (map schedule_json page)), (''nextAfter'', json_opt JString cont)])"

definition create_schedule ::
  "schedule_serde \<Rightarrow> ('tz, 'cron) calendar \<Rightarrow> json \<Rightarrow> string \<Rightarrow> string \<Rightarrow> json \<Rightarrow> i64 \<Rightarrow> string + schedule" where
  "create_schedule sc cal args request_id origin_id orig now =
     rbind (text_field args ''name'' 200) (\<lambda>n.
     rbind (text_field args ''prompt'' 8192) (\<lambda>p.
     rbind (timing_from_value sc (json_index args ''timing'')) (\<lambda>t.
     rbind (timing_first cal t now) (\<lambda>first.
       Inr \<lparr>sch_id = request_id, sch_revision = 1, sch_name = n, prompt = p, sch_timing = t, next_at_ms = Some first, last_at_ms = None,
         paused = False, sch_error = None, origin_event_id = origin_id, sch_origin = orig, sch_cause = request_id\<rparr>))))"

definition update_field :: "json \<Rightarrow> string \<Rightarrow> (json \<Rightarrow> schedule \<Rightarrow> string + schedule) \<Rightarrow> schedule \<Rightarrow> string + schedule" where
  "update_field args field f s = (case json_get args field of None \<Rightarrow> Inr s | Some v \<Rightarrow> f v s)"

definition update_schedule ::
  "schedule_serde \<Rightarrow> ('tz, 'cron) calendar \<Rightarrow> json \<Rightarrow> i64 \<Rightarrow> schedule \<Rightarrow> string + schedule" where
  "update_schedule sc cal args now s =
     rbind (update_field args ''name'' (\<lambda>_ s. rbind (text_field args ''name'' 200) (\<lambda>n. Inr (s\<lparr>sch_name := n\<rparr>))) s) (\<lambda>s.
     rbind (update_field args ''prompt'' (\<lambda>_ s. rbind (text_field args ''prompt'' 8192) (\<lambda>p. Inr (s\<lparr>prompt := p\<rparr>))) s) (\<lambda>s.
     update_field args ''timing'' (\<lambda>v s.
       rbind (timing_from_value sc v) (\<lambda>t.
       rbind (timing_first cal t now) (\<lambda>first.
         Inr (s\<lparr>next_at_ms := Some first, sch_timing := t, sch_error := None\<rparr>)))) s))"

definition change_schedule ::
  "schedule_serde \<Rightarrow> ('tz, 'cron) calendar \<Rightarrow> string \<Rightarrow> json \<Rightarrow> i64 \<Rightarrow> schedule \<Rightarrow> string + schedule" where
  "change_schedule sc cal capability args now s =
     (if capability = ''schedule.pause'' then Inr (s\<lparr>paused := True\<rparr>)
      else if capability = ''schedule.resume'' then
        (if next_at_ms s = None then Inl ''completed or failed schedule requires a new timing rule'' else Inr (s\<lparr>paused := False\<rparr>))
      else if capability = ''schedule.update'' then update_schedule sc cal args now s
      else Inl ''unknown schedule capability'')"

definition restamp :: "string \<Rightarrow> string \<Rightarrow> json \<Rightarrow> schedule \<Rightarrow> string + schedule" where
  "restamp request_id origin_id orig s =
     rbind (ok_or ''revision exhausted'' (checked_add (sch_revision s) 1)) (\<lambda>n.
       Inr (s\<lparr>sch_revision := n, sch_cause := request_id, origin_event_id := origin_id, sch_origin := orig\<rparr>))"

definition find_owned :: "schedules \<Rightarrow> json \<Rightarrow> json \<Rightarrow> string + string \<times> schedule" where
  "find_owned m args orig =
     rbind (text_field args ''id'' 256) (\<lambda>i.
     rbind (ok_or ''schedule not found in this conversation''
       (Option.bind (btree_get m (schedule_key i)) (\<lambda>s. if owned_by s orig then Some s else None))) (\<lambda>s. Inr (i, s)))"

definition manage ::
  "schedule_serde \<Rightarrow> ('tz, 'cron) calendar \<Rightarrow> schedules \<Rightarrow> string \<Rightarrow> json \<Rightarrow> string \<Rightarrow> string \<Rightarrow> json \<Rightarrow> i64
   \<Rightarrow> schedules \<times> (string + json \<times> change)" where
  "manage sc cal m capability args request_id origin_id orig now =
     (if capability = ''schedule.list'' then (m, Inr (list_schedules m args orig, None))
      else if capability = ''schedule.create'' then
        (case create_schedule sc cal args request_id origin_id orig now of
           Inl e \<Rightarrow> (m, Inl e)
         | Inr s \<Rightarrow> (btree_insert (schedule_key (sch_id s)) s m, Inr (schedule_json s, Some (sch_id s, Some s))))
      else case find_owned m args orig of
        Inl e \<Rightarrow> (m, Inl e)
      | Inr (i, s) \<Rightarrow>
        if capability = ''schedule.get'' then (m, Inr (schedule_json s, None))
        else if capability = ''schedule.delete'' then
          (btree_remove (schedule_key i) m, Inr (json_object [(''id'', JString i), (''deleted'', JBool True)], Some (i, None)))
        else case rbind (change_schedule sc cal capability args now s) (restamp request_id origin_id orig) of
            Inl e \<Rightarrow> (m, Inl e)
          | Inr s \<Rightarrow> (btree_insert (schedule_key i) s m, Inr (schedule_json s, Some (i, Some s))))"

section \<open>Timing rules\<close>

text \<open>What the package promises of \<open>find_next_occurrence\<close> with \<open>inclusive = false\<close>.\<close>

definition strictly_later :: "('tz, 'cron) calendar \<Rightarrow> bool" where
  "strictly_later cal \<longleftrightarrow> (\<forall>c z now t. find_next_occurrence cal c z now = Inr t \<longrightarrow> now < t)"

definition is_cron :: "timing \<Rightarrow> bool" where
  "is_cron t = (case t of Cron _ _ \<Rightarrow> True | _ \<Rightarrow> False)"

definition timing_ok :: "('tz, 'cron) calendar \<Rightarrow> timing \<Rightarrow> bool" where
  "timing_ok cal t = (case t of
       At at \<Rightarrow> (\<exists>n. parse_rfc3339 cal at = Inr n)
     | After n \<Rightarrow> 0 < n
     | Cron e z \<Rightarrow> word_count e = 5 \<and> (\<exists>tz. tz_from_str cal z = Inr tz) \<and> (\<exists>c. cron_from_str cal e = Inr c))"

lemma timing_next_later: "strictly_later cal \<Longrightarrow> timing_next cal t now = Inr (Some d) \<Longrightarrow> now < d \<and> is_cron t"
  by (auto simp: timing_next_def is_cron_def strictly_later_def split: timing.splits if_splits)

lemma timing_next_none: "timing_next cal t now = Inr None \<Longrightarrow> \<not> is_cron t"
  by (auto simp: timing_next_def is_cron_def split: timing.splits if_splits)

lemma timing_next_fails: "timing_next cal t now = Inl e \<Longrightarrow> is_cron t"
  by (auto simp: timing_next_def is_cron_def split: timing.splits)

lemma in_future_Inr [simp]: "in_future now d = Inr d' \<longleftrightarrow> d' = d \<and> now < d"
  by (auto simp: in_future_def)

lemma timing_first_later: "strictly_later cal \<Longrightarrow> timing_first cal t now = Inr d \<Longrightarrow> now < d"
  by (auto simp: timing_first_def split: timing.splits if_splits dest: timing_next_later)

lemma timing_first_ok: "timing_first cal t now = Inr d \<Longrightarrow> timing_ok cal t"
  by (auto simp: timing_first_def timing_ok_def timing_next_def split: timing.splits if_splits)

section \<open>Well-formed schedules\<close>

definition origin_ok :: "json \<Rightarrow> bool" where
  "origin_ok v \<longleftrightarrow> (\<exists>m. v = JObject m \<and> btree_wf m) \<and>
     (\<forall>f \<in> {''provider'', ''externalSenderId'', ''conversationId''}. \<exists>s. text_field v f 1024 = Inr s)"

text \<open>A schedule is at rest only after it fired; it is then a rule that is over, or a cron rule whose next time could
  not be computed, and the error says so.\<close>

definition schedule_ok :: "('tz, 'cron) calendar \<Rightarrow> schedule \<Rightarrow> bool" where
  "schedule_ok cal s \<longleftrightarrow> sch_revision s \<noteq> 0 \<and> \<not> is_blank (sch_name s) \<and> length (sch_name s) \<le> 200 \<and>
     \<not> is_blank (prompt s) \<and> length (prompt s) \<le> 8192 \<and> timing_ok cal (sch_timing s) \<and> origin_ok (sch_origin s) \<and>
     (next_at_ms s = None \<longrightarrow> last_at_ms s \<noteq> None) \<and>
     (sch_error s \<noteq> None \<longleftrightarrow> next_at_ms s = None \<and> is_cron (sch_timing s))"

definition schedules_ok :: "('tz, 'cron) calendar \<Rightarrow> schedules \<Rightarrow> bool" where
  "schedules_ok cal m \<longleftrightarrow> btree_wf m \<and> (\<forall>k s. btree_get m k = Some s \<longrightarrow> k = schedule_key (sch_id s) \<and> schedule_ok cal s)"

lemma text_field_Inr [simp]:
  "text_field v f n = Inr s \<longleftrightarrow> as_str (json_index v f) = Some s \<and> \<not> is_blank s \<and> length s \<le> n"
  by (auto simp: text_field_def split: Option.bind_splits if_splits)

lemma advance_simps [simp]:
  "sch_id (advance cal d now s) = sch_id s" "sch_revision (advance cal d now s) = sch_revision s"
  "sch_name (advance cal d now s) = sch_name s" "prompt (advance cal d now s) = prompt s"
  "sch_timing (advance cal d now s) = sch_timing s" "last_at_ms (advance cal d now s) = Some d"
  "sch_origin (advance cal d now s) = sch_origin s"
  by (simp_all add: advance_def split: sum.splits)

lemma advance_later: "strictly_later cal \<Longrightarrow> next_at_ms (advance cal d now s) = Some n \<Longrightarrow> now < n"
  by (auto simp: advance_def split: sum.splits dest: timing_next_later)

lemma advance_ok:
  assumes "schedule_ok cal s" "next_at_ms s \<noteq> None"
  shows "schedule_ok cal (advance cal d now s)"
proof -
  have "sch_error (advance cal d now s) \<noteq> None \<longleftrightarrow> next_at_ms (advance cal d now s) = None \<and> is_cron (sch_timing s)"
    using assms timing_next_none[of cal "sch_timing s" now] timing_next_fails[of cal "sch_timing s" now]
    by (auto simp: advance_def schedule_ok_def split: sum.splits)
  with assms show ?thesis by (simp add: schedule_ok_def)
qed

lemma occurrence_fires:
  "occurrence cal s now = Some (s', Some (k, v)) \<longleftrightarrow>
     (\<exists>d. next_at_ms s = Some d \<and> d \<le> now \<and> \<not> paused s \<and> occurrence_value s d now = Some v \<and> k = occurrence_key s d \<and>
       s' = advance cal d now s)"
  by (auto simp: occurrence_def split: option.splits if_splits)

lemma occurrence_rests: "occurrence cal s now = Some (s', None) \<Longrightarrow> s' = s"
  by (auto simp: occurrence_def split: option.splits if_splits)

lemma occurrence_value_object: "sch_origin s = JObject m \<Longrightarrow> occurrence_value s d now \<noteq> None"
  by (simp add: occurrence_value_def json_assign_def)

lemma occurrence_defined: "schedule_ok cal s \<Longrightarrow> occurrence cal s now \<noteq> None"
  by (auto simp: occurrence_def schedule_ok_def origin_ok_def dest: occurrence_value_object split: option.splits)

lemma json_assign_Some:
  "json_assign k x v = Some v' \<Longrightarrow> (\<And>m. v = JObject m \<Longrightarrow> btree_wf m) \<Longrightarrow>
     json_get v' k = Some x \<and> (\<forall>j. j \<noteq> k \<longrightarrow> json_get v' j = json_get v j) \<and> (\<exists>m. v' = JObject m \<and> btree_wf m)"
  by (auto simp: json_assign_def json_get_def btree_wf_def[of "[_]"] split: json.splits)

text \<open>What an occurrence says of its origin is what the schedule recorded.\<close>

lemma occurrence_value_get:
  assumes "occurrence_value s d now = Some v" "origin_ok (sch_origin s)"
  shows "json_get v ''originEventId'' = Some (JString (origin_event_id s)) \<and>
    (\<forall>k. k \<notin> {''originEventId'', ''message'', ''schedule''} \<longrightarrow> json_get v k = json_get (sch_origin s) k)"
proof -
  obtain a b where a: "json_assign ''originEventId'' (JString (origin_event_id s)) (sch_origin s) = Some a"
    and b: "json_assign ''message'' (json_object [(''text'', JString (prompt s))]) a = Some b"
    and v: "json_assign ''schedule'' (json_object [(''id'', JString (sch_id s)), (''name'', JString (sch_name s)),
         (''revision'', json_u64 (sch_revision s)), (''scheduledAtMs'', json_i64 d), (''emittedAtMs'', json_i64 now)]) b = Some v"
    using assms(1) by (auto simp: occurrence_value_def bind_eq_Some_conv)
  note A = json_assign_Some[OF a]
  have wa: "\<exists>m. a = JObject m \<and> btree_wf m" and ga: "json_get a ''originEventId'' = Some (JString (origin_event_id s))"
    "\<And>j. j \<noteq> ''originEventId'' \<Longrightarrow> json_get a j = json_get (sch_origin s) j"
    using A assms(2) by (auto simp: origin_ok_def)
  have wb: "\<exists>m. b = JObject m \<and> btree_wf m" and gb: "\<And>j. j \<noteq> ''message'' \<Longrightarrow> json_get b j = json_get a j"
    using json_assign_Some[OF b] wa by auto
  have "\<And>j. j \<noteq> ''schedule'' \<Longrightarrow> json_get v j = json_get b j"
    using json_assign_Some[OF v] wb by auto
  then show ?thesis using ga gb by simp
qed

section \<open>Management keeps schedules well formed\<close>

lemma create_schedule_ok:
  "create_schedule sc cal args rid oid orig now = Inr s \<Longrightarrow> origin_ok orig \<Longrightarrow>
     schedule_ok cal s \<and> sch_id s = rid \<and> sch_origin s = orig \<and> sch_revision s = 1"
  by (auto simp: create_schedule_def schedule_ok_def timing_first_ok)

lemma update_field_Inr:
  "update_field args f g s = Inr s' \<longleftrightarrow> (json_get args f = None \<and> s' = s) \<or> (\<exists>v. json_get args f = Some v \<and> g v s = Inr s')"
  by (auto simp: update_field_def split: option.splits)

lemma update_schedule_ok:
  assumes "update_schedule sc cal args now s = Inr s'" "schedule_ok cal s"
  shows "schedule_ok cal s' \<and> sch_id s' = sch_id s \<and> sch_revision s' = sch_revision s"
proof -
  obtain a b where a: "update_field args ''name'' (\<lambda>_ s. rbind (text_field args ''name'' 200) (\<lambda>n. Inr (s\<lparr>sch_name := n\<rparr>))) s = Inr a"
    and b: "update_field args ''prompt'' (\<lambda>_ s. rbind (text_field args ''prompt'' 8192) (\<lambda>p. Inr (s\<lparr>prompt := p\<rparr>))) a = Inr b"
    and c: "update_field args ''timing'' (\<lambda>v s. rbind (timing_from_value sc v) (\<lambda>t. rbind (timing_first cal t now) (\<lambda>first.
         Inr (s\<lparr>next_at_ms := Some first, sch_timing := t, sch_error := None\<rparr>)))) b = Inr s'"
    using assms(1) by (auto simp: update_schedule_def)
  have "schedule_ok cal a \<and> sch_id a = sch_id s \<and> sch_revision a = sch_revision s"
    using a assms(2) by (auto simp: update_field_Inr schedule_ok_def)
  with b have "schedule_ok cal b \<and> sch_id b = sch_id s \<and> sch_revision b = sch_revision s"
    by (auto simp: update_field_Inr schedule_ok_def)
  with c show ?thesis by (auto simp: update_field_Inr schedule_ok_def timing_first_ok)
qed

lemma change_schedule_ok:
  "change_schedule sc cal capability args now s = Inr s' \<Longrightarrow> schedule_ok cal s \<Longrightarrow>
     schedule_ok cal s' \<and> sch_id s' = sch_id s \<and> sch_revision s' = sch_revision s"
  using update_schedule_ok[of sc cal args now s s']
  by (auto simp: change_schedule_def schedule_ok_def split: if_splits)

lemma restamp_Inr:
  "restamp rid oid orig s = Inr s' \<longleftrightarrow> unat (sch_revision s) + 1 < 2 ^ 64 \<and>
     s' = s\<lparr>sch_revision := sch_revision s + 1, sch_cause := rid, origin_event_id := oid, sch_origin := orig\<rparr>"
  by (auto simp: restamp_def checked_add_def split: if_splits)

lemma next_revision: "unat (n :: u64) + 1 < 2 ^ 64 \<Longrightarrow> n < n + 1 \<and> n + 1 \<noteq> 0"
  by (simp add: word_less_nat_alt unat_word_ariths word_unat_eq_iff)

text \<open>The four ways a request changes the schedules.\<close>

lemma find_owned_Inr: "find_owned m args orig = Inr (i, s) \<Longrightarrow> btree_get m (schedule_key i) = Some s \<and> owned_by s orig"
  by (auto simp: find_owned_def bind_eq_Some_conv split: if_splits)

lemma manage_cases:
  assumes "manage sc cal m capability args rid oid orig now = (m', res)"
  obtains (same) "m' = m"
    | (created) s where "create_schedule sc cal args rid oid orig now = Inr s" "m' = btree_insert (schedule_key (sch_id s)) s m"
    | (deleted) i s where "btree_get m (schedule_key i) = Some s" "owned_by s orig" "m' = btree_remove (schedule_key i) m"
    | (changed) i s t where "btree_get m (schedule_key i) = Some s" "owned_by s orig"
        "change_schedule sc cal capability args now s = Inr t" "unat (sch_revision t) + 1 < 2 ^ 64"
        "m' = btree_insert (schedule_key i) (t\<lparr>sch_revision := sch_revision t + 1, sch_cause := rid, origin_event_id := oid, sch_origin := orig\<rparr>) m"
proof (cases "capability = ''schedule.list'' \<or> capability = ''schedule.create''")
  case True
  with assms same created show ?thesis
    by (cases "create_schedule sc cal args rid oid orig now") (auto simp: manage_def)
next
  case False
  show ?thesis
  proof (cases "find_owned m args orig")
    case (Inl e)
    with False assms have "m' = m" by (simp add: manage_def)
    then show ?thesis by (rule same)
  next
    case (Inr p)
    obtain i s where p: "p = (i, s)" by (cases p)
    note found = find_owned_Inr[OF Inr[unfolded p]]
    consider "capability = ''schedule.get''" | "capability = ''schedule.delete''"
      | "capability \<notin> {''schedule.get'', ''schedule.delete''}" by auto
    then show ?thesis
    proof cases
      case 1
      with assms Inr p have "m' = m" by (simp add: manage_def)
      then show ?thesis by (rule same)
    next
      case 2
      with assms Inr p have "m' = btree_remove (schedule_key i) m" by (simp add: manage_def)
      with found show ?thesis using deleted[of i s] by blast
    next
      case 3
      show ?thesis
      proof (cases "rbind (change_schedule sc cal capability args now s) (restamp rid oid orig)")
        case (Inl e)
        with False 3 assms Inr p have "m' = m" by (simp add: manage_def)
        then show ?thesis by (rule same)
      next
        case (Inr s')
        with False 3 assms \<open>find_owned m args orig = Inr p\<close> p have m': "m' = btree_insert (schedule_key i) s' m"
          by (simp add: manage_def)
        from Inr obtain t where t: "change_schedule sc cal capability args now s = Inr t" "restamp rid oid orig t = Inr s'" by auto
        show ?thesis using changed found t(1) t(2)[unfolded restamp_Inr] m' by blast
      qed
    qed
  qed
qed

end
