(* ===== verification/Schedule_Facts.thy ===== *)
theory Schedule_Facts
  imports Schedules
begin

text \<open>
  What the scheduler guarantees of its schedules in every run of requests and occurrences: they stay well formed, no
  two occurrences are emitted under one key, and a request sees and changes only the schedules of its own conversation.
\<close>

inductive schedule_run ::
  "schedule_serde \<Rightarrow> ('tz, 'cron) calendar \<Rightarrow> schedules \<Rightarrow> string set \<Rightarrow> (string \<times> json) list \<Rightarrow> bool" for sc cal where
  run_empty: "schedule_run sc cal [] {} []"
| run_manage: "\<lbrakk>schedule_run sc cal m used es; rid \<notin> used; origin_ok orig;
     manage sc cal m capability args rid oid orig now = (m', res)\<rbrakk> \<Longrightarrow> schedule_run sc cal m' (insert rid used) es"
| run_fire: "\<lbrakk>schedule_run sc cal m used es; btree_get m k = Some s; occurrence cal s now = Some (s', Some kv)\<rbrakk> \<Longrightarrow>
     schedule_run sc cal (btree_insert k s' m) used (es @ [kv])"

section \<open>Well-formedness\<close>

lemma schedules_ok_insert:
  "schedules_ok cal m \<Longrightarrow> schedule_ok cal s \<Longrightarrow> k = schedule_key (sch_id s) \<Longrightarrow> schedules_ok cal (btree_insert k s m)"
  by (auto simp: schedules_ok_def)

lemma schedules_ok_remove: "schedules_ok cal m \<Longrightarrow> schedules_ok cal (btree_remove k m)"
  by (auto simp: schedules_ok_def split: if_splits)

lemma schedules_okD: "schedules_ok cal m \<Longrightarrow> btree_get m k = Some s \<Longrightarrow> k = schedule_key (sch_id s) \<and> schedule_ok cal s"
  by (simp add: schedules_ok_def)

lemma changed_ok:
  assumes "schedules_ok cal m" "btree_get m (schedule_key i) = Some s" "change_schedule sc cal capability args now s = Inr t"
    "unat (sch_revision t) + 1 < 2 ^ 64" "origin_ok orig"
  shows "schedule_ok cal (t\<lparr>sch_revision := sch_revision t + 1, sch_cause := rid, origin_event_id := oid, sch_origin := orig\<rparr>)"
    and "sch_id t = i" and "sch_revision t = sch_revision s"
proof -
  have s: "schedule_key i = schedule_key (sch_id s)" "schedule_ok cal s" using schedules_okD[OF assms(1,2)] by simp_all
  have t: "schedule_ok cal t" "sch_id t = sch_id s" "sch_revision t = sch_revision s"
    using change_schedule_ok[OF assms(3) s(2)] by simp_all
  show "schedule_ok cal (t\<lparr>sch_revision := sch_revision t + 1, sch_cause := rid, origin_event_id := oid, sch_origin := orig\<rparr>)"
    using t(1) assms(5) next_revision[OF assms(4)] by (simp add: schedule_ok_def)
  show "sch_id t = i" "sch_revision t = sch_revision s" using s(1) t by (simp_all add: schedule_key_def)
qed

lemma manage_ok:
  assumes "manage sc cal m capability args rid oid orig now = (m', res)" "schedules_ok cal m" "origin_ok orig"
  shows "schedules_ok cal m'"
  using assms(1)
proof (cases rule: manage_cases)
  case (created s)
  then show ?thesis using create_schedule_ok[OF created(1) assms(3)] assms(2) by (auto intro!: schedules_ok_insert)
next
  case (changed i s t)
  then show ?thesis using changed_ok[OF assms(2) changed(1,3,4) assms(3)] assms(2) by (auto intro!: schedules_ok_insert)
qed (use assms in \<open>auto intro!: schedules_ok_remove\<close>)

lemma fire_ok:
  assumes "schedules_ok cal m" "btree_get m k = Some s" "occurrence cal s now = Some (s', Some kv)"
  shows "schedules_ok cal (btree_insert k s' m)"
  using assms(3) schedules_okD[OF assms(1,2)] by (cases kv) (auto simp: occurrence_fires intro!: schedules_ok_insert assms(1) advance_ok)

lemma schedule_run_ok: "schedule_run sc cal m used es \<Longrightarrow> schedules_ok cal m"
proof (induction rule: schedule_run.induct)
  case run_empty
  show ?case by (simp add: schedules_ok_def)
qed (auto intro: manage_ok fire_ok)

section \<open>Keys of occurrences\<close>

lemma digit_inject: "a < 10 \<Longrightarrow> b < 10 \<Longrightarrow> digit a = digit b \<longleftrightarrow> a = b"
  by (metis add_left_cancel byte_val_digit)

lemma show_nat_last: "last (show_nat n) = digit (n mod 10)" "butlast (show_nat n) = (if n < 10 then [] else show_nat (n div 10))"
  by (subst show_nat.simps, simp)+

lemma show_nat_inject [simp]: "show_nat a = show_nat b \<longleftrightarrow> a = b"
proof (induction a arbitrary: b rule: show_nat.induct)
  case (1 a)
  show ?case
  proof
    assume eq: "show_nat a = show_nat b"
    then have m: "a mod 10 = b mod 10" using show_nat_last(1)[of a] show_nat_last(1)[of b] by (simp add: digit_inject)
    have d: "(if a < 10 then [] else show_nat (a div 10)) = (if b < 10 then [] else show_nat (b div 10))"
      using eq show_nat_last(2)[of a] show_nat_last(2)[of b] by simp
    show "a = b"
    proof (cases "a < 10")
      case True
      with d have "b < 10" by (metis show_nat_nonempty)
      with True m show ?thesis by simp
    next
      case False
      with d have "\<not> b < 10" by (metis show_nat_nonempty)
      with False d 1[of "b div 10"] have "a div 10 = b div 10" by simp
      with m show ?thesis by (metis div_mult_mod_eq)
    qed
  qed simp
qed

lemma colon_not_digit: "CHR '':'' \<notin> set (show_nat n)"
proof
  assume "CHR '':'' \<in> set (show_nat n)"
  then have "is_ascii_digit (CHR '':'')" by (rule show_nat_digits)
  then show False by (simp add: is_ascii_digit_def)
qed

lemma minus_not_digit: "show_nat n \<noteq> CHR ''-'' # s"
proof
  assume "show_nat n = CHR ''-'' # s"
  then have "is_ascii_digit (CHR ''-'')" using show_nat_digits[of "CHR ''-''" n] by simp
  then show False by (simp add: is_ascii_digit_def)
qed

lemma show_i64_inject [simp]: "show_i64 a = show_i64 b \<longleftrightarrow> a = b"
  using minus_not_digit by (auto simp: show_i64_def dest: sym)

lemma colon_not_i64: "CHR '':'' \<notin> set (show_i64 n)"
  using colon_not_digit by (auto simp: show_i64_def)

lemma split_at_last:
  "xs @ c # ys = xs' @ c # ys' \<Longrightarrow> c \<notin> set ys \<Longrightarrow> c \<notin> set ys' \<Longrightarrow> xs = xs' \<and> ys = ys'"
proof (induction xs arbitrary: xs')
  case Nil
  then show ?case by (cases xs') auto
next
  case (Cons x xs)
  then show ?case by (cases xs') auto
qed

definition occurrence_text :: "string \<Rightarrow> u64 \<Rightarrow> i64 \<Rightarrow> string" where
  "occurrence_text i r d = ''schedule:'' @ i @ '':'' @ show_u64 r @ '':'' @ show_i64 d"

lemma occurrence_key_text: "occurrence_key s d = occurrence_text (sch_id s) (sch_revision s) d"
  by (simp add: occurrence_key_def occurrence_text_def)

lemma occurrence_text_inject [simp]: "occurrence_text i r d = occurrence_text i' r' d' \<longleftrightarrow> i = i' \<and> r = r' \<and> d = d'"
proof
  assume "occurrence_text i r d = occurrence_text i' r' d'"
  then have "(i @ '':'' @ show_u64 r) @ CHR '':'' # show_i64 d = (i' @ '':'' @ show_u64 r') @ CHR '':'' # show_i64 d'"
    by (simp add: occurrence_text_def)
  from split_at_last[OF this colon_not_i64 colon_not_i64]
  have "d = d'" and "i @ CHR '':'' # show_u64 r = i' @ CHR '':'' # show_u64 r'" by simp_all
  with split_at_last[OF this(2)] show "i = i' \<and> r = r' \<and> d = d'"
    by (simp add: show_u64_def colon_not_digit word_unat_eq_iff)
qed simp

text \<open>Every key emitted so far is of an earlier revision of its schedule, or of an earlier time of its current one.\<close>

definition spent :: "schedules \<Rightarrow> string set \<Rightarrow> string \<Rightarrow> bool" where
  "spent m used key \<longleftrightarrow> (\<exists>i r d. key = occurrence_text i r d \<and> i \<in> used \<and> (\<forall>s. btree_get m (schedule_key i) = Some s \<longrightarrow>
     r < sch_revision s \<or> r = sch_revision s \<and> (\<forall>n. next_at_ms s = Some n \<longrightarrow> d < n)))"

definition ids_used :: "schedules \<Rightarrow> string set \<Rightarrow> bool" where
  "ids_used m used \<longleftrightarrow> (\<forall>k s. btree_get m k = Some s \<longrightarrow> sch_id s \<in> used)"

lemma manage_spent:
  assumes "manage sc cal m capability args rid oid orig now = (m', res)" "schedules_ok cal m" "ids_used m used"
    "rid \<notin> used" "origin_ok orig"
  shows "(spent m used key \<longrightarrow> spent m' (insert rid used) key) \<and> ids_used m' (insert rid used)"
  using assms(1)
proof (cases rule: manage_cases)
  case same
  then show ?thesis using assms(3) by (auto simp: spent_def ids_used_def)
next
  case (created s)
  have "sch_id s = rid" using create_schedule_ok[OF created(1) assms(5)] by simp
  moreover have "btree_wf m" using assms(2) by (simp add: schedules_ok_def)
  ultimately show ?thesis using assms(3,4) by (auto simp: created(2) spent_def ids_used_def schedule_key_def)
next
  case (deleted i s)
  then show ?thesis using assms(3) by (auto simp: spent_def ids_used_def split: if_splits)
next
  case (changed i s t)
  note t = changed_ok(2,3)[OF assms(2) changed(1,3,4) assms(5)]
  have wf: "btree_wf m" using assms(2) by (simp add: schedules_ok_def)
  have lt: "sch_revision s < sch_revision s + 1" using next_revision[OF changed(4)] t(2) by simp
  have "i \<in> used" using assms(3) changed(1) schedules_okD[OF assms(2) changed(1)] by (auto simp: ids_used_def schedule_key_def)
  then have "ids_used m' (insert rid used)" using assms(3) t(1) wf by (auto simp: changed(5) ids_used_def)
  moreover have "spent m' (insert rid used) key" if sp: "spent m used key"
  proof -
    obtain j r d where k: "key = occurrence_text j r d" "j \<in> used"
      and le: "\<And>s. btree_get m (schedule_key j) = Some s \<Longrightarrow> r < sch_revision s \<or> r = sch_revision s \<and> (\<forall>n. next_at_ms s = Some n \<longrightarrow> d < n)"
      using sp by (auto simp: spent_def)
    have "r < sch_revision s + 1" if "j = i"
    proof -
      have "r \<le> sch_revision s" using le[of s] changed(1) that by auto
      then show ?thesis using lt by (rule order.strict_trans1)
    qed
    then show ?thesis using k le wf t(2) by (auto simp: spent_def changed(5) schedule_key_def)
  qed
  ultimately show ?thesis by blast
qed

lemma fire_spent:
  assumes "strictly_later cal" "schedules_ok cal m" "ids_used m used" "btree_get m k = Some s"
    "occurrence cal s now = Some (s', Some (key, v))"
  shows "\<not> spent m used key \<and> spent (btree_insert k s' m) used key \<and> ids_used (btree_insert k s' m) used \<and>
    (spent m used key' \<longrightarrow> spent (btree_insert k s' m) used key')"
proof -
  obtain d where d: "next_at_ms s = Some d" "d \<le> now" "key = occurrence_key s d" "s' = advance cal d now s"
    using assms(5) by (auto simp: occurrence_fires)
  have wf: "btree_wf m" and k: "k = schedule_key (sch_id s)" using assms(2) schedules_okD[OF assms(2,4)] by (simp_all add: schedules_ok_def)
  have u: "sch_id s \<in> used" using assms(3,4) by (auto simp: ids_used_def)
  have later: "d < n" "e < d \<Longrightarrow> e < n" if "next_at_ms s' = Some n" for e n
    using advance_later[OF assms(1) that[unfolded d(4)]] d(2) by simp_all
  have "\<not> spent m used key" using assms(4) d(1) by (auto simp: spent_def d(3) occurrence_key_text k)
  moreover have "spent (btree_insert k s' m) used key" using later(1) u wf by (auto simp: spent_def d(3,4) occurrence_key_text k)
  moreover have "ids_used (btree_insert k s' m) used" using assms(3) u wf by (auto simp: ids_used_def d(4))
  moreover have "spent (btree_insert k s' m) used key'" if sp: "spent m used key'"
  proof -
    obtain j r e where e: "key' = occurrence_text j r e" "j \<in> used"
      and le: "\<And>s. btree_get m (schedule_key j) = Some s \<Longrightarrow> r < sch_revision s \<or> r = sch_revision s \<and> (\<forall>n. next_at_ms s = Some n \<longrightarrow> e < n)"
      using sp by (auto simp: spent_def)
    have "r < sch_revision s' \<or> r = sch_revision s' \<and> (\<forall>n. next_at_ms s' = Some n \<longrightarrow> e < n)" if "schedule_key j = k"
      using le[of s] assms(4) that d(1,4) later(2)[of _ e] by auto
    then show ?thesis using e le wf by (auto simp: spent_def)
  qed
  ultimately show ?thesis by blast
qed

lemma schedule_run_spent:
  assumes "schedule_run sc cal m used es" "strictly_later cal"
  shows "distinct (map fst es) \<and> (\<forall>key \<in> fst ` set es. spent m used key) \<and> ids_used m used"
  using assms(1)
proof (induction rule: schedule_run.induct)
  case run_empty
  show ?case by (simp add: ids_used_def)
next
  case (run_manage m used es rid orig capability args oid now m' res)
  note wf = schedule_run_ok[OF run_manage.hyps(1)]
  note step = manage_spent[OF run_manage.hyps(4) wf _ run_manage.hyps(2,3)]
  show ?case using run_manage.IH step by blast
next
  case (run_fire m used es k s now s' kv)
  obtain key v where kv: "kv = (key, v)" by (cases kv)
  note step = fire_spent[OF assms(2) schedule_run_ok[OF run_fire.hyps(1)] _ run_fire.hyps(2) run_fire.hyps(3)[unfolded kv]]
  have "key \<notin> fst ` set es" using run_fire.IH step by blast
  then show ?case using run_fire.IH step by (simp add: kv)
qed

section \<open>Conversations do not see each other\<close>

definition owned :: "schedules \<Rightarrow> json \<Rightarrow> schedules" where
  "owned m orig = filter (\<lambda>(_, s). owned_by s orig) m"

definition foreign :: "schedules \<Rightarrow> json \<Rightarrow> schedules" where
  "foreign m orig = filter (\<lambda>(_, s). \<not> owned_by s orig) m"

lemma btree_wf_filter [simp]: "btree_wf m \<Longrightarrow> btree_wf (filter P m)"
  by (induction m) (auto simp: btree_wf_def)

lemma btree_get_filter:
  "btree_wf m \<Longrightarrow> btree_get (filter P m) k = Option.bind (btree_get m k) (\<lambda>v. if P (k, v) then Some v else None)"
proof (induction m)
  case (Cons p m)
  have "btree_get m (fst p) = None" using btree_wf_distinct[OF Cons.prems] by (simp add: map_of_eq_None_iff)
  with Cons show ?case by (cases p) (auto simp: btree_wf_def)
qed simp

lemma owned_by_self: "sch_origin s = orig \<Longrightarrow> owned_by s orig"
  by (simp add: owned_by_def)

lemma owned_insert:
  assumes "btree_wf m" "owned_by s orig" "\<And>t. btree_get m k = Some t \<Longrightarrow> owned_by t orig"
  shows "owned (btree_insert k s m) orig = btree_insert k s (owned m orig)"
    and "foreign (btree_insert k s m) orig = foreign m orig"
  using assms by (auto intro!: btree_ext ext simp: owned_def foreign_def btree_get_filter split: Option.bind_splits)

lemma owned_remove:
  assumes "btree_wf m" "\<And>t. btree_get m k = Some t \<Longrightarrow> owned_by t orig"
  shows "owned (btree_remove k m) orig = btree_remove k (owned m orig)"
    and "foreign (btree_remove k m) orig = foreign m orig"
  using assms by (auto intro!: btree_ext ext simp: owned_def foreign_def btree_get_filter split: Option.bind_splits)

lemma list_owned: "list_schedules (owned m orig) args orig = list_schedules m args orig"
proof -
  have "filter (\<lambda>s. after < sch_id s \<and> owned_by s orig) (map snd (owned m orig)) =
    filter (\<lambda>s. after < sch_id s \<and> owned_by s orig) (map snd m)" for after
    by (induction m) (auto simp: owned_def)
  then show ?thesis by (simp add: list_schedules_def)
qed

lemma find_owned_owned: "btree_wf m \<Longrightarrow> find_owned (owned m orig) args orig = find_owned m args orig"
  by (auto simp: find_owned_def owned_def btree_get_filter intro!: arg_cong2[where f = rbind] ext split: Option.bind_splits)

lemma manage_owned:
  assumes wf: "btree_wf m" and fresh: "btree_get m (schedule_key rid) = None"
    and man: "manage sc cal m capability args rid oid orig now = (m', res)"
  shows "manage sc cal (owned m orig) capability args rid oid orig now = (owned m' orig, res) \<and> foreign m' orig = foreign m orig"
proof (cases "capability = ''schedule.list'' \<or> capability = ''schedule.create''")
  case True
  show ?thesis
  proof (cases "create_schedule sc cal args rid oid orig now")
    case (Inl e)
    with True man show ?thesis by (auto simp: manage_def list_owned)
  next
    case (Inr s)
    then have s: "sch_id s = rid" "owned_by s orig" by (auto simp: create_schedule_def intro!: owned_by_self)
    then show ?thesis using True man Inr owned_insert[OF wf s(2), of "schedule_key rid"] fresh by (auto simp: manage_def list_owned)
  qed
next
  case False
  show ?thesis
  proof (cases "find_owned m args orig")
    case (Inl e)
    with False man wf show ?thesis by (simp add: manage_def find_owned_owned)
  next
    case (Inr p)
    obtain i s where p: "p = (i, s)" by (cases p)
    have own: "owned_by t orig" if "btree_get m (schedule_key i) = Some t" for t
      using find_owned_Inr[OF Inr[unfolded p]] that by simp
    let ?new = "rbind (change_schedule sc cal capability args now s) (restamp rid oid orig)"
    show ?thesis
    proof (cases ?new)
      case (Inl e)
      with False man wf Inr p own owned_remove[OF wf own] \<open>find_owned m args orig = Inr p\<close> show ?thesis
        by (auto simp: manage_def find_owned_owned split: if_splits)
    next
      case (Inr s')
      then have "owned_by s' orig" by (auto simp: restamp_Inr intro!: owned_by_self)
      note ins = owned_insert[OF wf this own]
      show ?thesis using False man wf Inr p own owned_remove[OF wf own] ins \<open>find_owned m args orig = Inr p\<close>
        by (auto simp: manage_def find_owned_owned split: if_splits)
    qed
  qed
qed

section \<open>Properties\<close>

text \<open>A minutely schedule to test with, its conversation, and another one.\<close>

abbreviation demo_calendar :: "(unit, unit) calendar" where
  "demo_calendar \<equiv> \<lparr>parse_rfc3339 = (\<lambda>_. Inl ''no date''), tz_from_str = (\<lambda>_. Inr ()), cron_from_str = (\<lambda>_. Inr ()),
     millis_in_range = (\<lambda>_. True), find_next_occurrence = (\<lambda>_ _ n. Inr (n + 60000 - n mod 60000))\<rparr>"

abbreviation demo_serde :: schedule_serde where
  "demo_serde \<equiv> \<lparr>timing_from_value = (\<lambda>v. if v = JString ''minutely'' then Inr (Cron ''* * * * *'' ''UTC'') else Inl ''no rule''),
     schedule_from_value = (\<lambda>_. Inr None), schedule_from_slice = (\<lambda>_. Inl []), schedule_to_vec = (\<lambda>_. Inl []),
     timer_from_slice = (\<lambda>_. Inl []), timer_to_vec = (\<lambda>_. Inl []), u64_from_slice = (\<lambda>_. Inl []), u64_to_vec = (\<lambda>_. Inl [])\<rparr>"

abbreviation demo_conversation :: "string \<Rightarrow> json" where
  "demo_conversation c \<equiv> JObject [(''conversationId'', JString c), (''externalSenderId'', JString ''u''), (''provider'', JString ''cli'')]"

abbreviation demo_schedule :: "string \<Rightarrow> string \<Rightarrow> i64 \<Rightarrow> i64 option \<Rightarrow> schedule" where
  "demo_schedule i c n l \<equiv> \<lparr>sch_id = i, sch_revision = 1, sch_name = ''n'', prompt = ''p'', sch_timing = Cron ''* * * * *'' ''UTC'',
     next_at_ms = Some n, last_at_ms = l, paused = False, sch_error = None, origin_event_id = ''o'', sch_origin = demo_conversation c, sch_cause = i\<rparr>"

abbreviation demo_arguments :: json where
  "demo_arguments \<equiv> JObject [(''name'', JString ''n''), (''prompt'', JString ''p''), (''timing'', JString ''minutely'')]"

lemma demo_later: "strictly_later demo_calendar"
proof -
  have "n < n + 60000 - n mod 60000" for n :: int using pos_mod_bound[of 60000 n] by linarith
  then show ?thesis unfolding strictly_later_def by simp
qed

lemma demo_texts [simp]: "is_blank ''n'' = False" "is_blank ''p'' = False" "is_blank ''u'' = False" "is_blank ''c'' = False" "is_blank ''d'' = False"
  "is_blank ''cli'' = False" "is_blank ''r'' = False" "word_count ''* * * * *'' = 5"
  by code_simp+

lemma demo_origin: "origin_ok (demo_conversation ''c'')" "origin_ok (demo_conversation ''d'')"
  by (simp_all add: origin_ok_def btree_wf_def less_list_code json_index_def)

lemma demo_created:
  "create_schedule demo_serde demo_calendar demo_arguments i ''o'' (demo_conversation c) 0 = Inr (demo_schedule i c 60000 None)"
  by (simp add: create_schedule_def json_index_def timing_first_def timing_next_def)

lemma demo_managed:
  "manage demo_serde demo_calendar m ''schedule.create'' demo_arguments i ''o'' (demo_conversation c) 0 =
     (btree_insert (schedule_key i) (demo_schedule i c 60000 None) m, Inr (schedule_json (demo_schedule i c 60000 None),
        Some (i, Some (demo_schedule i c 60000 None))))"
  by (simp add: manage_def demo_created)

lemma demo_occurs:
  "d mod 60000 = 0 \<Longrightarrow> \<exists>v. occurrence demo_calendar (demo_schedule ''r'' ''c'' d l) d =
     Some (demo_schedule ''r'' ''c'' (d + 60000) (Some d), Some (occurrence_text ''r'' 1 d, v))"
  by (simp add: occurrence_def occurrence_value_def json_assign_def advance_def timing_next_def occurrence_key_text)

lemma demo_run:
  "\<exists>v w. schedule_run demo_serde demo_calendar [(schedule_key ''r'', demo_schedule ''r'' ''c'' 180000 (Some 120000))] {''r''}
     [(occurrence_text ''r'' 1 60000, v), (occurrence_text ''r'' 1 120000, w)]"
proof -
  let ?run = "schedule_run demo_serde demo_calendar"
  obtain v w where v: "occurrence demo_calendar (demo_schedule ''r'' ''c'' 60000 None) 60000 =
       Some (demo_schedule ''r'' ''c'' (60000 + 60000) (Some 60000), Some (occurrence_text ''r'' 1 60000, v))"
    and w: "occurrence demo_calendar (demo_schedule ''r'' ''c'' 120000 (Some 60000)) 120000 =
       Some (demo_schedule ''r'' ''c'' (120000 + 60000) (Some 120000), Some (occurrence_text ''r'' 1 120000, w))"
    using demo_occurs[of 60000 None] demo_occurs[of 120000 "Some 60000"] by auto
  have 1: "?run [(schedule_key ''r'', demo_schedule ''r'' ''c'' 60000 None)] {''r''} []"
    using run_manage[OF run_empty _ demo_origin(1) demo_managed, of "''r''"] by simp
  have 2: "?run [(schedule_key ''r'', demo_schedule ''r'' ''c'' 120000 (Some 60000))] {''r''} [(occurrence_text ''r'' 1 60000, v)]"
    using run_fire[OF 1 _ v, of "schedule_key ''r''"] by simp
  from run_fire[OF 2 _ w, of "schedule_key ''r''"] show ?thesis by auto
qed

text \<open>C37: The scheduler's data stays typed. In every run of requests and occurrences each schedule is stored under its own
  identifier, has a name and a prompt of permitted length, a valid rule, a complete origin and an error exactly when a
  cron rule came to rest, and no schedule can make the component panic when it is due.\<close>

theorem schedules_typed:
  assumes "schedule_run sc cal m used es"
  shows "schedules_ok cal m \<and> (\<forall>k s now. btree_get m k = Some s \<longrightarrow> occurrence cal s now \<noteq> None)"
  using schedule_run_ok[OF assms] schedules_okD occurrence_defined by blast

theorem schedules_typed_witness:
  "schedules_ok demo_calendar [(schedule_key ''r'', demo_schedule ''r'' ''c'' 180000 (Some 120000))] \<and>
     occurrence demo_calendar (demo_schedule ''r'' ''c'' 180000 (Some 120000)) 200000 \<noteq> None"
proof -
  obtain v w where "schedule_run demo_serde demo_calendar [(schedule_key ''r'', demo_schedule ''r'' ''c'' 180000 (Some 120000))] {''r''}
     [(occurrence_text ''r'' 1 60000, v), (occurrence_text ''r'' 1 120000, w)]" using demo_run by blast
  from schedules_typed[OF this] show ?thesis by simp
qed

text \<open>C36: An occurrence is emitted once. In every run in which request identifiers are not reused, no two observations are
  emitted under the same key, whatever the clock does and however schedules are paused, resumed, changed, deleted or fired
  late, so the deduplication of the log never swallows one occurrence for another.\<close>

theorem occurrences_distinct:
  assumes "strictly_later cal" and "schedule_run sc cal m used es"
  shows "distinct (map fst es)"
  using schedule_run_spent[OF assms(2,1)] by blast

theorem occurrences_distinct_witness:
  "\<exists>es. schedule_run demo_serde demo_calendar [(schedule_key ''r'', demo_schedule ''r'' ''c'' 180000 (Some 120000))] {''r''} es \<and>
     length es = 2 \<and> distinct (map fst es)"
proof -
  obtain v w where run: "schedule_run demo_serde demo_calendar [(schedule_key ''r'', demo_schedule ''r'' ''c'' 180000 (Some 120000))] {''r''}
     [(occurrence_text ''r'' 1 60000, v), (occurrence_text ''r'' 1 120000, w)]" using demo_run by blast
  from occurrences_distinct[OF demo_later run] run show ?thesis by (intro exI conjI) (assumption, simp_all)
qed

text \<open>C34: Conversations do not see each other's schedules. A request is answered exactly as if only the schedules of its own
  conversation existed, changes those alone, and leaves every other schedule as it is.\<close>

theorem schedule_noninterference:
  assumes "schedules_ok cal m" and "btree_get m (schedule_key rid) = None"
    and "manage sc cal m capability args rid oid orig now = (m', res)"
  shows "manage sc cal (owned m orig) capability args rid oid orig now = (owned m' orig, res) \<and> foreign m' orig = foreign m orig"
  using manage_owned[OF _ assms(2,3)] assms(1) by (simp add: schedules_ok_def)

text \<open>A request that names a schedule of another conversation.\<close>

theorem schedule_noninterference_witness:
  "manage demo_serde demo_calendar [] ''schedule.delete'' (JObject [(''id'', JString ''r'')]) ''x'' ''y'' (demo_conversation ''d'') 0 =
     ([], Inl ''schedule not found in this conversation'') \<and>
   foreign [(schedule_key ''r'', demo_schedule ''r'' ''c'' 180000 (Some 120000))] (demo_conversation ''d'') \<noteq> []"
proof -
  let ?m = "[(schedule_key ''r'', demo_schedule ''r'' ''c'' 180000 (Some 120000))]" and ?args = "JObject [(''id'', JString ''r'')]"
  obtain v w where "schedule_run demo_serde demo_calendar ?m {''r''} [(occurrence_text ''r'' 1 60000, v), (occurrence_text ''r'' 1 120000, w)]"
    using demo_run by blast
  then have ok: "schedules_ok demo_calendar ?m" by (rule schedule_run_ok)
  have own: "\<not> owned_by (demo_schedule ''r'' ''c'' 180000 (Some 120000)) (demo_conversation ''d'')" by (simp add: owned_by_def json_index_def)
  have man: "manage demo_serde demo_calendar ?m ''schedule.delete'' ?args ''x'' ''y'' (demo_conversation ''d'') 0 =
    (?m, Inl ''schedule not found in this conversation'')"
    using own by (simp add: manage_def find_owned_def json_index_def schedule_key_def text_field_def)
  have "btree_get ?m (schedule_key ''x'') = None" by (simp add: schedule_key_def)
  from schedule_noninterference[OF ok this man] own show ?thesis by (simp add: owned_def foreign_def)
qed

end
