(* ===== verification/Scheduler.thy ===== *)
theory Scheduler
  imports Schedule_Facts Runner
begin

text \<open>
  The scheduler component (\<open>component.rs\<close> of the scheduler plugin): it keeps timers and schedules in its state, brings them
  up to date from the log, fires what is due and answers management requests. The host it calls is the
  record \<open>plugin_host\<close> of its imports, so the same code runs over any host that keeps their contract; \<open>wasm_host\<close> is the
  host of \<open>Host_Services\<close> and \<open>Runner\<close>. A panic ends the component, as an error of its loop does.
\<close>

section \<open>The host a component calls\<close>

record 's plugin_host =
  ph_state_get :: "'s \<Rightarrow> string \<Rightarrow> host_error + bytes option"
  ph_scan :: "'s \<Rightarrow> string \<Rightarrow> string option \<Rightarrow> u32 \<Rightarrow> host_error + wit_state_page"
  ph_event :: "'s \<Rightarrow> string \<Rightarrow> 's \<times> (host_error + wit_event)"
  ph_query :: "'s \<Rightarrow> event_filter \<Rightarrow> u32 \<Rightarrow> 's \<times> (host_error + event_page)"
  ph_commit :: "'s \<Rightarrow> proposal list \<Rightarrow> wit_mutation list \<Rightarrow> u64 option \<Rightarrow> 's \<times> (host_error + unit)"
  ph_reject :: "'s \<Rightarrow> host_error \<Rightarrow> 's \<times> (host_error + unit)"

definition wasm_host :: "serde \<Rightarrow> 's event_ops \<Rightarrow> 's state_ops \<Rightarrow> 's delivery_ops \<Rightarrow> ('b runner \<times> 's) plugin_host" where
  "wasm_host sd ops sops dops = \<lparr>
     ph_state_get = (\<lambda>(r, s) k. host_state_get sops (rn_host r) s k),
     ph_scan = (\<lambda>(r, s) prefix after n. host_scan sops (rn_host r) s prefix after n),
     ph_event = (\<lambda>(r, s) i. let (h, x) = host_get sd ops (rn_host r) s i in ((r\<lparr>rn_host := h\<rparr>, s), x)),
     ph_query = (\<lambda>(r, s) f n. let (h, x) = host_query sd ops (rn_host r) s f n in ((r\<lparr>rn_host := h\<rparr>, s), x)),
     ph_commit = (\<lambda>(r, s) ps ms cp. let (r, s, x) = source_commit sd dops r s ps ms cp in ((r, s), x)),
     ph_reject = (\<lambda>(r, s) e. let (r, x) = source_reject sd r e in ((r, s), x))\<rparr>"

datatype guest_stop = Fails host_error | Panics

section \<open>Helpers\<close>

definition through_key :: string where
  "through_key = ''projection-through''"

definition scheduler_page :: nat where
  "scheduler_page = 64"

definition invalid :: "string \<Rightarrow> host_error" where
  "invalid m = host_error InvalidArgument m"

definition internal :: "string \<Rightarrow> host_error" where
  "internal m = host_error Internal m"

definition scheduler_now :: "i64 \<Rightarrow> u32 \<Rightarrow> i64" where
  "scheduler_now seconds nanoseconds =
     i64_saturating_add (max i64_min (min i64_max (seconds * 1000))) (int (unat (nanoseconds div 1000000)))"

definition event_value :: "serde \<Rightarrow> wit_event \<Rightarrow> host_error + json" where
  "event_value sd e = (case we_payload e of
       CanonicalJson bs \<Rightarrow> map_err invalid (from_slice sd bs)
     | Blob _ \<Rightarrow> Inl (invalid ''JSON required''))"

definition make_proposal :: "serde \<Rightarrow> string \<Rightarrow> json \<Rightarrow> string \<Rightarrow> string option \<Rightarrow> host_error + proposal" where
  "make_proposal sd kind v cause_id key =
     rbind (map_err internal (to_vec sd v)) (\<lambda>bs.
       Inr \<lparr>prop_event_type = kind, prop_payload_schema = ''pluribus.'' @ kind @ ''/1'', prop_payload = CanonicalJson bs,
         prop_causation_id = Some cause_id, prop_idempotency_key = key\<rparr>)"

definition set_entry :: "string \<Rightarrow> string + bytes \<Rightarrow> host_error + wit_mutation" where
  "set_entry k x = rbind (map_err internal x) (\<lambda>bs. Inr (WitSet \<lparr>entry_key = k, entry_value = bs\<rparr>))"

definition schedule_mutation :: "schedule_serde \<Rightarrow> string \<Rightarrow> schedule option \<Rightarrow> host_error + wit_mutation" where
  "schedule_mutation sc i s = (case s of
       None \<Rightarrow> Inr (WitDelete (schedule_key i))
     | Some s \<Rightarrow> set_entry (schedule_key i) (schedule_to_vec sc s))"

text \<open>All the entries under a prefix, page by page.\<close>

fun load_entries :: "(bytes \<Rightarrow> string + 'a) \<Rightarrow> state_entry list \<Rightarrow> (string, 'a) btree \<Rightarrow> host_error + (string, 'a) btree" where
  "load_entries dec [] m = Inr m"
| "load_entries dec (e # es) m =
     rbind (map_err internal (dec (entry_value e))) (\<lambda>x. load_entries dec es (btree_insert (entry_key e) x m))"

partial_function (option) load_loop ::
  "(string option \<Rightarrow> host_error + wit_state_page) \<Rightarrow> (bytes \<Rightarrow> string + 'a) \<Rightarrow> string option \<Rightarrow> (string, 'a) btree \<Rightarrow>
   (host_error + (string, 'a) btree) option" where
  "load_loop scan dec after m = (case scan after of
       Inl e \<Rightarrow> Some (Inl e)
     | Inr page \<Rightarrow> (case load_entries dec (wit_entries page) m of
           Inl e \<Rightarrow> Some (Inl e)
         | Inr m \<Rightarrow> (case wit_next_key page of
               Some k \<Rightarrow> load_loop scan dec (Some k) m
             | None \<Rightarrow> Some (Inr m))))"

declare load_loop.simps [code]

definition load :: "'s plugin_host \<Rightarrow> (bytes \<Rightarrow> string + 'a) \<Rightarrow> 's \<Rightarrow> string \<Rightarrow> (host_error + (string, 'a) btree) option" where
  "load ph dec s prefix = load_loop (\<lambda>after. ph_scan ph s prefix after (of_nat scheduler_page)) dec None []"

section \<open>The origin of a request\<close>

definition origin_value :: "json \<Rightarrow> json" where
  "origin_value v = json_object [(''provider'', json_index v ''provider''), (''externalSenderId'', json_index v ''externalSenderId''),
     (''conversationId'', json_index v ''conversationId''),
     (''trusted'', case json_get v ''trusted'' of None \<Rightarrow> JBool True | Some t \<Rightarrow> t)]"

primrec origin_from ::
  "serde \<Rightarrow> 's plugin_host \<Rightarrow> nat \<Rightarrow> 's \<Rightarrow> wit_event \<Rightarrow> 's \<times> (host_error + string \<times> json)" where
  "origin_from sd ph 0 s e = (s, Inl (invalid ''origin chain exceeds limit''))"
| "origin_from sd ph (Suc n) s e =
     (if we_event_type e = ''observation.received'' then
        (s, rbind (event_value sd e) (\<lambda>v.
          rbind (for_each (\<lambda>f. rbind (map_err invalid (text_field v f 1024)) (\<lambda>_. Inr ()))
            [''provider'', ''externalSenderId'', ''conversationId'']) (\<lambda>_.
          Inr (we_event_id e, origin_value v))))
      else case we_causation_id e of
        None \<Rightarrow> (s, Inl (invalid ''schedule requires an observation origin''))
      | Some i \<Rightarrow>
        let (s, x) = ph_event ph s i in
        case x of
          Inl err \<Rightarrow> (s, Inl err)
        | Inr parent \<Rightarrow>
          if we_sequence e \<le> we_sequence parent then (s, Inl (invalid ''invalid origin chain''))
          else origin_from sd ph n s parent)"

definition request_origin :: "serde \<Rightarrow> 's plugin_host \<Rightarrow> 's \<Rightarrow> wit_event \<Rightarrow> 's \<times> (host_error + string \<times> json)" where
  "request_origin sd ph s e = origin_from sd ph 4096 s e"

section \<open>Bringing the state up to date\<close>

definition refresh_filter :: "u64 \<Rightarrow> event_filter" where
  "refresh_filter through = \<lparr>filter_after = Some through,
     filter_types = [''timer.set'', ''timer.cancel'', ''timer.fired'', ''schedule.updated''], filter_correlation = None,
     filter_activity = None, filter_from_ms = None, filter_to_ms = None, filter_text = None, filter_before = None,
     filter_conversation = None, filter_descending = False\<rparr>"

type_synonym timers = "(string, timer) btree"

definition timer_key :: "string \<Rightarrow> string" where
  "timer_key i = ''timer:'' @ i"

definition replay_event ::
  "schedule_serde \<Rightarrow> serde \<Rightarrow> string \<Rightarrow> wit_event \<Rightarrow> timers \<times> wit_mutation list \<Rightarrow> host_error + timers \<times> wit_mutation list" where
  "replay_event sc sd self e = (\<lambda>(timers, ms).
     rbind (event_value sd e) (\<lambda>v.
       if we_event_type e = ''timer.set'' then
         (case as_i64 (json_index v ''dueAtMs'') of
            None \<Rightarrow> Inr (timers, ms)
          | Some d \<Rightarrow>
            let t = \<lparr>timer_request = we_event_id e, timer_owner = pr_id (we_actor e), timer_due = d\<rparr>; k = timer_key (we_event_id e) in
            rbind (set_entry k (timer_to_vec sc t)) (\<lambda>mu. Inr (btree_insert k t timers, ms @ [mu])))
       else if we_event_type e = ''timer.cancel'' \<or> we_event_type e = ''timer.fired'' then
         (case as_str (json_index v ''requestEventId'') of
            None \<Rightarrow> Inr (timers, ms)
          | Some i \<Rightarrow>
            let k = timer_key i in
            if we_event_type e = ''timer.fired'' \<or> is_some_and (\<lambda>t. timer_owner t = pr_id (we_actor e)) (btree_get timers k)
            then Inr (btree_remove k timers, ms @ [WitDelete k])
            else Inr (timers, ms))
       else if we_event_type e = ''schedule.updated'' \<and> pr_id (we_actor e) = self then
         rbind (ok_or (internal ''snapshot missing id'') (as_str (json_index v ''id''))) (\<lambda>i.
         rbind (map_err internal (schedule_from_value sc (json_index v ''schedule''))) (\<lambda>s.
         rbind (schedule_mutation sc i s) (\<lambda>mu. Inr (timers, ms @ [mu]))))
       else Inr (timers, ms)))"

fun replay_events ::
  "schedule_serde \<Rightarrow> serde \<Rightarrow> string \<Rightarrow> wit_event list \<Rightarrow> timers \<times> wit_mutation list \<Rightarrow> host_error + timers \<times> wit_mutation list" where
  "replay_events sc sd self [] a = Inr a"
| "replay_events sc sd self (e # es) a = rbind (replay_event sc sd self e a) (replay_events sc sd self es)"

definition read_through :: "schedule_serde \<Rightarrow> 's plugin_host \<Rightarrow> 's \<Rightarrow> host_error + u64" where
  "read_through sc ph s =
     rbind (ph_state_get ph s through_key) (\<lambda>x. case x of
         None \<Rightarrow> Inr 0
       | Some bs \<Rightarrow> map_err internal (u64_from_slice sc bs))"

definition refresh_schedules ::
  "schedule_serde \<Rightarrow> serde \<Rightarrow> 's plugin_host \<Rightarrow> string \<Rightarrow> 's \<Rightarrow> ('s \<times> (host_error + bool)) option" where
  "refresh_schedules sc sd ph self s = (case read_through sc ph s of
       Inl e \<Rightarrow> Some (s, Inl e)
     | Inr through \<Rightarrow>
       let (s, x) = ph_query ph s (refresh_filter through) (of_nat scheduler_page) in
       case x of
         Inl e \<Rightarrow> Some (s, Inl e)
       | Inr page \<Rightarrow>
         if page_events page = [] then Some (s, Inr False)
         else map_option (\<lambda>timers.
           case rbind timers (\<lambda>timers.
               rbind (replay_events sc sd self (page_events page) (timers, [])) (\<lambda>(_, ms).
               rbind (set_entry through_key (u64_to_vec sc (we_sequence (last (page_events page))))) (\<lambda>mu. Inr (ms @ [mu])))) of
             Inl e \<Rightarrow> (s, Inl e)
           | Inr ms \<Rightarrow> let (s, x) = ph_commit ph s [] ms None in (s, rbind x (\<lambda>_. Inr True)))
           (load ph (timer_from_slice sc) s ''timer:''))"

section \<open>Firing what is due\<close>

record firing =
  fi_output :: "proposal list"
  fi_mutations :: "wit_mutation list"
  fi_next :: i64

definition fire_timer :: "serde \<Rightarrow> i64 \<Rightarrow> string \<times> timer \<Rightarrow> firing \<Rightarrow> guest_stop + firing" where
  "fire_timer sd now kt f = (case kt of (k, t) \<Rightarrow>
     if timer_due t \<le> now \<and> length (fi_output f) < scheduler_page then
       rbind (map_err Fails (make_proposal sd ''timer.fired''
         (json_object [(''requestEventId'', JString (timer_request t)), (''dueAtMs'', json_i64 (timer_due t))])
         (timer_request t) (Some (timer_key (timer_request t))))) (\<lambda>p.
       Inr (f\<lparr>fi_output := fi_output f @ [p], fi_mutations := fi_mutations f @ [WitDelete k]\<rparr>))
     else Inr (f\<lparr>fi_next := min (fi_next f) (timer_due t)\<rparr>))"

definition schedule_snapshot :: "string \<Rightarrow> schedule option \<Rightarrow> json" where
  "schedule_snapshot i s = json_object [(''id'', JString i), (''schedule'', json_opt schedule_json s)]"

definition emit_occurrence ::
  "schedule_serde \<Rightarrow> serde \<Rightarrow> schedule \<Rightarrow> string \<Rightarrow> json \<Rightarrow> firing \<Rightarrow> host_error + firing" where
  "emit_occurrence sc sd s k v f =
     rbind (make_proposal sd ''observation.received'' v (sch_cause s) (Some k)) (\<lambda>p.
     rbind (make_proposal sd ''schedule.updated'' (schedule_snapshot (sch_id s) (Some s)) (sch_cause s) (Some (k @ '':state''))) (\<lambda>q.
     rbind (schedule_mutation sc (sch_id s) (Some s)) (\<lambda>mu.
       Inr (f\<lparr>fi_output := fi_output f @ [p, q], fi_mutations := fi_mutations f @ [mu]\<rparr>))))"

definition fire_schedule ::
  "schedule_serde \<Rightarrow> ('tz, 'cron) calendar \<Rightarrow> serde \<Rightarrow> i64 \<Rightarrow> string \<times> schedule \<Rightarrow> firing \<Rightarrow> guest_stop + firing" where
  "fire_schedule sc cal sd now ks f =
     rbind (if length (fi_output f) < scheduler_page then
         (case occurrence cal (snd ks) now of
            None \<Rightarrow> Inl Panics
          | Some (s, None) \<Rightarrow> Inr (s, f)
          | Some (s, Some (k, v)) \<Rightarrow> rbind (map_err Fails (emit_occurrence sc sd s k v f)) (\<lambda>f. Inr (s, f)))
       else Inr (snd ks, f)) (\<lambda>(s, f).
     Inr (case next_at_ms s of
         Some d \<Rightarrow> if paused s then f else f\<lparr>fi_next := min (fi_next f) d\<rparr>
       | None \<Rightarrow> f))"

fun fold_results :: "('a \<Rightarrow> 'b \<Rightarrow> 'e + 'b) \<Rightarrow> 'a list \<Rightarrow> 'b \<Rightarrow> 'e + 'b" where
  "fold_results g [] b = Inr b"
| "fold_results g (x # xs) b = rbind (g x b) (fold_results g xs)"

text \<open>The delay until the next pass, between one millisecond and one second.\<close>

definition fire_delay :: "i64 \<Rightarrow> i64 \<Rightarrow> u64" where
  "fire_delay next_at now = word_of_int (max 1 (min 1000 (max i64_min (min i64_max (next_at - now)))))"

text \<open>The loads come in the order of the source: the schedules are read after the timers fired, from the same state,
  since nothing is committed in between.\<close>

definition fire_plan ::
  "schedule_serde \<Rightarrow> ('tz, 'cron) calendar \<Rightarrow> serde \<Rightarrow> 's plugin_host \<Rightarrow> i64 \<Rightarrow> 's \<Rightarrow> (guest_stop + firing) option" where
  "fire_plan sc cal sd ph now s =
     Option.bind (load ph (timer_from_slice sc) s ''timer:'') (\<lambda>timers.
     case rbind (map_err Fails timers) (\<lambda>timers. fold_results (fire_timer sd now) timers
         \<lparr>fi_output = [], fi_mutations = [], fi_next = i64_saturating_add now 1000\<rparr>) of
       Inl e \<Rightarrow> Some (Inl e)
     | Inr f \<Rightarrow>
       map_option (\<lambda>scheds. rbind (map_err Fails scheds) (\<lambda>scheds. fold_results (fire_schedule sc cal sd now) scheds f))
         (load ph (schedule_from_slice sc) s ''schedule:''))"

definition fire ::
  "schedule_serde \<Rightarrow> ('tz, 'cron) calendar \<Rightarrow> serde \<Rightarrow> 's plugin_host \<Rightarrow> i64 \<Rightarrow> 's \<Rightarrow> ('s \<times> (guest_stop + u64)) option" where
  "fire sc cal sd ph now s =
     map_option (\<lambda>x. case x of
         Inl stop \<Rightarrow> (s, Inl stop)
       | Inr f \<Rightarrow>
         if fi_output f = [] then (s, Inr (fire_delay (fi_next f) now))
         else let (s, x) = ph_commit ph s (fi_output f) (fi_mutations f) None
              in (s, rbind (map_err Fails x) (\<lambda>_. Inr (fire_delay (fi_next f) now))))
       (fire_plan sc cal sd ph now s)"

section \<open>Management requests\<close>

definition answer_request ::
  "schedule_serde \<Rightarrow> serde \<Rightarrow> string \<Rightarrow> host_error + json \<times> change \<Rightarrow> guest_outcome \<Rightarrow> host_error + guest_outcome" where
  "answer_request sc sd request_id result out = (case result of
       Inr (v, changed) \<Rightarrow>
         rbind (case changed of
             None \<Rightarrow> Inr out
           | Some (i, s) \<Rightarrow>
             rbind (make_proposal sd ''schedule.updated'' (schedule_snapshot i s) request_id None) (\<lambda>p.
             rbind (schedule_mutation sc i s) (\<lambda>mu.
               Inr (out\<lparr>oc_events := oc_events out @ [p], oc_mutations := oc_mutations out @ [mu]\<rparr>)))) (\<lambda>out.
         rbind (make_proposal sd ''capability.completed''
             (json_object [(''requestEventId'', JString request_id), (''output'', v)]) request_id None) (\<lambda>p.
           Inr (out\<lparr>oc_events := oc_events out @ [p]\<rparr>)))
     | Inl e \<Rightarrow>
         rbind (make_proposal sd ''capability.failed''
             (json_object [(''requestEventId'', JString request_id), (''reason'', JString (message e))]) request_id None) (\<lambda>p.
           Inr (out\<lparr>oc_events := oc_events out @ [p]\<rparr>)))"

definition handle_event ::
  "schedule_serde \<Rightarrow> ('tz, 'cron) calendar \<Rightarrow> serde \<Rightarrow> 's plugin_host \<Rightarrow> (wit_event \<Rightarrow> i64) \<Rightarrow> wit_event \<Rightarrow>
   's \<times> schedules \<times> guest_outcome \<Rightarrow> 's \<times> (host_error + schedules \<times> guest_outcome)" where
  "handle_event sc cal sd ph tick e = (\<lambda>(s, m, out).
     if we_event_type e \<noteq> ''capability.requested'' then (s, Inr (m, out))
     else case event_value sd e of
       Inl err \<Rightarrow> (s, Inl err)
     | Inr v \<Rightarrow> (case as_str (json_index v ''capability'') of
         None \<Rightarrow> (s, Inr (m, out))
       | Some capability \<Rightarrow>
         if \<not> starts_with capability ''schedule.'' then (s, Inr (m, out))
         else
           let (s, x) = request_origin sd ph s e in
           case x of
             Inl err \<Rightarrow> (s, rbind (answer_request sc sd (we_event_id e) (Inl err) out) (\<lambda>out. Inr (m, out)))
           | Inr (origin_id, orig) \<Rightarrow>
             let (m, res) = manage sc cal m capability (json_index v ''arguments'') (we_event_id e) origin_id orig (tick e) in
             (s, rbind (answer_request sc sd (we_event_id e) (map_err invalid res) out) (\<lambda>out. Inr (m, out)))))"

fun handle_events ::
  "schedule_serde \<Rightarrow> ('tz, 'cron) calendar \<Rightarrow> serde \<Rightarrow> 's plugin_host \<Rightarrow> (wit_event \<Rightarrow> i64) \<Rightarrow> wit_event list \<Rightarrow>
   's \<times> schedules \<times> guest_outcome \<Rightarrow> 's \<times> (host_error + schedules \<times> guest_outcome)" where
  "handle_events sc cal sd ph tick [] (s, m, out) = (s, Inr (m, out))"
| "handle_events sc cal sd ph tick (e # es) a =
     (case handle_event sc cal sd ph tick e a of
        (s, Inl err) \<Rightarrow> (s, Inl err)
      | (s, Inr (m, out)) \<Rightarrow> handle_events sc cal sd ph tick es (s, m, out))"

definition scheduler_handle ::
  "schedule_serde \<Rightarrow> ('tz, 'cron) calendar \<Rightarrow> serde \<Rightarrow> 's plugin_host \<Rightarrow> (wit_event \<Rightarrow> i64) \<Rightarrow> 's \<Rightarrow> wit_event list \<Rightarrow>
   ('s \<times> (host_error + guest_outcome)) option" where
  "scheduler_handle sc cal sd ph tick s es =
     map_option (\<lambda>m. case m of
         Inl e \<Rightarrow> (s, Inl e)
       | Inr m \<Rightarrow>
         let (s, x) = handle_events sc cal sd ph tick es
               (s, m, \<lparr>oc_events = [], oc_mutations = [], oc_checkpoint = map_option we_sequence (last_of es)\<rparr>)
         in (s, rbind x (\<lambda>(_, out). Inr out)))
       (load ph (schedule_from_slice sc) s ''schedule:'')"

definition scheduler_stop :: guest_outcome where
  "scheduler_stop = \<lparr>oc_events = [], oc_mutations = [], oc_checkpoint = None\<rparr>"

section \<open>The loop\<close>

text \<open>A batch that was delivered is committed or rejected; an error of either ends the loop.\<close>

definition scheduler_deliver ::
  "schedule_serde \<Rightarrow> ('tz, 'cron) calendar \<Rightarrow> serde \<Rightarrow> 's plugin_host \<Rightarrow> (wit_event \<Rightarrow> i64) \<Rightarrow> 's \<Rightarrow> wit_event list \<Rightarrow>
   ('s \<times> (host_error + unit)) option" where
  "scheduler_deliver sc cal sd ph tick s es =
     map_option (\<lambda>(s, x). case x of
         Inr out \<Rightarrow> ph_commit ph s (oc_events out) (oc_mutations out) (oc_checkpoint out)
       | Inl e \<Rightarrow> ph_reject ph s e)
       (scheduler_handle sc cal sd ph tick s es)"

partial_function (option) refresh_all :: "('s \<Rightarrow> ('s \<times> (host_error + bool)) option) \<Rightarrow> 's \<Rightarrow> ('s \<times> (host_error + unit)) option" where
  "refresh_all step s = (case step s of
       None \<Rightarrow> None
     | Some (s, Inl e) \<Rightarrow> Some (s, Inl e)
     | Some (s, Inr again) \<Rightarrow> if again then refresh_all step s else Some (s, Inr ()))"

declare refresh_all.simps [code]

text \<open>One pass of the loop; \<open>nxt\<close> is the wake the host delivers, or \<open>None\<close> when the clock is first. The result says
  whether the loop goes on.\<close>

definition scheduler_pass ::
  "schedule_serde \<Rightarrow> ('tz, 'cron) calendar \<Rightarrow> serde \<Rightarrow> 's plugin_host \<Rightarrow> string \<Rightarrow> i64 \<Rightarrow> (wit_event \<Rightarrow> i64) \<Rightarrow>
   ('s \<Rightarrow> ('s \<times> (host_error + wake)) option) \<Rightarrow> 's \<Rightarrow> ('s \<times> (guest_stop + bool)) option" where
  "scheduler_pass sc cal sd ph self now tick nxt s = (case refresh_all (refresh_schedules sc sd ph self) s of
       None \<Rightarrow> None
     | Some (s, Inl e) \<Rightarrow> Some (s, Inl (Fails e))
     | Some (s, Inr _) \<Rightarrow> (case fire sc cal sd ph now s of
         None \<Rightarrow> None
       | Some (s, Inl stop) \<Rightarrow> Some (s, Inl stop)
       | Some (s, Inr _) \<Rightarrow> (case nxt s of
           None \<Rightarrow> Some (s, Inr True)
         | Some (s, Inl e) \<Rightarrow> Some (s, Inl (Fails e))
         | Some (s, Inr (WakeStop _)) \<Rightarrow> Some (s, Inr False)
         | Some (s, Inr (WakeEvents es)) \<Rightarrow>
           map_option (\<lambda>(s, x). (s, rbind (map_err Fails x) (\<lambda>_. Inr True))) (scheduler_deliver sc cal sd ph tick s es))))"

end
