(* ===== verification/Scheduler_Facts.thy ===== *)
theory Scheduler_Facts
  imports Scheduler Origin_Authority Host_Facts
begin

text \<open>
  What the scheduler component guarantees: its loads return the whole range they ask for, the events it emits carry
  everything it changes in its state, so that bringing the state up to date from the log repeats those changes,
  and what a schedule emits acts under the authority of the request that made the schedule.
\<close>

section \<open>Loading\<close>

lemma load_entries_append:
  "load_entries dec (xs @ ys) m = rbind (load_entries dec xs m) (load_entries dec ys)"
  by (induction dec xs m rule: load_entries.induct) (auto split: rbind_split)

text \<open>The contract of a paged scan and what a load over it returns.\<close>

locale state_pages =
  fixes scan :: "'s \<Rightarrow> string \<Rightarrow> string option \<Rightarrow> u32 \<Rightarrow> host_error + wit_state_page"
    and inv :: "'s \<Rightarrow> bool" and rest :: "'s \<Rightarrow> string \<Rightarrow> string option \<Rightarrow> state_entry list"
  assumes page: "\<lbrakk>inv s; plain_text prefix; length prefix \<le> 512; n \<noteq> 0; is_none_or (\<lambda>k. length k \<le> 512) after\<rbrakk> \<Longrightarrow>
    \<exists>p. scan s prefix after n = Inr p \<and> (case wit_next_key p of
        None \<Rightarrow> wit_entries p = rest s prefix after
      | Some k \<Rightarrow> wit_entries p @ rest s prefix (Some k) = rest s prefix after \<and> wit_entries p \<noteq> [] \<and> length k \<le> 512)"
begin

lemma load_loop_exact:
  assumes "inv s" "plain_text prefix" "length prefix \<le> 512" "n \<noteq> 0" "is_none_or (\<lambda>k. length k \<le> 512) after"
  shows "load_loop (\<lambda>after. scan s prefix after n) dec after m = Some (load_entries dec (rest s prefix after) m)"
  using assms(5)
proof (induction "length (rest s prefix after)" arbitrary: after m rule: less_induct)
  case less
  obtain p where p: "scan s prefix after n = Inr p" and law: "case wit_next_key p of
        None \<Rightarrow> wit_entries p = rest s prefix after
      | Some k \<Rightarrow> wit_entries p @ rest s prefix (Some k) = rest s prefix after \<and> wit_entries p \<noteq> [] \<and> length k \<le> 512"
    using page[OF assms(1-4) less.prems] by blast
  show ?case
  proof (cases "wit_next_key p")
    case None
    with p law show ?thesis by (subst load_loop.simps) (simp split: sum.splits)
  next
    case (Some k)
    with law have eq: "rest s prefix after = wit_entries p @ rest s prefix (Some k)" and "wit_entries p \<noteq> []" "length k \<le> 512"
      by simp_all
    then have IH: "load_loop (\<lambda>after. scan s prefix after n) dec (Some k) m = Some (load_entries dec (rest s prefix (Some k)) m)" for m
      by (intro less.hyps) simp_all
    show ?thesis using p Some by (subst load_loop.simps) (simp add: eq load_entries_append IH split: sum.splits rbind_split)
  qed
qed

end

definition readable :: "'b runner \<times> store \<Rightarrow> bool" where
  "readable = (\<lambda>(r, s). holds_store s \<and> int (length (component_state (db s))) < i64_max \<and>
     (\<forall>k. entries_of (db s) (dl_instance (hs_delivery (rn_host r))) k \<noteq> None \<longrightarrow> utf8_text k \<and> length k \<le> 512))"

definition own_entries :: "'b runner \<times> store \<Rightarrow> string \<Rightarrow> string option \<Rightarrow> state_entry list" where
  "own_entries = (\<lambda>(r, s). scan_entries (db s) (dl_instance (hs_delivery (rn_host r))))"

lemma scan_entry_key: "e \<in> set (scan_entries d ns prefix after) \<Longrightarrow> entries_of d ns (entry_key e) \<noteq> None"
proof -
  assume "e \<in> set (scan_entries d ns prefix after)"
  then obtain v where "((ns, entry_key e), v) \<in> set (component_state d)" by (auto simp: scan_entries_def)
  then have "(ns, entry_key e) \<in> fst ` set (component_state d)" by force
  then show ?thesis by (simp add: entries_of_def map_of_eq_None_iff)
qed

lemma host_scan_page:
  assumes inv: "readable (r, s)" and prefix: "plain_text prefix" "length prefix \<le> 512" and n: "n \<noteq> 0"
    and after: "is_none_or (\<lambda>k. length k \<le> 512) after"
  shows "\<exists>p. host_scan sql_state_ops (rn_host r) s prefix after n = Inr p \<and> (case wit_next_key p of
        None \<Rightarrow> wit_entries p = own_entries (r, s) prefix after
      | Some k \<Rightarrow> wit_entries p @ own_entries (r, s) prefix (Some k) = own_entries (r, s) prefix after \<and> wit_entries p \<noteq> [] \<and> length k \<le> 512)"
proof -
  define m :: u64 where "m = of_nat (unat (min n max_state_scan_entries))"
  let ?ns = "dl_instance (hs_delivery (rn_host r))"
  let ?all = "scan_entries (db s) ?ns prefix after"
  have st: "state_wf (db s)" and keys: "\<And>k. entries_of (db s) ?ns k \<noteq> None \<Longrightarrow> utf8_text k \<and> length k \<le> 512"
    and few: "int (length (component_state (db s))) < i64_max"
    using inv by (auto simp: readable_def holds_store_def)
  have bt: "btree_wf (component_state (db s))" using st by (simp add: state_wf_def)
  have pos: "0 < unat m"
  proof -
    let ?k = "min n max_state_scan_entries"
    have "?k \<noteq> 0" using n by (simp add: max_state_scan_entries_def min_def)
    then have "0 < unat ?k" by (simp add: unat_gt_0)
    moreover have "unat ?k < 2 ^ 32" using unsigned_less[of ?k] by simp
    then have "unat ?k < 2 ^ 64" by simp
    then have "unat m = unat ?k" by (simp add: m_def unsigned_ucast_eq take_bit_nat_eq_self)
    ultimately show ?thesis by simp
  qed
  have scan: "op_state_scan sql_state_ops s ?ns prefix after m = (let all = ?all in
    Inr \<lparr>page_entries = take (unat m) all,
      next_key = (if 0 < unat m \<and> unat m < length all then Some (entry_key (all ! (unat m - 1))) else None),
      page_revision = revision_of (db s) ?ns\<rparr>)"
    unfolding sql_state_ops_def state_ops.simps by (rule scan_refines[OF st prefix(1) _ few]) (simp add: keys)
  have valid: "validate_state_key prefix = Inr ()" "(case after of None \<Rightarrow> Inr () | Some k \<Rightarrow> validate_state_key k) = Inr ()"
    using prefix(2) after by (auto simp: validate_state_key_def max_state_key_bytes_def split: option.splits)
  show ?thesis
  proof (cases "unat m < length ?all")
    case True
    let ?k = "entry_key (?all ! (unat m - 1))"
    have "?all ! (unat m - 1) \<in> set ?all" using True by simp
    then have "length ?k \<le> 512" using keys scan_entry_key by blast
    moreover have "take (unat m) ?all @ scan_entries (db s) ?ns prefix (Some ?k) = ?all"
      using scan_entries_next[OF bt pos True] by simp
    moreover have "take (unat m) ?all \<noteq> []" using pos True by auto
    ultimately show ?thesis using True pos unfolding host_scan_def m_def[symmetric] valid rbind_simps scan by (simp add: Let_def own_entries_def)
  next
    case False
    then show ?thesis unfolding host_scan_def m_def[symmetric] valid rbind_simps scan by (simp add: Let_def own_entries_def)
  qed
qed

interpretation wasm_state: state_pages "ph_scan (wasm_host sd ops sql_state_ops dops)" readable own_entries
proof
  fix s :: "'b runner \<times> store" and prefix and after :: "string option" and n :: u32
  obtain r t where s: "s = (r, t)" by (cases s)
  assume "readable s" "plain_text prefix" "length prefix \<le> 512" "n \<noteq> 0" "is_none_or (\<lambda>k. length k \<le> 512) after"
  then show "\<exists>p. ph_scan (wasm_host sd ops sql_state_ops dops) s prefix after n = Inr p \<and> (case wit_next_key p of
        None \<Rightarrow> wit_entries p = own_entries s prefix after
      | Some k \<Rightarrow> wit_entries p @ own_entries s prefix (Some k) = own_entries s prefix after \<and> wit_entries p \<noteq> [] \<and> length k \<le> 512)"
    using host_scan_page[of r t prefix n after] unfolding s by (simp add: wasm_host_def)
qed

lemma load_exact:
  assumes "readable s" "plain_text prefix" "length prefix \<le> 512"
  shows "load (wasm_host sd ops sql_state_ops dops) dec s prefix = Some (load_entries dec (own_entries s prefix None) [])"
  using wasm_state.load_loop_exact[OF assms, of "of_nat scheduler_page" None] by (simp add: load_def scheduler_page_def)

section \<open>The events carry the state\<close>

text \<open>Both packages write what they can read: a value, and a schedule inside one.\<close>

definition snapshots_decode :: "schedule_serde \<Rightarrow> bool" where
  "snapshots_decode sc \<longleftrightarrow> (\<forall>s. schedule_from_value sc (json_opt schedule_json s) = Inr s)"

text \<open>A committed event of the component carries a proposal; a refresh reads those of its types.\<close>

definition carries :: "string \<Rightarrow> wit_event \<Rightarrow> proposal \<Rightarrow> bool" where
  "carries self e p \<longleftrightarrow> we_event_type e = prop_event_type p \<and> we_payload e = prop_payload p \<and> pr_id (we_actor e) = self"

definition receipts :: "wit_event list \<Rightarrow> wit_event list" where
  "receipts es = filter (\<lambda>e. we_event_type e \<in> set (filter_types (refresh_filter 0))) es"

lemma receipts_simps [simp]:
  "receipts [] = []"
  "receipts (e # es) = (if we_event_type e \<in> {''timer.set'', ''timer.cancel'', ''timer.fired'', ''schedule.updated''} then e # receipts es else receipts es)"
  "receipts (es @ es') = receipts es @ receipts es'"
  by (simp_all add: receipts_def refresh_filter_def)

lemma replay_events_append:
  "replay_events sc sd self (xs @ ys) a = rbind (replay_events sc sd self xs a) (replay_events sc sd self ys)"
  by (induction sc sd self xs a rule: replay_events.induct) (auto split: rbind_split)

text \<open>What a list of proposals does to the state when it is read back: the mutations, and the timers it leaves.\<close>

definition replays :: "schedule_serde \<Rightarrow> serde \<Rightarrow> string \<Rightarrow> proposal list \<Rightarrow> wit_mutation list \<Rightarrow> bool" where
  "replays sc sd self ps ms \<longleftrightarrow> (\<forall>es timers ms0. list_all2 (carries self) es ps \<longrightarrow>
     (\<exists>timers'. replay_events sc sd self (receipts es) (timers, ms0) = Inr (timers', ms0 @ ms)))"

lemma replays_Nil [simp]: "replays sc sd self [] []"
  by (auto simp: replays_def)

lemma replays_append:
  assumes "replays sc sd self ps ms" "replays sc sd self qs ns"
  shows "replays sc sd self (ps @ qs) (ms @ ns)"
  unfolding replays_def
proof (intro allI impI)
  fix es timers ms0
  assume "list_all2 (carries self) es (ps @ qs)"
  then obtain xs ys where es: "es = xs @ ys" "list_all2 (carries self) xs ps" "list_all2 (carries self) ys qs"
    by (auto simp: list_all2_append2)
  obtain t where 1: "replay_events sc sd self (receipts xs) (timers, ms0) = Inr (t, ms0 @ ms)"
    using assms(1) es(2) unfolding replays_def by blast
  obtain t' where 2: "replay_events sc sd self (receipts ys) (t, ms0 @ ms) = Inr (t', (ms0 @ ms) @ ns)"
    using assms(2) es(3) unfolding replays_def by blast
  show "\<exists>timers'. replay_events sc sd self (receipts es) (timers, ms0) = Inr (timers', ms0 @ ms @ ns)"
    using 1 2 by (auto simp: es(1) replay_events_append)
qed

lemma replays_single:
  assumes "\<And>e timers ms0. carries self e p \<Longrightarrow> we_event_type e \<in> {''timer.set'', ''timer.cancel'', ''timer.fired'', ''schedule.updated''} \<Longrightarrow>
      \<exists>timers'. replay_event sc sd self e (timers, ms0) = Inr (timers', ms0 @ ms)"
    and "prop_event_type p \<notin> {''timer.set'', ''timer.cancel'', ''timer.fired'', ''schedule.updated''} \<Longrightarrow> ms = []"
  shows "replays sc sd self [p] ms"
  unfolding replays_def
proof (intro allI impI)
  fix es timers ms0
  assume "list_all2 (carries self) es [p]"
  then obtain e where e: "es = [e]" "carries self e p" by (auto simp: list_all2_Cons2)
  show "\<exists>timers'. replay_events sc sd self (receipts es) (timers, ms0) = Inr (timers', ms0 @ ms)"
  proof (cases "we_event_type e \<in> {''timer.set'', ''timer.cancel'', ''timer.fired'', ''schedule.updated''}")
    case True
    then have "receipts es = [e]" by (simp add: e(1))
    with assms(1)[OF e(2) True] show ?thesis by auto
  next
    case False
    then have "receipts es = []" by (simp add: e(1))
    moreover have "ms = []" using assms(2) False e(2) by (simp add: carries_def)
    ultimately show ?thesis by simp
  qed
qed

lemma make_proposal_Inr:
  "make_proposal sd kind v i k = Inr p \<longleftrightarrow> (\<exists>bs. to_vec sd v = Inr bs \<and> p = \<lparr>prop_event_type = kind,
     prop_payload_schema = ''pluribus.'' @ kind @ ''/1'', prop_payload = CanonicalJson bs, prop_causation_id = Some i, prop_idempotency_key = k\<rparr>)"
  by (auto simp: make_proposal_def)

lemma carried_value:
  "reads_back sd \<Longrightarrow> make_proposal sd kind v i k = Inr p \<Longrightarrow> carries self e p \<Longrightarrow> we_event_type e = kind \<and> event_value sd e = Inr v \<and> pr_id (we_actor e) = self"
  by (auto simp: make_proposal_Inr carries_def event_value_def dest: reads_backD)

lemma replays_other:
  assumes "make_proposal sd kind v i k = Inr p" "kind \<notin> {''timer.set'', ''timer.cancel'', ''timer.fired'', ''schedule.updated''}"
  shows "replays sc sd self [p] []"
  by (rule replays_single) (use assms in \<open>auto simp: make_proposal_Inr carries_def\<close>)

lemma replays_snapshot:
  assumes "reads_back sd" "snapshots_decode sc" "make_proposal sd ''schedule.updated'' (schedule_snapshot i s) c k = Inr p"
    "schedule_mutation sc i s = Inr mu"
  shows "replays sc sd self [p] [mu]"
proof (rule replays_single)
  fix e timers ms0
  assume e: "carries self e p"
  show "\<exists>timers'. replay_event sc sd self e (timers, ms0) = Inr (timers', ms0 @ [mu])"
    using carried_value[OF assms(1,3) e] assms(2,4)
    by (simp add: replay_event_def schedule_snapshot_def json_index_def snapshots_decode_def)
qed (use assms(3) in \<open>auto simp: make_proposal_Inr\<close>)

lemma replays_fired:
  assumes "reads_back sd" "make_proposal sd ''timer.fired'' (json_object [(''requestEventId'', JString i), (''dueAtMs'', d)]) c k = Inr p"
  shows "replays sc sd self [p] [WitDelete (timer_key i)]"
proof (rule replays_single)
  fix e timers ms0
  assume e: "carries self e p"
  show "\<exists>timers'. replay_event sc sd self e (timers, ms0) = Inr (timers', ms0 @ [WitDelete (timer_key i)])"
    using carried_value[OF assms e] by (simp add: replay_event_def json_index_def Let_def)
qed (use assms(2) in \<open>auto simp: make_proposal_Inr\<close>)

lemma answer_replays:
  assumes "reads_back sd" "snapshots_decode sc" "answer_request sc sd i res out = Inr out'" "replays sc sd self (oc_events out) (oc_mutations out)"
  shows "replays sc sd self (oc_events out') (oc_mutations out')"
proof (cases res)
  case (Inl e)
  then obtain p where p: "make_proposal sd ''capability.failed'' (json_object [(''requestEventId'', JString i), (''reason'', JString (message e))]) i None = Inr p"
    "out' = out\<lparr>oc_events := oc_events out @ [p]\<rparr>" using assms(3) by (auto simp: answer_request_def)
  have "replays sc sd self [p] []" using p(1) by (rule replays_other) simp
  from replays_append[OF assms(4) this] show ?thesis by (simp add: p(2))
next
  case (Inr x)
  obtain v ch where x: "x = (v, ch)" by (cases x)
  obtain mid p where mid: "(case ch of None \<Rightarrow> Inr out | Some (i', s) \<Rightarrow>
       rbind (make_proposal sd ''schedule.updated'' (schedule_snapshot i' s) i None) (\<lambda>p. rbind (schedule_mutation sc i' s) (\<lambda>mu.
         Inr (out\<lparr>oc_events := oc_events out @ [p], oc_mutations := oc_mutations out @ [mu]\<rparr>)))) = Inr mid"
    and p: "make_proposal sd ''capability.completed'' (json_object [(''requestEventId'', JString i), (''output'', v)]) i None = Inr p"
    and out': "out' = mid\<lparr>oc_events := oc_events mid @ [p]\<rparr>"
    using assms(3) by (auto simp: answer_request_def Inr x)
  have "replays sc sd self (oc_events mid) (oc_mutations mid)"
  proof (cases ch)
    case (Some y)
    then obtain i' s q mu where q: "make_proposal sd ''schedule.updated'' (schedule_snapshot i' s) i None = Inr q"
      and mu: "schedule_mutation sc i' s = Inr mu" and m: "mid = out\<lparr>oc_events := oc_events out @ [q], oc_mutations := oc_mutations out @ [mu]\<rparr>"
      using mid by (cases y) auto
    from replays_append[OF assms(4) replays_snapshot[OF assms(1,2) q mu]] show ?thesis by (simp add: m)
  qed (use mid assms(4) in simp)
  moreover have "replays sc sd self [p] []" using p by (rule replays_other) simp
  ultimately have "replays sc sd self (oc_events mid @ [p]) (oc_mutations mid @ [])" by (rule replays_append)
  then show ?thesis by (simp add: out')
qed

lemma handle_event_replays:
  assumes "reads_back sd" "snapshots_decode sc" "handle_event sc cal sd ph tick e (s, m, out) = (s', Inr (m', out'))"
    "replays sc sd self (oc_events out) (oc_mutations out)"
  shows "replays sc sd self (oc_events out') (oc_mutations out')"
proof -
  have "out' = out \<or> (\<exists>res. answer_request sc sd (we_event_id e) res out = Inr out')"
    using assms(3) by (auto simp: handle_event_def Let_def split: if_splits sum.splits option.splits prod.splits)
  then show ?thesis using answer_replays[OF assms(1,2)] assms(4) by blast
qed

lemma handle_events_replays:
  "handle_events sc cal sd ph tick es (s, m, out) = (s', Inr (m', out')) \<Longrightarrow> reads_back sd \<Longrightarrow> snapshots_decode sc \<Longrightarrow>
     replays sc sd self (oc_events out) (oc_mutations out) \<Longrightarrow> replays sc sd self (oc_events out') (oc_mutations out')"
proof (induction es arbitrary: s m out)
  case (Cons e es)
  obtain s1 x where x: "handle_event sc cal sd ph tick e (s, m, out) = (s1, x)" by (cases "handle_event sc cal sd ph tick e (s, m, out)")
  with Cons.prems(1) obtain m1 out1 where y: "x = Inr (m1, out1)" by (cases x) auto
  show ?case
  proof (rule Cons.IH)
    show "handle_events sc cal sd ph tick es (s1, m1, out1) = (s', Inr (m', out'))" using Cons.prems(1) x y by simp
    show "replays sc sd self (oc_events out1) (oc_mutations out1)"
      using handle_event_replays[OF Cons.prems(2,3) x[unfolded y] Cons.prems(4)] .
  qed (use Cons.prems in simp_all)
qed simp

lemma handle_replays:
  assumes "reads_back sd" "snapshots_decode sc" "scheduler_handle sc cal sd ph tick s es = Some (s', Inr out)"
  shows "replays sc sd self (oc_events out) (oc_mutations out)"
proof -
  obtain m where m: "load ph (schedule_from_slice sc) s ''schedule:'' = Some (Inr m)"
    using assms(3) by (cases "load ph (schedule_from_slice sc) s ''schedule:''") (auto simp: scheduler_handle_def split: sum.splits)
  obtain s1 x where x: "handle_events sc cal sd ph tick es
      (s, m, \<lparr>oc_events = [], oc_mutations = [], oc_checkpoint = map_option we_sequence (last_of es)\<rparr>) = (s1, x)"
    by (cases "handle_events sc cal sd ph tick es (s, m, \<lparr>oc_events = [], oc_mutations = [], oc_checkpoint = map_option we_sequence (last_of es)\<rparr>)")
  then obtain m' where "x = Inr (m', out)" using assms(3) m by (auto simp: scheduler_handle_def)
  from handle_events_replays[OF x[unfolded this] assms(1,2)] show ?thesis by simp
qed

text \<open>One event of these types whose payload is a blob stops every later refresh: the page that holds it always fails, and
  nothing moves past it.\<close>

lemma replay_blob_fails:
  "e \<in> set es \<Longrightarrow> we_payload e = Blob b \<Longrightarrow> \<exists>err. replay_events sc sd self es a = Inl err"
proof (induction es arbitrary: a)
  case (Cons x es)
  show ?case
  proof (cases "replay_event sc sd self x a")
    case (Inr y)
    have "x \<noteq> e" using Inr Cons.prems(2) by (auto simp: replay_event_def event_value_def split: prod.splits)
    with Cons Inr show ?thesis by auto
  qed simp
qed simp

section \<open>Firing\<close>

definition timers_ok :: "timers \<Rightarrow> bool" where
  "timers_ok tm \<longleftrightarrow> (\<forall>(k, t) \<in> set tm. k = timer_key (timer_request t))"

lemma fold_results_inv:
  "fold_results g xs b = Inr b' \<Longrightarrow> I b \<Longrightarrow> (\<And>x b b'. x \<in> set xs \<Longrightarrow> g x b = Inr b' \<Longrightarrow> I b \<Longrightarrow> I b') \<Longrightarrow> I b'"
proof (induction xs arbitrary: b)
  case (Cons x xs)
  then obtain c where c: "g x b = Inr c" "fold_results g xs c = Inr b'" by auto
  show ?case by (rule Cons.IH[OF c(2)]) (use Cons.prems(2,3) c(1) in auto)
qed simp

lemma fire_timer_replays:
  assumes "reads_back sd" "fire_timer sd now (k, t) f = Inr f'" "k = timer_key (timer_request t)" "replays sc sd self (fi_output f) (fi_mutations f)"
  shows "replays sc sd self (fi_output f') (fi_mutations f')"
proof (cases "timer_due t \<le> now \<and> length (fi_output f) < scheduler_page")
  case True
  then obtain p where p: "make_proposal sd ''timer.fired'' (json_object [(''requestEventId'', JString (timer_request t)), (''dueAtMs'', json_i64 (timer_due t))])
       (timer_request t) (Some (timer_key (timer_request t))) = Inr p"
    and f': "f' = f\<lparr>fi_output := fi_output f @ [p], fi_mutations := fi_mutations f @ [WitDelete k]\<rparr>"
    using assms(2) by (auto simp: fire_timer_def)
  from replays_append[OF assms(4) replays_fired[OF assms(1) p]] show ?thesis by (simp add: f' assms(3))
next
  case False
  then show ?thesis using assms(2,4) by (auto simp: fire_timer_def)
qed

lemma emit_replays:
  assumes "reads_back sd" "snapshots_decode sc" "emit_occurrence sc sd s k v f = Inr f'" "replays sc sd self (fi_output f) (fi_mutations f)"
  shows "replays sc sd self (fi_output f') (fi_mutations f')"
proof -
  obtain p q mu where p: "make_proposal sd ''observation.received'' v (sch_cause s) (Some k) = Inr p"
    and q: "make_proposal sd ''schedule.updated'' (schedule_snapshot (sch_id s) (Some s)) (sch_cause s) (Some (k @ '':state'')) = Inr q"
    and mu: "schedule_mutation sc (sch_id s) (Some s) = Inr mu"
    and f': "f' = f\<lparr>fi_output := fi_output f @ [p, q], fi_mutations := fi_mutations f @ [mu]\<rparr>"
    using assms(3) by (auto simp: emit_occurrence_def)
  have "replays sc sd self [p] []" using p by (rule replays_other) simp
  from replays_append[OF assms(4) replays_append[OF this replays_snapshot[OF assms(1,2) q mu]]] show ?thesis by (simp add: f')
qed

lemma fire_schedule_replays:
  assumes "reads_back sd" "snapshots_decode sc" "fire_schedule sc cal sd now ks f = Inr f'" "replays sc sd self (fi_output f) (fi_mutations f)"
  shows "replays sc sd self (fi_output f') (fi_mutations f')"
proof -
  obtain s g where arg: "(if length (fi_output f) < scheduler_page then
         (case occurrence cal (snd ks) now of
            None \<Rightarrow> Inl Panics
          | Some (s, None) \<Rightarrow> Inr (s, f)
          | Some (s, Some (k, v)) \<Rightarrow> rbind (map_err Fails (emit_occurrence sc sd s k v f)) (\<lambda>f. Inr (s, f)))
       else Inr (snd ks, f)) = Inr (s, g)"
    and f': "f' = (case next_at_ms s of Some d \<Rightarrow> if paused s then g else g\<lparr>fi_next := min (fi_next g) d\<rparr> | None \<Rightarrow> g)"
    using assms(3) unfolding fire_schedule_def by auto
  have "g = f \<or> (\<exists>k v. emit_occurrence sc sd s k v f = Inr g)"
    using arg by (auto split: if_splits option.splits prod.splits)
  moreover have "fi_output f' = fi_output g" "fi_mutations f' = fi_mutations g" by (auto simp: f' split: option.splits)
  ultimately show ?thesis using emit_replays[OF assms(1,2)] assms(4) by metis
qed

lemma fire_replays:
  assumes "reads_back sd" "snapshots_decode sc" "load ph (timer_from_slice sc) s ''timer:'' = Some (Inr tm)" "timers_ok tm"
    "fire_plan sc cal sd ph now s = Some (Inr f)"
  shows "replays sc sd self (fi_output f) (fi_mutations f)"
proof -
  let ?I = "\<lambda>f. replays sc sd self (fi_output f) (fi_mutations f)"
  obtain g m where g: "fold_results (fire_timer sd now) tm \<lparr>fi_output = [], fi_mutations = [], fi_next = i64_saturating_add now 1000\<rparr> = Inr g"
    and f: "fold_results (fire_schedule sc cal sd now) m g = Inr f"
    using assms(5) by (auto simp: fire_plan_def assms(3) split: sum.splits)
  have "?I g"
    by (rule fold_results_inv[where I = ?I, OF g]) (use fire_timer_replays[OF assms(1)] assms(4) in \<open>auto simp: timers_ok_def\<close>)
  then show ?thesis
    by (rule fold_results_inv[where I = ?I, OF f]) (use fire_schedule_replays[OF assms(1,2)] in blast)
qed

section \<open>The authority of an occurrence\<close>

lemma origin_value_index:
  "json_get (origin_value v) ''provider'' = Some (json_index v ''provider'')"
  "json_get (origin_value v) ''externalSenderId'' = Some (json_index v ''externalSenderId'')"
  "json_get (origin_value v) ''conversationId'' = Some (json_index v ''conversationId'')"
  "json_get (origin_value v) ''trusted'' = Some (case json_get v ''trusted'' of None \<Rightarrow> JBool True | Some t \<Rightarrow> t)"
  by (simp_all add: origin_value_def)

lemma origin_value_ok:
  assumes "for_each (\<lambda>f. rbind (map_err invalid (text_field v f 1024)) (\<lambda>_. Inr ())) [''provider'', ''externalSenderId'', ''conversationId''] = Inr u"
  shows "origin_ok (origin_value v)"
proof -
  have "\<exists>m. origin_value v = JObject m \<and> btree_wf m" by (simp add: origin_value_def json_object_def)
  moreover have "\<forall>f \<in> {''provider'', ''externalSenderId'', ''conversationId''}. \<exists>s. text_field (origin_value v) f 1024 = Inr s"
    using assms by (simp add: json_index_def[of "origin_value v"] origin_value_index)
  ultimately show ?thesis by (simp add: origin_ok_def)
qed

text \<open>What a request's origin is, whichever host it is read through.\<close>

lemma origin_from_ok: "origin_from sd ph n s e = (s', Inr (oid, orig)) \<Longrightarrow> origin_ok orig"
proof (induction n arbitrary: s e)
  case (Suc n)
  show ?case
  proof (cases "we_event_type e = ''observation.received''")
    case True
    with Suc.prems origin_value_ok show ?thesis by (auto simp del: for_each.simps for_each_Inr)
  next
    case False
    with Suc show ?thesis by (auto simp: Let_def split: option.splits prod.splits sum.splits if_splits)
  qed
qed simp

lemma copied_same_origin:
  assumes "\<And>f. f \<in> {''provider'', ''externalSenderId'', ''conversationId'', ''trusted''} \<Longrightarrow> json_get w f = json_get (origin_value v) f"
  shows "same_origin v w"
  using assms by (auto simp: same_origin_def json_index_def[of w] origin_value_index trusts_def split: option.splits)

lemma wasm_event:
  "ph_event (wasm_host sd ops sops dops) (r, s) i = (t, Inr p) \<Longrightarrow> \<exists>r' e. t = (r', s) \<and> p = to_wit_event e \<and> op_get ops s i = Inr (Some e)"
  by (auto simp: wasm_host_def host_get_def Let_def split: sum.splits option.splits Option.bind_splits prod.splits if_splits)

lemma walk_inherits:
  assumes later: "\<And>i e. op_get ops s0 i = Inr (Some e) \<Longrightarrow> op_get ops s1 i = Inr (Some e)"
    and same: "\<And>f. f \<in> {''provider'', ''externalSenderId'', ''conversationId'', ''trusted''} \<Longrightarrow> json_get w f = json_get orig f"
  shows "origin_from sd (wasm_host sd ops sops dops) n (r, s0) (to_wit_event e) = (t, Inr (oid, orig)) \<Longrightarrow>
    resolve_from sd ops oa s1 m e None = Inr a \<Longrightarrow> resolve_from sd ops oa s1 m e (Some (oid, w)) = Inr a"
proof (induction n arbitrary: r e m)
  case (Suc n)
  obtain k where m: "m = Suc k" using Suc.prems(2) by (cases m) auto
  have stream: "stream_id (request e) = pr_id (oa_agent oa)" using Suc.prems(2) by (auto simp: m split: if_splits)
  show ?case
  proof (cases "event_type (request e) = ''observation.received''")
    case True
    then obtain v where v: "event_value sd (to_wit_event e) = Inr v" and oid: "oid = event_id e" "orig = origin_value v"
      using Suc.prems(1) by (auto simp: to_wit_event_def simp del: for_each.simps)
    have ov: "observation_value sd e = Inr v"
      using v by (auto simp: event_value_def observation_value_def to_wit_event_def split: event_payload.splits)
    have "same_origin v w" by (rule copied_same_origin) (use same oid(2) in simp)
    then have "observe_origin sd oa e (Some (oid, w)) = observe_origin sd oa e None"
      by (simp add: observe_origin_def ov oid(1) rbind_def split: sum.splits)
    then show ?thesis using Suc.prems(2) True stream by (simp add: m)
  next
    case False
    have ne: "we_event_type (to_wit_event e) \<noteq> ''observation.received''" using False by (simp add: to_wit_event_def)
    obtain i where i: "causation_id (request e) = Some i"
      using Suc.prems(1) ne by (auto simp: to_wit_event_def split: option.splits)
    obtain t' x where x: "ph_event (wasm_host sd ops sops dops) (r, s0) i = (t', x)" by fastforce
    obtain p where p: "x = Inr p" "we_sequence p < sequence e" "origin_from sd (wasm_host sd ops sops dops) n t' p = (t, Inr (oid, orig))"
      using Suc.prems(1) ne i x by (auto simp: to_wit_event_def split: sum.splits if_splits)
    obtain r' q where q: "t' = (r', s0)" "p = to_wit_event q" "op_get ops s0 i = Inr (Some q)" using wasm_event[OF x[unfolded p(1)]] by blast
    have "cause_of ops s1 e = Inr q" using i later[OF q(3)] p(2) by (simp add: cause_of_def q(2) to_wit_event_def not_le)
    then show ?thesis using Suc.prems(2) False Suc.IH[OF p(3)[unfolded q(1,2)]] stream by (simp add: m)
  qed
qed simp

lemma log_wf_find: "log_wf es \<Longrightarrow> e \<in> set es \<Longrightarrow> find (\<lambda>x. event_id x = event_id e) es = Some e"
  using log_wf_id_unique[of es _ e] by (cases "find (\<lambda>x. event_id x = event_id e) es") (auto simp: find_None_iff dest!: find_SomeD)

lemma advance_stamp [simp]:
  "sch_cause (advance cal d now s) = sch_cause s" "origin_event_id (advance cal d now s) = origin_event_id s" "sch_origin (advance cal d now s) = sch_origin s"
  by (simp_all add: advance_def split: sum.splits)

lemma occurrence_resolves:
  assumes store: "holds_log s0" "holds_log s1" "stored_log s1 = stored_log s0 @ new"
    and origin: "request_origin sd (wasm_host sd (sql_event_ops en) sops dops) (r, s0) (to_wit_event req) = (t, Inr (oid, orig))"
    and sch: "origin_event_id sch = oid" "sch_origin sch = orig" "sch_cause sch = event_id req"
    and fires: "occurrence cal sch now = Some (sch', Some (key, w))"
    and emits: "reads_back sd" "make_proposal sd ''observation.received'' w (sch_cause sch') (Some key) = Inr p"
    and ob: "event_type (request ob) = prop_event_type p" "payload (request ob) = prop_payload p" "causation_id (request ob) = prop_causation_id p"
      "stream_id (request ob) = pr_id (oa_agent oa)" "observing_connector oa ob = Inr c" "inherits_origin c"
    and req: "req \<in> set (stored_log s1)" "sequence req < sequence ob"
    and auth: "resolve_from sd (sql_event_ops en) oa s1 n req None = Inr a"
  shows "resolve_from sd (sql_event_ops en) oa s1 (Suc n) ob None = Inr a"
proof -
  let ?ops = "sql_event_ops en"
  obtain d where d: "occurrence_value sch d now = Some w" "sch' = advance cal d now sch" using fires by (auto simp: occurrence_fires)
  have ok: "origin_ok (sch_origin sch)" using origin_from_ok origin sch(2) by (metis request_origin_def)
  note w = occurrence_value_get[OF d(1) ok]
  have later: "op_get ?ops s1 i = Inr (Some e)" if "op_get ?ops s0 i = Inr (Some e)" for i e
    using that by (auto simp: sql.get[OF store(1)] sql.get[OF store(2)] store(3) find_append split: option.splits)
  have found: "op_get ?ops s1 (event_id req) = Inr (Some req)"
    using req(1) sql.wf[OF store(2)] by (simp add: sql.get[OF store(2)] log_wf_find)
  have v: "observation_value sd ob = Inr w" and cause: "causation_id (request ob) = Some (event_id req)"
    using emits ob(2,3) d(2) sch(3) by (auto simp: make_proposal_Inr observation_value_def dest: reads_backD)
  have c: "cause_of ?ops s1 ob = Inr req" using found req(2) by (simp add: cause_of_def cause)
  have o: "observe_origin sd oa ob None = Inr (Inr (oid, w))"
    using w by (simp add: observe_origin_def ob(5,6) v json_index_def sch(1))
  have fields: "json_get w f = json_get orig f" if "f \<in> {''provider'', ''externalSenderId'', ''conversationId'', ''trusted''}" for f
  proof -
    have "f \<notin> {''originEventId'', ''message'', ''schedule''}" using that by (elim insertE) simp_all
    then show ?thesis using w sch(2) by blast
  qed
  have "resolve_from sd ?ops oa s1 n req (Some (oid, w)) = Inr a"
    by (rule walk_inherits[OF later fields origin[unfolded request_origin_def] auth])
  moreover have "event_type (request ob) = ''observation.received''" using ob(1) emits(2) by (auto simp: make_proposal_Inr)
  ultimately show ?thesis using ob(4) by (simp add: o c)
qed

lemma manage_stamps:
  assumes "btree_wf m" "manage sc cal m verb args rid oid orig now = (m', res)" "btree_get m' k = Some sch" "btree_get m k \<noteq> Some sch"
  shows "origin_event_id sch = oid \<and> sch_origin sch = orig \<and> sch_cause sch = rid"
  using assms(2)
proof (cases rule: manage_cases)
  case same
  then show ?thesis using assms by simp
next
  case (created s)
  then show ?thesis using assms(1,3,4) by (auto simp: create_schedule_def split: if_splits)
next
  case (deleted i s)
  then show ?thesis using assms(1,3,4) by (auto split: if_splits)
next
  case (changed i s t)
  then show ?thesis using assms(1,3,4) by (auto split: if_splits)
qed

lemma handle_event_stamps:
  assumes "btree_wf m" "handle_event sc cal sd ph tick e (s, m, out) = (s', Inr (m', out'))" "btree_get m' k = Some sch" "btree_get m k \<noteq> Some sch"
  shows "\<exists>t oid orig. request_origin sd ph s e = (t, Inr (oid, orig)) \<and>
    origin_event_id sch = oid \<and> sch_origin sch = orig \<and> sch_cause sch = we_event_id e"
proof -
  have "m' \<noteq> m" using assms(3,4) by auto
  then obtain t oid orig verb args res where o: "request_origin sd ph s e = (t, Inr (oid, orig))"
    and m: "manage sc cal m verb args (we_event_id e) oid orig (tick e) = (m', res)"
    using assms(2) by (auto simp: handle_event_def Let_def split: if_splits sum.splits option.splits prod.splits)
  from manage_stamps[OF assms(1) m assms(3,4)] o show ?thesis by blast
qed

text \<open>A schedule and what its firings make of it.\<close>

definition fires_to :: "('tz, 'cron) calendar \<Rightarrow> schedule \<Rightarrow> schedule \<Rightarrow> bool" where
  "fires_to cal s s' \<longleftrightarrow> (\<exists>now k v. occurrence cal s now = Some (s', Some (k, v)))"

lemma fires_to_keeps:
  "(fires_to cal)\<^sup>*\<^sup>* s s' \<Longrightarrow> origin_event_id s' = origin_event_id s \<and> sch_origin s' = sch_origin s \<and> sch_cause s' = sch_cause s"
proof (induction rule: rtranclp_induct)
  case (step a b)
  have "origin_event_id b = origin_event_id a \<and> sch_origin b = sch_origin a \<and> sch_cause b = sch_cause a"
    using step.hyps(2) by (auto simp: fires_to_def occurrence_fires)
  with step.IH show ?case by simp
qed simp

lemma fire_schedule_observes:
  assumes "fire_schedule sc cal sd now (k, s) f = Inr f'" "fi_output f' = fi_output f @ ps" "p \<in> set ps" "prop_event_type p = ''observation.received''"
  shows "\<exists>s' key w. occurrence cal s now = Some (s', Some (key, w)) \<and> make_proposal sd ''observation.received'' w (sch_cause s') (Some key) = Inr p"
proof -
  have "ps \<noteq> []" using assms(3) by auto
  then obtain s' key w p1 p2 where x: "occurrence cal s now = Some (s', Some (key, w))"
      "make_proposal sd ''observation.received'' w (sch_cause s') (Some key) = Inr p1"
      "make_proposal sd ''schedule.updated'' (schedule_snapshot (sch_id s') (Some s')) (sch_cause s') (Some (key @ '':state'')) = Inr p2"
      "ps = [p1, p2]"
    using assms(1,2) by (auto simp: fire_schedule_def emit_occurrence_def split: if_splits option.splits prod.splits)
  have "prop_event_type p2 = ''schedule.updated''" using x(3) by (auto simp: make_proposal_Inr)
  then have "p = p1" using assms(3,4) x(4) by auto
  then show ?thesis using x by blast
qed

lemma proposal_request_fields:
  "proposal_request sd h p cause derived = Inr r \<Longrightarrow> prop_event_type p = ''observation.received'' \<Longrightarrow> prop_payload p = CanonicalJson bs \<Longrightarrow>
    prop_causation_id p = Some i \<Longrightarrow> event_type r = ''observation.received'' \<and> payload r = CanonicalJson bs \<and> causation_id r = Some i \<and>
    stream_id r = pr_id (dl_agent (hs_delivery h))"
  by (auto simp: proposal_request_def Let_def core_payload_def split: if_splits)

lemma log_wf_later:
  assumes "log_wf (es @ new)" "a \<in> set es" "b \<in> set new" "stream_id (request a) = stream_id (request b)"
  shows "sequence a < sequence b"
proof -
  let ?i = "stream_id (request b)"
  have "sorted_wrt (<) (map (\<lambda>e. uint (sequence e)) (stream_log (es @ new) ?i))"
    unfolding log_wf_sequences[OF assms(1)] by simp
  moreover have "a \<in> set (stream_log es ?i)" "b \<in> set (stream_log new ?i)" using assms(2-4) by (simp_all add: stream_log_def)
  ultimately have "uint (sequence a) < uint (sequence b)" by (fastforce simp: stream_log_def sorted_wrt_append)
  then show ?thesis by (simp add: word_less_def)
qed

section \<open>Properties\<close>

text \<open>A reader of the snapshots, to test with.\<close>

definition optional_json :: "(json \<Rightarrow> 'a option) \<Rightarrow> json \<Rightarrow> 'a option option" where
  "optional_json f v = (if v = JNull then Some None else map_option Some (f v))"

definition int_of_json :: "json \<Rightarrow> int option" where
  "int_of_json v = (case v of JNumber (Integer n) \<Rightarrow> Some n | _ \<Rightarrow> None)"

definition timing_of_json :: "json \<Rightarrow> timing option" where
  "timing_of_json v =
     (if json_index v ''kind'' = JString ''at'' then map_option At (as_str (json_index v ''at''))
      else if json_index v ''kind'' = JString ''after'' then map_option After (int_of_json (json_index v ''milliseconds''))
      else Option.bind (as_str (json_index v ''expression'')) (\<lambda>e. map_option (Cron e) (as_str (json_index v ''timezone''))))"

definition schedule_of_json :: "json \<Rightarrow> schedule option" where
  "schedule_of_json v =
     Option.bind (as_str (json_index v ''id'')) (\<lambda>i. Option.bind (as_u64 (json_index v ''revision'')) (\<lambda>r.
     Option.bind (as_str (json_index v ''name'')) (\<lambda>n. Option.bind (as_str (json_index v ''prompt'')) (\<lambda>p.
     Option.bind (timing_of_json (json_index v ''timing'')) (\<lambda>t. Option.bind (optional_json int_of_json (json_index v ''nextAtMs'')) (\<lambda>nx.
     Option.bind (optional_json int_of_json (json_index v ''lastAtMs'')) (\<lambda>l. Option.bind (as_bool (json_index v ''paused'')) (\<lambda>pa.
     Option.bind (optional_json as_str (json_index v ''error'')) (\<lambda>er. Option.bind (as_str (json_index v ''originEventId'')) (\<lambda>oi.
     Option.bind (as_str (json_index v ''cause'')) (\<lambda>c.
       Some \<lparr>sch_id = i, sch_revision = r, sch_name = n, prompt = p, sch_timing = t, next_at_ms = nx, last_at_ms = l, paused = pa,
         sch_error = er, origin_event_id = oi, sch_origin = json_index v ''origin'', sch_cause = c\<rparr>)))))))))))"

lemma optional_json_opt: "(\<And>x. f (g x) = Some x \<and> g x \<noteq> JNull) \<Longrightarrow> optional_json f (json_opt g m) = Some m"
  by (cases m) (simp_all add: optional_json_def)

lemma timing_of_json: "timing_of_json (timing_json t) = Some t"
  by (cases t) (simp_all add: timing_of_json_def timing_json_def json_index_def int_of_json_def json_i64_def)

lemma schedule_of_json: "schedule_of_json (schedule_json s) = Some s"
proof -
  have i: "optional_json int_of_json (json_opt json_i64 m) = Some m" for m
    by (rule optional_json_opt) (simp add: int_of_json_def json_i64_def)
  have s: "optional_json as_str (json_opt JString m) = Some m" for m
    by (rule optional_json_opt) simp
  have u: "as_u64 (json_u64 n) = Some n" for n
    using uint_lt2p[of n] by (simp add: as_u64_def json_u64_def)
  show ?thesis by (simp add: schedule_of_json_def schedule_json_def json_index_def i s u timing_of_json as_bool_def)
qed

definition snapshot_serde :: schedule_serde where
  "snapshot_serde = demo_serde\<lparr>
     schedule_from_value := (\<lambda>v. if v = JNull then Inr None else case schedule_of_json v of None \<Rightarrow> Inl [] | Some s \<Rightarrow> Inr (Some s)),
     schedule_from_slice := (\<lambda>b. if b = ''s'' then Inr (demo_schedule ''r'' ''c'' 180000 None) else Inl []),
     timer_from_slice := (\<lambda>b. if b = ''t'' then Inr \<lparr>timer_request = ''t'', timer_owner = ''rlm-1'', timer_due = 5\<rparr> else Inl [])\<rparr>"

lemma snapshot_serde_decodes: "snapshots_decode snapshot_serde"
proof -
  have "schedule_json s \<noteq> JNull" for s by (simp add: schedule_json_def json_object_def)
  then show ?thesis unfolding snapshots_decode_def
  proof (intro allI)
    fix m
    show "schedule_from_value snapshot_serde (json_opt schedule_json m) = Inr m"
      using \<open>\<And>s. schedule_json s \<noteq> JNull\<close> by (cases m) (simp_all add: schedule_of_json snapshot_serde_def)
  qed
qed

text \<open>A host with one due timer and one schedule, and a request to delete the schedule.\<close>

definition desk_serde :: serde where
  "desk_serde = table_serde [(''o'', demo_conversation ''c''),
     (''q'', JObject [(''arguments'', JObject [(''id'', JString ''r'')]), (''capability'', JString ''schedule.delete'')]),
     (''u'', JObject [(''id'', JString ''r''), (''schedule'', JNull)]),
     (''d'', JObject [(''output'', JObject [(''deleted'', JBool True), (''id'', JString ''r'')]), (''requestEventId'', JString ''e'')]),
     (''f'', JObject [(''dueAtMs'', JNumber (Integer 5)), (''requestEventId'', JString ''t'')])]"

abbreviation desk_event :: "event_id \<Rightarrow> u64 \<Rightarrow> string \<Rightarrow> bytes \<Rightarrow> event_id option \<Rightarrow> wit_event" where
  "desk_event i n ty bs c \<equiv> \<lparr>we_event_id = i, we_sequence = n, we_recorded_at_ms = 0, we_event_type = ty, we_payload_schema = [],
     we_payload = CanonicalJson bs, we_actor = \<lparr>pr_kind = Component, pr_id = ''rlm-1''\<rparr>, we_authority_id = None, we_activity_id = None,
     we_correlation_id = None, we_causation_id = c\<rparr>"

definition desk_host :: "unit plugin_host" where
  "desk_host = \<lparr>ph_state_get = (\<lambda>_ _. Inr None),
     ph_scan = (\<lambda>_ prefix _ _. Inr \<lparr>wit_entries = [if prefix = ''timer:'' then \<lparr>entry_key = timer_key ''t'', entry_value = ''t''\<rparr>
       else \<lparr>entry_key = schedule_key ''r'', entry_value = ''s''\<rparr>], wit_next_key = None\<rparr>),
     ph_event = (\<lambda>_ _. ((), Inr (desk_event ''o'' 1 ''observation.received'' ''o'' None))),
     ph_query = (\<lambda>_ _ _. ((), Inl (internal []))), ph_commit = (\<lambda>_ _ _ _. ((), Inr ())), ph_reject = (\<lambda>_ _. ((), Inr ()))\<rparr>"

text \<open>C35: The events carry the state. When the events of an answered batch or of a firing are read back from the log, bringing
  the state up to date makes exactly the changes, in the same order, that the component committed with them, so the
  timers and schedules can be rebuilt from the log alone.\<close>

theorem receipts_rebuild:
  assumes "reads_back sd" and "snapshots_decode sc"
    and "scheduler_handle sc cal sd ph tick s es = Some (s', Inr out)"
    and "load ph (timer_from_slice sc) t ''timer:'' = Some (Inr tm)" and "timers_ok tm"
    and "fire_plan sc cal sd ph now t = Some (Inr f)"
  shows "replays sc sd self (oc_events out) (oc_mutations out) \<and> replays sc sd self (fi_output f) (fi_mutations f)"
  using handle_replays[OF assms(1-3)] fire_replays[OF assms(1,2,4-6)] by blast

lemma desk_loads:
  "load desk_host (timer_from_slice snapshot_serde) s ''timer:'' = Some (Inr [(timer_key ''t'', \<lparr>timer_request = ''t'', timer_owner = ''rlm-1'', timer_due = 5\<rparr>)])"
  "load desk_host (schedule_from_slice snapshot_serde) s ''schedule:'' = Some (Inr [(schedule_key ''r'', demo_schedule ''r'' ''c'' 180000 None)])"
  by (simp_all add: load_def load_loop.simps[of _ _ None] desk_host_def snapshot_serde_def)

lemma desk_fires:
  "\<exists>f. fire_plan snapshot_serde demo_calendar desk_serde desk_host 10 () = Some (Inr f) \<and> fi_mutations f = [WitDelete (timer_key ''t'')]"
  unfolding fire_plan_def desk_loads
  by (simp add: fire_timer_def fire_schedule_def make_proposal_def desk_serde_def table_serde_def json_object_def btree_of_def
      json_i64_def less_list_code occurrence_def scheduler_page_def)

lemma desk_handles:
  "\<exists>out. scheduler_handle snapshot_serde demo_calendar desk_serde desk_host tick () [desk_event ''e'' 2 ''capability.requested'' ''q'' (Some ''o'')] =
     Some ((), Inr out) \<and> oc_mutations out = [WitDelete (schedule_key ''r'')]"
proof -
  let ?e = "desk_event ''e'' 2 ''capability.requested'' ''q'' (Some ''o'')" and ?m = "[(schedule_key ''r'', demo_schedule ''r'' ''c'' 180000 None)]"
  let ?v = "JObject [(''arguments'', JObject [(''id'', JString ''r'')]), (''capability'', JString ''schedule.delete'')]"
  let ?ob = "desk_event ''o'' 1 ''observation.received'' ''o'' None"
  have v: "event_value desk_serde ?e = Inr ?v" by (simp add: event_value_def desk_serde_def table_serde_def)
  have o: "request_origin desk_serde desk_host () ?e = ((), Inr (''o'', origin_value (demo_conversation ''c'')))"
  proof -
    have ob: "origin_from desk_serde desk_host (Suc n) () ?ob = ((), Inr (''o'', origin_value (demo_conversation ''c'')))" for n
      by (simp add: event_value_def desk_serde_def table_serde_def json_index_def)
    have "(1 :: u64) < 2" by (simp add: word_less_nat_alt)
    then have "origin_from desk_serde desk_host (Suc (Suc n)) () ?e = ((), Inr (''o'', origin_value (demo_conversation ''c'')))" for n
      by (subst origin_from.simps(2)) (simp add: ob not_le desk_host_def[THEN arg_cong[where f = ph_event]] del: origin_from.simps)
    from this[of 4094] show ?thesis unfolding request_origin_def by (simp del: origin_from.simps)
  qed
  have own: "owned_by (demo_schedule ''r'' ''c'' 180000 None) (origin_value (demo_conversation ''c''))"
    by (simp add: owned_by_def json_index_def origin_value_index)
  have man: "manage snapshot_serde demo_calendar ?m ''schedule.delete'' (JObject [(''id'', JString ''r'')]) ''e'' ''o'' (origin_value (demo_conversation ''c'')) (tick ?e) =
    ([], Inr (json_object [(''id'', JString ''r''), (''deleted'', JBool True)], Some (''r'', None)))"
    using own by (simp add: manage_def find_owned_def json_index_def text_field_def btree_remove_def)
  define out0 where "out0 = \<lparr>oc_events = [], oc_mutations = [], oc_checkpoint = map_option we_sequence (last_of [?e])\<rparr>"
  obtain out where out: "answer_request snapshot_serde desk_serde ''e'' (Inr (json_object [(''id'', JString ''r''), (''deleted'', JBool True)], Some (''r'', None))) out0 = Inr out"
    "oc_mutations out = [WitDelete (schedule_key ''r'')]"
    by (simp add: answer_request_def make_proposal_def schedule_snapshot_def schedule_mutation_def desk_serde_def table_serde_def json_object_def btree_of_def
        less_list_code out0_def)
  have "handle_event snapshot_serde demo_calendar desk_serde desk_host tick ?e ((), ?m, out0) = ((), Inr ([], out))"
    unfolding handle_event_def split v
    by (simp add: json_index_def[of ?v] starts_with_def o man out(1))
  then have "handle_events snapshot_serde demo_calendar desk_serde desk_host tick [?e] ((), ?m, out0) = ((), Inr ([], out))"
    by (simp only: handle_events.simps split prod.case sum.case)
  then show ?thesis using out(2) unfolding scheduler_handle_def desk_loads out0_def by simp
qed

theorem receipts_rebuild_witness:
  "\<exists>(out :: guest_outcome) (f :: firing). oc_mutations out = [WitDelete (schedule_key ''r'')] \<and> fi_mutations f = [WitDelete (timer_key ''t'')] \<and>
     replays snapshot_serde desk_serde ''scheduler-1'' (oc_events out) (oc_mutations out) \<and>
     replays snapshot_serde desk_serde ''scheduler-1'' (fi_output f) (fi_mutations f)"
proof -
  obtain out f where out: "scheduler_handle snapshot_serde demo_calendar desk_serde desk_host (\<lambda>_. 0) () [desk_event ''e'' 2 ''capability.requested'' ''q'' (Some ''o'')] =
      Some ((), Inr out)" "oc_mutations out = [WitDelete (schedule_key ''r'')]"
    and f: "fire_plan snapshot_serde demo_calendar desk_serde desk_host 10 () = Some (Inr f)" "fi_mutations f = [WitDelete (timer_key ''t'')]"
    using desk_handles[of "\<lambda>_. 0"] desk_fires by blast
  have rb: "reads_back desk_serde" unfolding desk_serde_def by (rule table_serde_reads_back) simp
  have "timers_ok [(timer_key ''t'', \<lparr>timer_request = ''t'', timer_owner = ''rlm-1'', timer_due = 5\<rparr>)]" by (simp add: timers_ok_def)
  from receipts_rebuild[OF rb snapshot_serde_decodes out(1) desk_loads(1) this f(1), of "''scheduler-1''"] out(2) f(2)
  show ?thesis by (intro exI[of _ out] exI[of _ f]) simp
qed

text \<open>C33: What a schedule emits acts under the authority of the request that made or last changed it. The scheduler handles
  a stored request of the agent; a schedule that is new or different afterwards (created, updated, paused or resumed by the
  request) then fires any number of times; the observation that a later firing proposes is committed by the host in the agent's
  stream, by an instance whose connector inherits its origin. That observation resolves to the authority of the request itself:
  not to more, and not to that of another conversation. The walk from the request must stay within 4095 steps, one
  below the limit of 4096 that holds for every walk, since the observation is one step further from the origin.\<close>

theorem occurrence_authority:
  assumes "holds_log s0" and "holds_log s1" and "stored_log s1 = stored_log s0 @ new" and "req \<in> set (stored_log s0)" and "ob \<in> set new"
    and "handle_event sc cal sd (wasm_host sd (sql_event_ops en) sops dops) tick (to_wit_event req) ((r, s0), m, out) = (t, Inr (m', out'))"
    and "btree_wf m" and "btree_get m' k = Some sch" and "btree_get m k \<noteq> Some sch" and "(fires_to cal)\<^sup>*\<^sup>* sch sch1"
    and "fire_schedule sc cal sd now (k, sch1) f = Inr f'" and "fi_output f' = fi_output f @ ps" and "p \<in> set ps"
    and "prop_event_type p = ''observation.received''" and "reads_back sd"
    and "proposal_request sd h p cause derived = Inr (request ob)" and "pr_id (dl_agent (hs_delivery h)) = pr_id (oa_agent oa)"
    and "observing_connector oa ob = Inr c" and "inherits_origin c"
    and "resolve_from sd (sql_event_ops en) oa s1 4095 req None = Inr a"
  shows "resolve sd (sql_event_ops en) oa s1 ob = Inr a"
proof -
  obtain t oid orig where o: "request_origin sd (wasm_host sd (sql_event_ops en) sops dops) (r, s0) (to_wit_event req) = (t, Inr (oid, orig))"
    and sch: "origin_event_id sch = oid" "sch_origin sch = orig" "sch_cause sch = event_id req"
    using handle_event_stamps[OF assms(7,6,8,9)] by (auto simp: to_wit_event_def)
  have sch1: "origin_event_id sch1 = oid" "sch_origin sch1 = orig" "sch_cause sch1 = event_id req"
    using fires_to_keeps[OF assms(10)] sch by simp_all
  obtain sch2 key w where w: "occurrence cal sch1 now = Some (sch2, Some (key, w))"
      "make_proposal sd ''observation.received'' w (sch_cause sch2) (Some key) = Inr p"
    using fire_schedule_observes[OF assms(11-14)] by blast
  have ob: "event_type (request ob) = prop_event_type p" "payload (request ob) = prop_payload p" "causation_id (request ob) = prop_causation_id p"
      "stream_id (request ob) = pr_id (oa_agent oa)"
    using w(2) proposal_request_fields[OF assms(16,14)] assms(17) by (auto simp: make_proposal_Inr)
  have "stream_id (request req) = pr_id (oa_agent oa)" using assms(20) by (auto simp: numeral_eq_Suc split: if_splits)
  then have "sequence req < sequence ob"
    using log_wf_later[OF _ assms(4,5)] sql.wf[OF assms(2)] ob(4) assms(3) by simp
  then have "resolve_from sd (sql_event_ops en) oa s1 (Suc 4095) ob None = Inr a"
    using occurrence_resolves[OF assms(1-3) o sch1 w(1) assms(15) w(2) ob assms(18,19) _ _ assms(20)] assms(3,4) by simp
  then show ?thesis by (simp add: resolve_def del: resolve_from.simps)
qed

text \<open>A stored observation and a stored request that it caused.\<close>

lemma store_next:
  assumes "holds_log s" "stored_log s = es" "log_append es q i n = Inr (es @ [e], e)"
  shows "\<exists>s' t. append_event en (s\<lparr>metadata := \<lparr>event_ids = (\<lambda>_. i), clock = (\<lambda>_. n), ids_taken = 0, clock_reads = 0\<rparr>\<rparr>) q = (s', Inr e) \<and>
    holds_log s' \<and> stored_log s' = es @ [e]"
proof -
  let ?s = "s\<lparr>metadata := \<lparr>event_ids = (\<lambda>_. i), clock = (\<lambda>_. n), ids_taken = 0, clock_reads = 0\<rparr>\<rparr>"
  obtain s' res where call: "append_event en ?s q = (s', res)" by fastforce
  have "represents (db ?s) es" using assms(1,2) by (simp add: holds_log_def)
  from append_event_log[OF this call] assms(3) have "res = Inr e" "represents (db s') (es @ [e])"
    by (simp_all add: peek_id_def peek_clock_def)
  then show ?thesis using call holds_log_represents stored_log_represents by blast
qed

definition diary_value :: json where
  "diary_value = JObject [(''arguments'', demo_arguments), (''capability'', JString ''schedule.create'')]"

abbreviation diary_ask :: append_request where
  "diary_ask \<equiv> chat_request ''capability.requested'' ''rlm-1'' ''r'' (Some [])"

text \<open>The schedule that the request makes, the observation of its first firing, and the values the component writes.\<close>

definition diary_schedule :: schedule where
  "diary_schedule = (demo_schedule ''q'' ''c'' 60000 None)\<lparr>origin_event_id := [], sch_origin := origin_value (demo_conversation ''c'')\<rparr>"

definition diary_fired :: schedule where
  "diary_fired = advance demo_calendar 60000 60000 diary_schedule"

definition diary_message :: json where
  "diary_message = the (occurrence_value diary_schedule 60000 60000)"

definition diary_serde :: serde where
  "diary_serde = table_serde [(''o'', demo_conversation ''c''), (''r'', diary_value), (''w'', diary_message),
     (''u'', schedule_snapshot ''q'' (Some diary_schedule)), (''v'', schedule_snapshot ''q'' (Some diary_fired)),
     (''d'', json_object [(''requestEventId'', JString ''q''), (''output'', schedule_json diary_schedule)])]"

definition diary_codec :: schedule_serde where
  "diary_codec = demo_serde\<lparr>schedule_to_vec := (\<lambda>_. Inr ''s'')\<rparr>"

lemma diary_serde_from [simp]:
  "from_slice diary_serde ''o'' = Inr (demo_conversation ''c'')" "from_slice diary_serde ''r'' = Inr diary_value"
  "from_slice diary_serde ''w'' = Inr diary_message"
  by (simp_all add: diary_serde_def table_serde_def)

lemma diary_serde_to:
  "v \<in> {diary_message, schedule_snapshot ''q'' (Some diary_schedule), schedule_snapshot ''q'' (Some diary_fired),
     json_object [(''requestEventId'', JString ''q''), (''output'', schedule_json diary_schedule)]} \<Longrightarrow> \<exists>b. to_vec diary_serde v = Inr b"
  by (auto simp: diary_serde_def table_serde_def)

lemma diary_reads_back: "reads_back diary_serde"
  unfolding diary_serde_def by (rule table_serde_reads_back) simp

lemma diary_message: "occurrence_value diary_schedule 60000 60000 = Some diary_message"
  by (simp add: diary_message_def diary_schedule_def occurrence_value_def json_assign_def origin_value_def json_object_def)

lemma diary_message_blobs: "collect_blob_refs diary_message = []"
  by (simp add: diary_message_def diary_schedule_def occurrence_value_def json_assign_def origin_value_def json_object_def json_index_def
      btree_of_def less_list_code blob_ref_from_def json_i64_def json_u64_def)

lemma diary_stored:
  "\<exists>s. holds_log s \<and> stored_log s = [chat_event [] 1 chat_observation, chat_event ''q'' 2 diary_ask]"
proof -
  obtain s where s: "holds_log s" "stored_log s = [chat_event [] 1 chat_observation]" using chat_stored by blast
  have "log_append [chat_event [] 1 chat_observation] diary_ask ''q'' 0 =
    Inr ([chat_event [] 1 chat_observation] @ [chat_event ''q'' 2 diary_ask], chat_event ''q'' 2 diary_ask)"
    by (simp add: log_append_def validate_append_def stream_log_def new_event_def)
  from store_next[OF s this] show ?thesis by auto
qed

abbreviation diary_origin :: origin_authority where
  "diary_origin \<equiv> \<lparr>oa_agent = \<lparr>pr_kind = Agent, pr_id = ''personal''\<rparr>, oa_connectors = [
     \<lparr>conn_provider = ''cli'', inherits_origin = False, ingress = ''cli-1/receive'', reply = [], reply_capabilities = []\<rparr>,
     \<lparr>conn_provider = ''timer'', inherits_origin = True, ingress = ''echo-1'', reply = [], reply_capabilities = []\<rparr>],
     oa_grants = Map.empty, oa_max_depth = 3\<rparr>"

lemma diary_origin_found:
  assumes "holds_log s" "stored_log s = [chat_event [] 1 chat_observation, chat_event ''q'' 2 diary_ask]"
  shows "\<exists>t. request_origin diary_serde (wasm_host diary_serde (sql_event_ops demo_engine) sops dops) (start_runner svc_instance, s)
    (to_wit_event (chat_event ''q'' 2 diary_ask)) = (t, Inr ([], origin_value (demo_conversation ''c'')))"
proof -
  let ?ph = "wasm_host diary_serde (sql_event_ops demo_engine) sops dops" and ?r = "start_runner svc_instance"
  let ?ob = "chat_event [] 1 chat_observation"
  have ob: "origin_from diary_serde ph (Suc n) u (to_wit_event ?ob) = (u, Inr ([], origin_value (demo_conversation ''c'')))" for ph u n
    by (simp add: to_wit_event_def event_value_def json_index_def)
  obtain t where t: "ph_event ?ph (?r, s) [] = (t, Inr (to_wit_event ?ob))"
    by (simp add: wasm_host_def host_get_def sql.get[OF assms(1)] assms(2) start_runner_def prepare_call_def http_request_visible_def Let_def
        reset_resource_evidence_def split: prod.splits)
  have "(1 :: u64) < 2" by (simp add: word_less_nat_alt)
  then have "origin_from diary_serde ?ph (Suc (Suc n)) (?r, s) (to_wit_event (chat_event ''q'' 2 diary_ask)) =
      (t, Inr ([], origin_value (demo_conversation ''c'')))" for n
    using ob t by (subst origin_from.simps(2)) (simp add: to_wit_event_def not_le del: origin_from.simps)
  from this[of 4094] show ?thesis unfolding request_origin_def by (simp del: origin_from.simps)
qed

lemma diary_handled:
  assumes "holds_log s" "stored_log s = [chat_event [] 1 chat_observation, chat_event ''q'' 2 diary_ask]"
  shows "\<exists>t out. handle_event diary_codec demo_calendar diary_serde (wasm_host diary_serde (sql_event_ops demo_engine) sops dops) (\<lambda>_. 0)
    (to_wit_event (chat_event ''q'' 2 diary_ask)) ((start_runner svc_instance, s), [], out0) = (t, Inr ([(schedule_key ''q'', diary_schedule)], out))"
proof -
  obtain t where t: "request_origin diary_serde (wasm_host diary_serde (sql_event_ops demo_engine) sops dops) (start_runner svc_instance, s)
    (to_wit_event (chat_event ''q'' 2 diary_ask)) = (t, Inr ([], origin_value (demo_conversation ''c'')))" using diary_origin_found[OF assms] by blast
  have m: "manage diary_codec demo_calendar [] ''schedule.create'' demo_arguments ''q'' [] (origin_value (demo_conversation ''c'')) 0 =
    ([(schedule_key ''q'', diary_schedule)], Inr (schedule_json diary_schedule, Some (''q'', Some diary_schedule)))"
    by (simp add: manage_def create_schedule_def text_field_def json_index_def diary_codec_def diary_schedule_def timing_first_def timing_next_def)
  obtain b c where w: "to_vec diary_serde (schedule_snapshot ''q'' (Some diary_schedule)) = Inr b"
    "to_vec diary_serde (json_object [(''requestEventId'', JString ''q''), (''output'', schedule_json diary_schedule)]) = Inr c"
    using diary_serde_to by blast
  then obtain out where out: "answer_request diary_codec diary_serde ''q'' (Inr (schedule_json diary_schedule, Some (''q'', Some diary_schedule))) out0 = Inr out"
    by (simp add: answer_request_def make_proposal_def schedule_mutation_def diary_codec_def set_entry_def)
  let ?e = "to_wit_event (chat_event ''q'' 2 diary_ask)"
  have e: "we_event_type ?e = ''capability.requested''" "we_event_id ?e = ''q''" "event_value diary_serde ?e = Inr diary_value"
    by (simp_all add: to_wit_event_def event_value_def)
  have v: "json_index diary_value ''capability'' = JString ''schedule.create''" "json_index diary_value ''arguments'' = demo_arguments"
    by (simp_all add: diary_value_def json_index_def)
  show ?thesis unfolding handle_event_def split e by (simp add: v starts_with_def t m out)
qed

text \<open>The first firing, and what the host makes of its observation.\<close>

definition diary_proposal :: "bytes \<Rightarrow> proposal" where
  "diary_proposal b = \<lparr>prop_event_type = ''observation.received'', prop_payload_schema = ''pluribus.observation.received/1'',
     prop_payload = CanonicalJson b, prop_causation_id = Some ''q'', prop_idempotency_key = Some (occurrence_key diary_schedule 60000)\<rparr>"

definition diary_emitted :: "bytes \<Rightarrow> append_request" where
  "diary_emitted b = \<lparr>stream_id = ''personal'', stream_kind = AgentStream, observed_at_ms = None, event_type = ''observation.received'',
     payload_schema = ''pluribus.observation.received/1'', payload = CanonicalJson b, actor = new_principal Component ''echo-1'',
     authority_id = Some ''a'', activity_id = Some ''act'', correlation_id = Some ''cor'', causation_id = Some ''q'',
     deduplication_key = Some (occurrence_key diary_schedule 60000)\<rparr>"

lemma diary_fires:
  assumes "to_vec diary_serde diary_message = Inr b"
  shows "\<exists>f q. fire_schedule diary_codec demo_calendar diary_serde 60000 (k, diary_schedule) \<lparr>fi_output = [], fi_mutations = [], fi_next = 0\<rparr> = Inr f \<and>
     fi_output f = [diary_proposal b, q]"
proof -
  have o: "occurrence demo_calendar diary_schedule 60000 = Some (diary_fired, Some (occurrence_key diary_schedule 60000, diary_message))"
    using diary_message by (simp add: occurrence_def diary_fired_def) (simp add: diary_schedule_def)
  have c: "sch_cause diary_fired = ''q''" "sch_id diary_fired = ''q''" by (simp_all add: diary_fired_def advance_def timing_next_def diary_schedule_def)
  obtain b2 where w: "to_vec diary_serde (schedule_snapshot ''q'' (Some diary_fired)) = Inr b2" using diary_serde_to by blast
  have "emit_occurrence diary_codec diary_serde diary_fired (occurrence_key diary_schedule 60000) diary_message \<lparr>fi_output = [], fi_mutations = [], fi_next = 0\<rparr> =
    Inr \<lparr>fi_output = [diary_proposal b, (diary_proposal b2)\<lparr>prop_event_type := ''schedule.updated'', prop_payload_schema := ''pluribus.schedule.updated/1'',
      prop_idempotency_key := Some (occurrence_key diary_schedule 60000 @ '':state'')\<rparr>], fi_mutations = [WitSet \<lparr>entry_key = schedule_key ''q'', entry_value = ''s''\<rparr>], fi_next = 0\<rparr>"
    by (simp add: emit_occurrence_def make_proposal_def c w assms schedule_mutation_def set_entry_def diary_codec_def diary_proposal_def)
  then show ?thesis by (simp add: fire_schedule_def o scheduler_page_def split: option.splits)
qed

lemma diary_proposed:
  assumes "to_vec diary_serde diary_message = Inr b"
  shows "proposal_request diary_serde svc_host (diary_proposal b) None None = Inr (diary_emitted b)"
proof -
  have "from_slice diary_serde b = Inr diary_message" using reads_backD[OF diary_reads_back assms] .
  then have "authorize_blob_references diary_serde (CanonicalJson b) v = Inr ()" for v
    by (simp add: authorize_blob_references_def payload_blobs_def diary_message_blobs)
  moreover have "registry_authorize core_registry (diary_emitted b) [''observation.received''] = Inr ()"
    by (simp add: registry_authorize_def registry_validate_def core_registry_apply diary_emitted_def plugin_event_types_def reserved_event_types_def
        pinned_schemas_def matches_pattern_def strip_suffix_def)
  ultimately show ?thesis by (simp add: proposal_request_def diary_proposal_def diary_emitted_def core_payload_def Let_def)
qed

lemma diary_recorded:
  assumes "holds_log s" "stored_log s = [chat_event [] 1 chat_observation, chat_event ''q'' 2 diary_ask]"
  shows "\<exists>s'. holds_log s' \<and> stored_log s' = stored_log s @ [chat_event ''z'' 3 (diary_emitted b)]"
proof -
  have "log_append [chat_event [] 1 chat_observation, chat_event ''q'' 2 diary_ask] (diary_emitted b) ''z'' 0 =
    Inr ([chat_event [] 1 chat_observation, chat_event ''q'' 2 diary_ask] @ [chat_event ''z'' 3 (diary_emitted b)], chat_event ''z'' 3 (diary_emitted b))"
    by (simp add: log_append_def validate_append_def stream_log_def new_event_def diary_emitted_def occurrence_key_def)
  from store_next[OF assms this] assms(2) show ?thesis by auto
qed

lemma diary_resolves:
  assumes "holds_log s" "stored_log s = [chat_event [] 1 chat_observation, chat_event ''q'' 2 diary_ask] @ new"
  shows "\<exists>a. resolve_from diary_serde (sql_event_ops demo_engine) diary_origin s 4095 (chat_event ''q'' 2 diary_ask) None = Inr a \<and>
    origin_conversation_id (the_origin a) = Some ''c''"
proof -
  let ?ob = "chat_event [] 1 chat_observation" and ?q = "chat_event ''q'' 2 diary_ask"
  obtain a where a: "issue diary_serde diary_origin ?ob = Inr a" "origin_conversation_id (the_origin a) = Some ''c''"
    by (simp add: issue_def observing_connector_def observation_value_def new_principal_def json_index_def Let_def)
  then have o: "observe_origin diary_serde diary_origin ?ob None = Inr (Inl a)"
    by (simp add: observe_origin_def observing_connector_def observation_value_def new_principal_def)
  have "cause_of (sql_event_ops demo_engine) s ?q = Inr ?ob"
    by (simp add: cause_of_def sql.get[OF assms(1)] assms(2) word_le_nat_alt)
  then have "resolve_from diary_serde (sql_event_ops demo_engine) diary_origin s (Suc (Suc n)) ?q None = Inr a" for n
    using o by simp
  from this[of 4093] a(2) show ?thesis by (auto simp del: resolve_from.simps)
qed

theorem occurrence_authority_witness:
  "\<exists>s b a. stored_log s = [chat_event [] 1 chat_observation, chat_event ''q'' 2 diary_ask, chat_event ''z'' 3 (diary_emitted b)] \<and>
     resolve diary_serde (sql_event_ops demo_engine) diary_origin s (chat_event ''z'' 3 (diary_emitted b)) = Inr a \<and>
     origin_conversation_id (the_origin a) = Some ''c''"
proof -
  obtain s where s: "holds_log s" "stored_log s = [chat_event [] 1 chat_observation, chat_event ''q'' 2 diary_ask]" using diary_stored by blast
  obtain b where b: "to_vec diary_serde diary_message = Inr b" using diary_serde_to by blast
  obtain s' where s': "holds_log s'" "stored_log s' = stored_log s @ [chat_event ''z'' 3 (diary_emitted b)]" using diary_recorded[OF s] by blast
  obtain t out where h: "handle_event diary_codec demo_calendar diary_serde (wasm_host diary_serde (sql_event_ops demo_engine) sql_state_ops
      (sql_delivery_ops demo_engine)) (\<lambda>_. 0) (to_wit_event (chat_event ''q'' 2 diary_ask))
      ((start_runner svc_instance, s), [], \<lparr>oc_events = [], oc_mutations = [], oc_checkpoint = None\<rparr>) = (t, Inr ([(schedule_key ''q'', diary_schedule)], out))"
    using diary_handled[OF s] by blast
  obtain f q where f: "fire_schedule diary_codec demo_calendar diary_serde 60000 (schedule_key ''q'', diary_schedule) \<lparr>fi_output = [], fi_mutations = [], fi_next = 0\<rparr> = Inr f"
    "fi_output f = [diary_proposal b, q]" using diary_fires[OF b] by blast
  obtain a where a: "resolve_from diary_serde (sql_event_ops demo_engine) diary_origin s' 4095 (chat_event ''q'' 2 diary_ask) None = Inr a"
    "origin_conversation_id (the_origin a) = Some ''c''" using diary_resolves[OF s'(1) s'(2)[unfolded s(2)]] by blast
  let ?ob = "chat_event ''z'' 3 (diary_emitted b)"
  have c: "observing_connector diary_origin ?ob = Inr (oa_connectors diary_origin ! 1)" by (simp add: observing_connector_def new_principal_def diary_emitted_def)
  have p: "proposal_request diary_serde svc_host (diary_proposal b) None None = Inr (request ?ob)" using diary_proposed[OF b] by simp
  have out: "fi_output f = fi_output \<lparr>fi_output = [], fi_mutations = [], fi_next = 0\<rparr> @ [diary_proposal b, q]" using f(2) by simp
  have "resolve diary_serde (sql_event_ops demo_engine) diary_origin s' ?ob = Inr a"
    by (rule occurrence_authority[OF s(1) s'(1,2) _ _ h _ _ _ rtranclp.rtrancl_refl f(1) out _ _ diary_reads_back p _ c _ a(1)])
      (simp_all add: s(2), simp add: diary_proposal_def)
  then show ?thesis using s(2) s'(2) a(2) by auto
qed

end
