(* ===== verification/Http_Policy.thy ===== *)
theory Http_Policy
  imports Host_Blobs Net Json
begin

text \<open>
  HTTP under a component's grant (\<open>pluribus-host-http\<close>): the checks on a request, the loop that follows redirects and repeats
  the checks for every hop, the headers and the body that are sent, and streams with their frames, among them
  server-sent events. URLs, header names and methods are read by packages, which \<open>url_lib\<close> and \<open>http_lib\<close> stand for. The
  network is the record \<open>network\<close>: what a lookup and a request return may depend on everything sent before, and so may whether
  the deadline has passed.
\<close>

section \<open>Data\<close>

record http_request =
  rq_method :: string
  rq_url :: string
  rq_headers :: "http_header list"
  rq_body :: "blob_ref option"
  rq_timeout_ms :: u32

record http_grant =
  gr_component :: principal_ref
  gr_origins :: "string list"
  gr_methods :: "string list"
  gr_allow_http :: bool
  gr_allow_private :: bool
  gr_max_request_bytes :: u64
  gr_max_response_bytes :: u64
  gr_max_redirects :: u8
  gr_max_timeout_ms :: u32

record 'u url_lib =
  url_parse :: "string \<Rightarrow> 'u option"
  url_credentials :: "'u \<Rightarrow> bool"
  url_fragment :: "'u \<Rightarrow> bool"
  url_scheme :: "'u \<Rightarrow> string"
  url_host :: "'u \<Rightarrow> string option"
  url_cannot_be_base :: "'u \<Rightarrow> bool"
  url_origin :: "'u \<Rightarrow> string"
  url_port :: "'u \<Rightarrow> u16 option"
  url_join :: "'u \<Rightarrow> string \<Rightarrow> 'u option"

record http_lib =
  method_from_bytes :: "string \<Rightarrow> string option"
  header_name :: "string \<Rightarrow> string option"
  header_value_ok :: "bytes \<Rightarrow> bool"
  header_to_str :: "bytes \<Rightarrow> string option"

text \<open>A request as it leaves the host, with the addresses its host name stands for, to the first of which its client is pinned, and what its
  body yields.\<close>

record 'u sent =
  sn_url :: 'u
  sn_addresses :: "ip_addr list"
  sn_method :: string
  sn_headers :: "http_header list"
  sn_body :: "(u64 \<times> (string + bytes) list) option"

datatype lookup = LookupTimedOut | LookupFailed | Resolved "ip_addr list"

record 'u network =
  net_time_left :: "'u sent list \<Rightarrow> nat \<Rightarrow> bool"
  net_lookup :: "'u sent list \<Rightarrow> string \<Rightarrow> u16 \<Rightarrow> lookup"
  net_client :: "'u sent list \<Rightarrow> bool"
  net_send :: "'u sent list \<Rightarrow> 'u sent \<Rightarrow> string + wire_response"

section \<open>Checks\<close>

definition max_timeout_ms :: u32 where
  "max_timeout_ms = 5 * 60 * 1000"

definition max_redirects :: u8 where
  "max_redirects = 5"

definition transfer_chunk_bytes :: u64 where
  "transfer_chunk_bytes = 64 * 1024"

definition prepare_request :: "'u url_lib \<Rightarrow> http_lib \<Rightarrow> http_grant \<Rightarrow> http_request \<Rightarrow> http_error + 'u \<times> string" where
  "prepare_request ul hl g r =
     rbind (ok_or (HttpInvalid ''URL is malformed'') (url_parse ul (rq_url r))) (\<lambda>url.
     if url_credentials ul url \<or> url_fragment ul url then Inl (HttpInvalid ''URL credentials and fragments are forbidden'')
     else rbind (ok_or (HttpInvalid ''method is malformed'') (method_from_bytes hl (rq_method r))) (\<lambda>method.
     if rq_timeout_ms r = 0 \<or> max_timeout_ms < rq_timeout_ms r \<or> gr_max_timeout_ms g < rq_timeout_ms r
     then Inl (HttpInvalid ''timeout exceeds the invocation or host limit'')
     else if max_redirects < gr_max_redirects g then Inl (HttpInvalid ''redirect grant exceeds hard limit'')
     else if max_header_bytes < header_bytes (rq_headers r) then Inl (HttpResourceExhausted ''request headers exceed 64 KiB'')
     else if is_some_and (\<lambda>b. gr_max_request_bytes g < blob_size b) (rq_body r) then Inl (HttpResourceExhausted ''request body exceeds grant'')
     else Inr (url, method)))"

definition canonical_origin :: "'u url_lib \<Rightarrow> 'u \<Rightarrow> http_error + string" where
  "canonical_origin ul url =
     (if url_host ul url = None \<or> url_cannot_be_base ul url then Inl (HttpInvalid ''URL has no network origin'')
      else Inr (url_origin ul url))"

definition origin_granted :: "'u url_lib \<Rightarrow> http_grant \<Rightarrow> string \<Rightarrow> bool" where
  "origin_granted ul g o' = list_ex (\<lambda>allowed.
     is_some_and (\<lambda>url. ok_opt (canonical_origin ul url) = Some o') (url_parse ul allowed)) (gr_origins g)"

definition method_granted :: "http_grant \<Rightarrow> string \<Rightarrow> bool" where
  "method_granted g m = list_ex (\<lambda>allowed. to_ascii_lowercase allowed = to_ascii_lowercase m) (gr_methods g)"

definition validate_destination :: "'u url_lib \<Rightarrow> http_grant \<Rightarrow> 'u \<Rightarrow> string \<Rightarrow> http_error + string" where
  "validate_destination ul g url method =
     (if url_scheme ul url = ''http'' \<and> \<not> gr_allow_http g then Inl (HttpPermissionDenied ''plaintext HTTP is not granted'')
      else if url_scheme ul url \<noteq> ''https'' \<and> url_scheme ul url \<noteq> ''http'' then Inl (HttpInvalid ''only HTTP and HTTPS are supported'')
      else rbind (canonical_origin ul url) (\<lambda>o'.
        if \<not> origin_granted ul g o' then Inl (HttpPermissionDenied ''origin is not granted'')
        else if \<not> method_granted g method then Inl (HttpPermissionDenied ''method is not granted'')
        else Inr o'))"

definition resolve_destination ::
  "'u url_lib \<Rightarrow> http_grant \<Rightarrow> (string \<Rightarrow> u16 \<Rightarrow> lookup) \<Rightarrow> 'u \<Rightarrow> http_error + ip_addr list" where
  "resolve_destination ul g lookup_host url =
     rbind (ok_or (HttpInvalid ''URL has no host'') (url_host ul url)) (\<lambda>host.
     rbind (ok_or (HttpInvalid ''URL has no port'') (url_port ul url)) (\<lambda>port.
     case lookup_host host port of
       LookupTimedOut \<Rightarrow> Inl HttpTimeout
     | LookupFailed \<Rightarrow> Inl (HttpUnavailable ''DNS resolution failed'')
     | Resolved as \<Rightarrow>
       if as = [] then Inl (HttpUnavailable ''DNS returned no addresses'')
       else if \<not> gr_allow_private g \<and> list_ex (\<lambda>a. \<not> is_public_address a) as
       then Inl (HttpPermissionDenied ''destination resolves to a non-public address'')
       else Inr as))"

definition build_client :: "'u url_lib \<Rightarrow> bool \<Rightarrow> 'u \<Rightarrow> http_error + unit" where
  "build_client ul built url =
     rbind (ok_or (HttpInvalid ''URL has no host'') (url_host ul url)) (\<lambda>_.
       if built then Inr () else Inl (HttpInternal ''cannot initialize HTTP client''))"

definition is_credential_header :: "string \<Rightarrow> bool" where
  "is_credential_header name \<longleftrightarrow> List.member [''authorization'', ''proxy-authorization'', ''cookie''] name"

fun prepare_headers :: "http_lib \<Rightarrow> bool \<Rightarrow> http_header list \<Rightarrow> http_error + http_header list" where
  "prepare_headers hl strip [] = Inr []"
| "prepare_headers hl strip (h # hs) =
     rbind (ok_or (HttpInvalid ''header name is malformed'') (header_name hl (hh_name h))) (\<lambda>name.
     if is_hop_by_hop name \<or> strip \<and> is_credential_header name then prepare_headers hl strip hs
     else if \<not> header_value_ok hl (hh_value h) then Inl (HttpInvalid ''header value is malformed'')
     else rbind (prepare_headers hl strip hs) (\<lambda>hs. Inr (\<lparr>hh_name = name, hh_value = hh_value h\<rparr> # hs)))"

definition redirect_target :: "'u url_lib \<Rightarrow> http_lib \<Rightarrow> 'u \<Rightarrow> wire_response \<Rightarrow> http_error + 'u option" where
  "redirect_target ul hl current response =
     (if \<not> (300 \<le> wr_status response \<and> wr_status response < 400) then Inr None
      else case find (\<lambda>h. hh_name h = ''location'') (wr_headers response) of
        None \<Rightarrow> Inr None
      | Some h \<Rightarrow>
        rbind (ok_or (HttpInvalid ''redirect location is not UTF-8'') (header_to_str hl (hh_value h))) (\<lambda>location.
        rbind (ok_or (HttpInvalid ''redirect location is malformed'') (url_join ul current location)) (\<lambda>next_url.
          Inr (Some next_url))))"

section \<open>Sending\<close>

text \<open>The stored body, chunk by chunk; a chunk that cannot be read ends the transfer with an error.\<close>

function body_chunks :: "'s blob_ops \<Rightarrow> 's \<Rightarrow> blob_ref \<Rightarrow> u64 \<Rightarrow> 's \<times> (string + bytes) list" where
  "body_chunks ops s b offset =
     (if offset = blob_size b then (s, [])
      else
        let (s, x) = op_read ops s b offset transfer_chunk_bytes in
        case x of
          Inl e \<Rightarrow> (s, [Inl (blob_error_display e)])
        | Inr chunk \<Rightarrow> (case Option.bind (u64_of_len (length (chunk_bytes chunk))) (checked_add offset) of
            None \<Rightarrow> (s, [Inl ''blob exceeds declared size''])
          | Some stop \<Rightarrow>
            if blob_size b < stop then (s, [Inl ''blob exceeds declared size''])
            else if chunk_bytes chunk = [] then (s, [Inl ''blob ended before its declared size''])
            else let (s, cs) = body_chunks ops s b stop in (s, Inr (chunk_bytes chunk) # cs)))"
  by pat_completeness auto
termination
proof (relation "measure (\<lambda>(ops, s, b, offset). unat (blob_size b) - unat offset)")
  fix b :: blob_ref and offset stop :: u64 and chunk :: blob_chunk
  assume "Option.bind (u64_of_len (length (chunk_bytes chunk))) (checked_add offset) = Some stop"
    and "\<not> blob_size b < stop" and "chunk_bytes chunk \<noteq> []"
  then have "unat offset < unat stop" "unat stop \<le> unat (blob_size b)"
    by (auto simp: bind_eq_Some_conv rust_simps word_less_nat_alt)
  then show "((ops, s', b, stop), (ops, s, b, offset)) \<in> measure (\<lambda>(ops, s, b, offset). unat (blob_size b) - unat offset)" for ops s s'
    by auto
qed auto

declare body_chunks.simps [simp del]

definition prepare_hop ::
  "'u url_lib \<Rightarrow> http_lib \<Rightarrow> 'u network \<Rightarrow> http_grant \<Rightarrow> http_request \<Rightarrow> 'u sent list \<Rightarrow> 'u \<Rightarrow> string \<Rightarrow> bool \<Rightarrow> http_error + 'u sent" where
  "prepare_hop ul hl net g r sent url method strip =
     (if \<not> net_time_left net sent 0 then Inl HttpTimeout
      else rbind (validate_destination ul g url method) (\<lambda>_.
        if \<not> net_time_left net sent 1 then Inl HttpTimeout
        else rbind (resolve_destination ul g (net_lookup net sent) url) (\<lambda>as.
          if \<not> net_time_left net sent 2 then Inl HttpTimeout
          else rbind (build_client ul (net_client net sent) url) (\<lambda>_.
            rbind (prepare_headers hl strip (rq_headers r)) (\<lambda>hs.
              Inr \<lparr>sn_url = url, sn_addresses = as, sn_method = method, sn_headers = hs, sn_body = None\<rparr>)))))"

definition attach_body :: "'s blob_ops \<Rightarrow> 's \<Rightarrow> blob_ref option \<Rightarrow> 'u sent \<Rightarrow> 's \<times> 'u sent" where
  "attach_body ops s body q = (case body of
       None \<Rightarrow> (s, q)
     | Some b \<Rightarrow> let (s, cs) = body_chunks ops s b 0 in (s, q\<lparr>sn_body := Some (blob_size b, cs)\<rparr>))"

text \<open>The method and the body of the request that follows a redirect.\<close>

definition redirected :: "u16 \<Rightarrow> string \<Rightarrow> blob_ref option \<Rightarrow> string \<times> blob_ref option" where
  "redirected status method body =
     (if status = 303 \<or> (status = 301 \<or> status = 302) \<and> method = ''POST'' then (''GET'', None) else (method, body))"

text \<open>The loop; \<open>left\<close> is how many redirects may still be followed.\<close>

primrec open_loop ::
  "'u url_lib \<Rightarrow> http_lib \<Rightarrow> 'u network \<Rightarrow> 's blob_ops \<Rightarrow> http_grant \<Rightarrow> http_request \<Rightarrow> nat \<Rightarrow>
   'u \<Rightarrow> string \<Rightarrow> blob_ref option \<Rightarrow> bool \<Rightarrow> 'u sent list \<Rightarrow> 's \<Rightarrow> 's \<times> 'u sent list \<times> (http_error + wire_response)" where
  "open_loop ul hl net ops g r 0 url method body strip sent s =
     (case prepare_hop ul hl net g r sent url method strip of
        Inl e \<Rightarrow> (s, sent, Inl e)
      | Inr q \<Rightarrow>
        let (s, q) = attach_body ops s body q in
        (s, sent @ [q], rbind (map_err transport_error (net_send net sent q)) (\<lambda>response.
          rbind (redirect_target ul hl url response) (\<lambda>target.
            if target = None then Inr response else Inl (HttpResourceExhausted ''redirect limit exceeded'')))))"
| "open_loop ul hl net ops g r (Suc left) url method body strip sent s =
     (case prepare_hop ul hl net g r sent url method strip of
        Inl e \<Rightarrow> (s, sent, Inl e)
      | Inr q \<Rightarrow>
        let (s, q) = attach_body ops s body q in
        case rbind (map_err transport_error (net_send net sent q)) (\<lambda>response.
            rbind (redirect_target ul hl url response) (\<lambda>target. case target of
                None \<Rightarrow> Inr (response, None)
              | Some next_url \<Rightarrow>
                rbind (canonical_origin ul url) (\<lambda>previous.
                rbind (canonical_origin ul next_url) (\<lambda>following.
                  Inr (response, Some (next_url, previous \<noteq> following)))))) of
          Inl e \<Rightarrow> (s, sent @ [q], Inl e)
        | Inr (response, None) \<Rightarrow> (s, sent @ [q], Inr response)
        | Inr (response, Some (next_url, crossed)) \<Rightarrow>
          let (method, body) = redirected (wr_status response) method body in
          open_loop ul hl net ops g r left next_url method body (strip \<or> crossed) (sent @ [q]) s)"

definition open_response ::
  "'u url_lib \<Rightarrow> http_lib \<Rightarrow> 'u network \<Rightarrow> 's blob_ops \<Rightarrow> http_grant \<Rightarrow> http_request \<Rightarrow> 's \<Rightarrow>
   's \<times> 'u sent list \<times> (http_error + wire_response)" where
  "open_response ul hl net ops g r s = (case prepare_request ul hl g r of
       Inl e \<Rightarrow> (s, [], Inl e)
     | Inr (url, method) \<Rightarrow> open_loop ul hl net ops g r (unat (gr_max_redirects g)) url method (rq_body r) False [] s)"

definition execute ::
  "'u url_lib \<Rightarrow> http_lib \<Rightarrow> 'u network \<Rightarrow> 's blob_ops \<Rightarrow> http_grant \<Rightarrow> http_request \<Rightarrow> 's \<Rightarrow>
   's \<times> 'u sent list \<times> (http_error + http_response)" where
  "execute ul hl net ops g r s =
     (let (s, sent, x) = open_response ul hl net ops g r s in
      case x of
        Inl e \<Rightarrow> (s, sent, Inl e)
      | Inr response \<Rightarrow> let (s, y) = store_response (header_to_str hl) ops s response (gr_max_response_bytes g) in (s, sent, y))"

section \<open>Frames\<close>

record http_frame =
  fr_kind :: string
  fr_data :: bytes

text \<open>A worker that reads a response sends frames to a queue until the reader is gone; \<open>taken k\<close> says whether the \<open>k\<close>th frame is
  still taken. What it read before an error is kept.\<close>

type_synonym frames = "http_frame list \<times> (http_error + unit)"

definition send_frame_to :: "(nat \<Rightarrow> bool) \<Rightarrow> http_frame list \<Rightarrow> http_frame \<Rightarrow> http_error + http_frame list" where
  "send_frame_to taken out f = (if taken (length out) then Inr (out @ [f]) else Inl HttpCancelled)"

fun read_bytes :: "(nat \<Rightarrow> bool) \<Rightarrow> u64 \<Rightarrow> u64 \<Rightarrow> (string + bytes) list \<Rightarrow> http_frame list \<Rightarrow> frames" where
  "read_bytes taken maximum tot [] out = (out, Inr ())"
| "read_bytes taken maximum tot (Inl e # cs) out = (out, Inl (transport_error e))"
| "read_bytes taken maximum tot (Inr c # cs) out =
     (if c = [] then (out, Inr ())
      else case checked_add tot (case u64_of_len (length c) of None \<Rightarrow> - 1 | Some n \<Rightarrow> n) of
        None \<Rightarrow> (out, Inl (HttpResourceExhausted ''stream size overflow''))
      | Some tot \<Rightarrow>
        if maximum < tot then (out, Inl (HttpResourceExhausted ''stream response exceeds grant''))
        else case send_frame_to taken out \<lparr>fr_kind = ''bytes'', fr_data = c\<rparr> of
          Inl e \<Rightarrow> (out, Inl e)
        | Inr out \<Rightarrow> read_bytes taken maximum tot cs out)"

definition trim_line_ending :: "bytes \<Rightarrow> bytes" where
  "trim_line_ending line =
     (let line = (if line \<noteq> [] \<and> last line = CHR 0x0A then butlast line else line)
      in if line \<noteq> [] \<and> last line = CHR 0x0D then butlast line else line)"

definition sse_field :: "bytes \<Rightarrow> bytes \<Rightarrow> bytes option" where
  "sse_field line expected =
     (let name = takeWhile (\<lambda>b. b \<noteq> CHR '':'') line in
      if name = line \<or> name \<noteq> expected then None
      else let v = drop (length name + 1) line in
        Some (case v of b # rest \<Rightarrow> if b = CHR '' '' then rest else v | [] \<Rightarrow> v))"

definition emit_sse_frame :: "(nat \<Rightarrow> bool) \<Rightarrow> string \<Rightarrow> bytes \<Rightarrow> http_frame list \<Rightarrow> http_error + http_frame list" where
  "emit_sse_frame taken event data out =
     (if data = [] then Inr out else send_frame_to taken out \<lparr>fr_kind = event, fr_data = data\<rparr>)"

text \<open>The lines of a response: each ends with its newline, but for the last one of a body that does not; a read error
  takes the place of the line it interrupts.\<close>

definition sse_line ::
  "bytes \<Rightarrow> string \<times> bytes \<Rightarrow> http_error + string \<times> bytes" where
  "sse_line line = (\<lambda>(event, data).
     if line \<noteq> [] \<and> hd line = CHR '':'' then Inr (event, data)
     else case sse_field line ''event'' of
       Some v \<Rightarrow> if from_utf8_lossy v = v then Inr (v, data) else Inl (HttpInvalid ''SSE event name is not UTF-8'')
     | None \<Rightarrow> (case sse_field line ''data'' of
         Some v \<Rightarrow> Inr (event, (if data \<noteq> [] then data @ [CHR 0x0A] else data) @ v)
       | None \<Rightarrow> Inr (event, data)))"

fun parse_sse ::
  "(nat \<Rightarrow> bool) \<Rightarrow> u64 \<Rightarrow> u64 \<Rightarrow> (string + bytes) list \<Rightarrow> string \<times> bytes \<Rightarrow> http_frame list \<Rightarrow> frames" where
  "parse_sse taken maximum tot [] (event, data) out =
     (case emit_sse_frame taken event data out of Inl e \<Rightarrow> (out, Inl e) | Inr out \<Rightarrow> (out, Inr ()))"
| "parse_sse taken maximum tot (Inl e # ls) ed out = (out, Inl (transport_error e))"
| "parse_sse taken maximum tot (Inr line # ls) (event, data) out =
     (case checked_add tot (case u64_of_len (length line) of None \<Rightarrow> - 1 | Some n \<Rightarrow> n) of
        None \<Rightarrow> (out, Inl (HttpResourceExhausted ''stream size overflow''))
      | Some tot \<Rightarrow>
        if maximum < tot then (out, Inl (HttpResourceExhausted ''stream response exceeds grant''))
        else
          let line = trim_line_ending line in
          if line = [] then
            (case emit_sse_frame taken event data out of
               Inl e \<Rightarrow> (out, Inl e)
             | Inr out \<Rightarrow> parse_sse taken maximum tot ls (''message'', []) out)
          else case sse_line line (event, data) of
              Inl e \<Rightarrow> (out, Inl e)
            | Inr ed \<Rightarrow> parse_sse taken maximum tot ls ed out)"

text \<open>The lines of a body that arrived whole.\<close>

function body_lines :: "bytes \<Rightarrow> bytes list" where
  "body_lines bs =
     (if bs = [] then []
      else let line = takeWhile (\<lambda>b. b \<noteq> CHR 0x0A) bs in
        if length line = length bs then [bs] else (line @ [CHR 0x0A]) # body_lines (drop (length line + 1) bs))"
  by pat_completeness auto
termination by (relation "measure length") auto

declare body_lines.simps [simp del]

section \<open>Streams\<close>

datatype http_stream_protocol = ByteStream | ServerSentEvents | WebSocket

text \<open>What reads with a buffer of 64 KiB give, and the lines a response has when a read fails, which loses the line it interrupts.\<close>

function pieces :: "bytes \<Rightarrow> bytes list" where
  "pieces bs = (if bs = [] then [] else take (unat transfer_chunk_bytes) bs # pieces (drop (unat transfer_chunk_bytes) bs))"
  by pat_completeness auto
termination by (relation "measure length") (auto simp: transfer_chunk_bytes_def)

declare pieces.simps [simp del]

fun response_reads :: "(string + bytes) list \<Rightarrow> (string + bytes) list" where
  "response_reads [] = []"
| "response_reads (Inl e # cs) = Inl e # response_reads cs"
| "response_reads (Inr c # cs) = map Inr (pieces c) @ response_reads cs"

fun response_lines :: "bytes \<Rightarrow> (string + bytes) list \<Rightarrow> (string + bytes) list" where
  "response_lines bs [] = map Inr (body_lines bs)"
| "response_lines bs (Inl e # cs) = map Inr (filter (\<lambda>l. last l = CHR 0x0A) (body_lines bs)) @ [Inl e]"
| "response_lines bs (Inr c # cs) = response_lines (bs @ c) cs"

text \<open>All that the worker of a stream puts into its queue.\<close>

definition read_sse :: "(nat \<Rightarrow> bool) \<Rightarrow> u64 \<Rightarrow> wire_response \<Rightarrow> frames" where
  "read_sse taken maximum response = parse_sse taken maximum 0 (response_lines [] (wr_chunks response)) (''message'', []) []"

definition stream_worker :: "(nat \<Rightarrow> bool) \<Rightarrow> http_stream_protocol \<Rightarrow> u64 \<Rightarrow> wire_response \<Rightarrow> (http_error + http_frame) list" where
  "stream_worker taken protocol maximum response =
     (let (out, r) = (if protocol = ByteStream then read_bytes taken maximum 0 (response_reads (wr_chunks response)) []
            else read_sse taken maximum response)
      in map Inr out @ (case r of Inl e \<Rightarrow> if taken (length out) then [Inl e] else [] | Inr _ \<Rightarrow> []))"

record http_frame_page =
  fp_frames :: "http_frame list"
  fp_closed :: bool

record http_streaming_response =
  sr_status :: u16
  sr_headers :: "http_header list"
  sr_stream :: string

text \<open>The queue holds what the worker sent and no one received yet; it has ended when the worker is done.\<close>

record active_stream =
  st_component :: principal_ref
  st_queue :: "(http_error + http_frame) list"
  st_ended :: bool
  st_closed :: bool

record http_service =
  sv_streams :: "string \<rightharpoonup> active_stream"
  sv_next :: u64

definition start_stream :: "http_grant \<Rightarrow> wire_response \<Rightarrow> http_service \<Rightarrow> http_service \<times> (http_error + string)" where
  "start_stream g response sv =
     (if is_some_and (\<lambda>n. gr_max_response_bytes g < n) (wr_content_length response)
      then (sv, Inl (HttpResourceExhausted ''stream response exceeds grant''))
      else
        let i = ''http-stream-'' @ show_u64 (sv_next sv) in
        (sv\<lparr>sv_next := sv_next sv + 1, sv_streams := (sv_streams sv)(i \<mapsto>
           \<lparr>st_component = gr_component g, st_queue = [], st_ended = False, st_closed = False\<rparr>)\<rparr>, Inr i))"

definition start_response ::
  "'u url_lib \<Rightarrow> http_lib \<Rightarrow> 'u network \<Rightarrow> 's blob_ops \<Rightarrow> http_grant \<Rightarrow> http_request \<Rightarrow> 's \<Rightarrow> http_service \<Rightarrow>
   's \<times> http_service \<times> (http_error + http_streaming_response)" where
  "start_response ul hl net ops g r s sv =
     (let (s, sent, x) = open_response ul hl net ops g r s in
      case x of
        Inl e \<Rightarrow> (s, sv, Inl e)
      | Inr response \<Rightarrow>
        let hs = filter (\<lambda>h. \<not> is_hop_by_hop (hh_name h)) (wr_headers response) in
        if max_header_bytes < header_bytes hs then (s, sv, Inl (HttpResourceExhausted ''response headers exceed 64 KiB''))
        else let (sv, y) = start_stream g response sv in
          (s, sv, rbind y (\<lambda>i. Inr \<lparr>sr_status = wr_status response, sr_headers = hs, sr_stream = i\<rparr>)))"

text \<open>What an endpoint says about an error, without control characters and cut to 512 characters.\<close>

definition is_control :: "bytes \<Rightarrow> bool" where
  "is_control c \<longleftrightarrow> (case map byte_val c of [a] \<Rightarrow> a < 32 \<or> a = 127 | [a, b] \<Rightarrow> a = 194 \<and> b < 160 | _ \<Rightarrow> False)"

function words_of :: "bytes list \<Rightarrow> string list" where
  "words_of [] = []"
| "words_of (c # cs) =
     (if is_whitespace c then words_of cs
      else concat (takeWhile (\<lambda>c. \<not> is_whitespace c) (c # cs)) # words_of (dropWhile (\<lambda>c. \<not> is_whitespace c) cs))"
  by pat_completeness auto
termination by (relation "measure length") (auto simp: less_Suc_eq_le length_dropWhile_le)

fun join_with :: "string \<Rightarrow> string list \<Rightarrow> string" where
  "join_with sep [] = []"
| "join_with sep [x] = x"
| "join_with sep (x # xs) = x @ sep @ join_with sep xs"

definition safe_error_detail :: "string \<Rightarrow> string" where
  "safe_error_detail detail = join_with '' '' (words_of (utf8_chunks (concat
     (take 512 (filter (\<lambda>c. \<not> is_control c \<or> is_whitespace c) (utf8_chunks detail))))))"

definition stream_status_error :: "serde \<Rightarrow> u16 \<Rightarrow> bytes \<Rightarrow> http_error" where
  "stream_status_error sd status body =
     (if status = 401 \<or> status = 403 then HttpAuthenticationRequired
      else
        let found = Option.bind (ok_opt (from_slice sd body)) (\<lambda>v.
              map_option safe_error_detail (Option.bind (find (\<lambda>p. Option.bind (json_pointer sd v p) as_str \<noteq> None)
                  [''/error/message'', ''/detail'', ''/message'']) (\<lambda>p. Option.bind (json_pointer sd v p) as_str)));
            suffix = (case found of Some d \<Rightarrow> if d = [] then [] else '': '' @ d | None \<Rightarrow> [])
        in HttpUnavailable (''stream endpoint returned HTTP '' @ show_nat (unat status) @ suffix))"

fun limited_body :: "u64 \<Rightarrow> (string + bytes) list \<Rightarrow> bytes \<Rightarrow> http_error + bytes" where
  "limited_body maximum [] body = Inr body"
| "limited_body maximum (Inl e # cs) body = Inl (transport_error e)"
| "limited_body maximum (Inr c # cs) body =
     (let body = body @ take (unat maximum - length body) c in
      if unat maximum \<le> length body then Inr body else limited_body maximum cs body)"

definition open_stream ::
  "serde \<Rightarrow> 'u url_lib \<Rightarrow> http_lib \<Rightarrow> 'u network \<Rightarrow> 's blob_ops \<Rightarrow> http_grant \<Rightarrow> http_stream_protocol \<Rightarrow> http_request \<Rightarrow> 's \<Rightarrow> http_service \<Rightarrow>
   's \<times> http_service \<times> (http_error + string)" where
  "open_stream sd ul hl net ops g protocol r s sv =
     (if protocol = WebSocket then (s, sv, Inl (HttpUnsupported ''WebSocket transport is not implemented''))
      else
        let (s, sent, x) = open_response ul hl net ops g r s in
        case x of
          Inl e \<Rightarrow> (s, sv, Inl e)
        | Inr response \<Rightarrow>
          if \<not> (200 \<le> wr_status response \<and> wr_status response < 300)
          then (s, sv, Inl (stream_status_error sd (wr_status response)
            (case limited_body (64 * 1024) (wr_chunks response) [] of Inl _ \<Rightarrow> [] | Inr b \<Rightarrow> b)))
          else let (sv, y) = start_stream g response sv in (s, sv, y))"

definition ensure_stream_owner :: "active_stream \<Rightarrow> http_grant \<Rightarrow> http_error + unit" where
  "ensure_stream_owner st g = (if st_component st = gr_component g then Inr ()
     else Inl (HttpPermissionDenied ''stream belongs to another component''))"

text \<open>What a reader that finds the queue empty waits for.\<close>

datatype arrival = NothingArrives | Arrives "http_error + http_frame" | Ends

text \<open>Taking what is there: a failed frame is returned as the error, whatever was taken before it.\<close>

fun drain :: "nat \<Rightarrow> (http_error + http_frame) list \<Rightarrow> bool \<Rightarrow> http_frame list \<Rightarrow> (http_error + http_frame) list \<times> (http_error + http_frame list \<times> bool)" where
  "drain 0 q ended frames = (q, Inr (frames, False))"
| "drain (Suc n) [] ended frames = ([], Inr (frames, ended))"
| "drain (Suc n) (Inl e # q) ended frames = (q, Inl e)"
| "drain (Suc n) (Inr f # q) ended frames = drain n q ended (frames @ [f])"

definition receive ::
  "http_grant \<Rightarrow> string \<Rightarrow> u32 \<Rightarrow> u32 \<Rightarrow> arrival \<Rightarrow> http_service \<Rightarrow> http_service \<times> (http_error + http_frame_page)" where
  "receive g i max_frames timeout_ms waiting sv =
     (if max_frames = 0 \<or> 256 < max_frames then (sv, Inl (HttpInvalid ''max frames must be between 1 and 256''))
      else if gr_max_timeout_ms g < timeout_ms then (sv, Inl (HttpPermissionDenied ''stream receive timeout exceeds grant''))
      else case rbind (ok_or (HttpNotFound ''stream'') (sv_streams sv i)) (\<lambda>st. rbind (ensure_stream_owner st g) (\<lambda>_. Inr st)) of
        Inl e \<Rightarrow> (sv, Inl e)
      | Inr st \<Rightarrow>
        if st_closed st then (sv, Inr \<lparr>fp_frames = [], fp_closed = True\<rparr>)
        else if st_queue st = [] \<and> \<not> st_ended st \<and> waiting = NothingArrives then (sv, Inr \<lparr>fp_frames = [], fp_closed = False\<rparr>)
        else
          let (q, ended) = (if st_queue st \<noteq> [] \<or> st_ended st then (st_queue st, st_ended st)
                else case waiting of Arrives x \<Rightarrow> ([x], False) | _ \<Rightarrow> ([], True));
              (q, x) = drain (unat max_frames) q ended []
          in case x of
               Inl e \<Rightarrow> (sv\<lparr>sv_streams := (sv_streams sv)(i \<mapsto> st\<lparr>st_queue := q, st_ended := ended\<rparr>)\<rparr>, Inl e)
             | Inr (fs, done') \<Rightarrow> (sv\<lparr>sv_streams := (sv_streams sv)(i \<mapsto> st\<lparr>st_queue := q, st_ended := ended, st_closed := done'\<rparr>)\<rparr>,
                 Inr \<lparr>fp_frames = fs, fp_closed = done'\<rparr>))"

definition send_frame :: "http_grant \<Rightarrow> string \<Rightarrow> http_service \<Rightarrow> http_error + unit" where
  "send_frame g i sv =
     rbind (ok_or (HttpNotFound ''stream'') (sv_streams sv i)) (\<lambda>st.
     rbind (ensure_stream_owner st g) (\<lambda>_. Inl (HttpUnsupported ''SSE streams are receive-only'')))"

definition close_stream :: "http_grant \<Rightarrow> string \<Rightarrow> http_service \<Rightarrow> http_service" where
  "close_stream g i sv =
     (if is_some_and (\<lambda>st. st_component st = gr_component g) (sv_streams sv i)
      then sv\<lparr>sv_streams := (sv_streams sv)(i := None)\<rparr> else sv)"

section \<open>Exchanges outside the durable store\<close>

text \<open>The body of an exchange is put into a store in memory, which also takes the response.\<close>

definition inline_body :: "'s blob_ops \<Rightarrow> 's \<Rightarrow> bytes \<Rightarrow> 's \<times> (http_error + blob_ref option)" where
  "inline_body ops s bs =
     (if bs = [] then (s, Inr None)
      else
        let (s, x) = op_begin_put ops s ''application/json'' (Some (of_nat (length bs))) in
        case x of
          Inl e \<Rightarrow> (s, Inl (http_blob_error e))
        | Inr upload \<Rightarrow>
          let (s, y) = op_write ops s upload 0 bs in
          case y of
            Inl e \<Rightarrow> (s, Inl (http_blob_error e))
          | Inr _ \<Rightarrow> let (s, z) = op_finish_put ops s upload in (s, map_err http_blob_error (rbind z (\<lambda>b. Inr (Some b)))))"

partial_function (option) inline_read :: "'s blob_ops \<Rightarrow> 's \<Rightarrow> blob_ref \<Rightarrow> bytes \<Rightarrow> (http_error + bytes) option" where
  "inline_read ops s b bs =
     (if blob_size b \<le> of_nat (length bs) then Some (Inr bs)
      else case op_read ops s b (of_nat (length bs)) (64 * 1024) of
        (s, Inl e) \<Rightarrow> Some (Inl (http_blob_error e))
      | (s, Inr chunk) \<Rightarrow> inline_read ops s b (bs @ chunk_bytes chunk))"

definition exchange_inline ::
  "(bytes \<Rightarrow> bytes) \<Rightarrow> 'u url_lib \<Rightarrow> http_lib \<Rightarrow> 'u network \<Rightarrow> http_grant \<Rightarrow> string \<Rightarrow> string \<Rightarrow> http_header list \<Rightarrow> bytes \<Rightarrow> u32 \<Rightarrow>
   ('u sent list \<times> (http_error + u16 \<times> bytes)) option" where
  "exchange_inline sha ul hl net g method url headers bs timeout_ms =
     (if gr_max_request_bytes g < of_nat (length bs) then Some ([], Inl (HttpInvalid ''request too large''))
      else
        let (s, x) = inline_body (mem_ops sha) (new_memory_blobs (64 * 1024 * 1024)) bs in
        case x of
          Inl e \<Rightarrow> Some ([], Inl e)
        | Inr body \<Rightarrow>
          let (s, sent, y) = execute ul hl net (mem_ops sha) g
                \<lparr>rq_method = method, rq_url = url, rq_headers = headers, rq_body = body, rq_timeout_ms = timeout_ms\<rparr> s in
          case y of
            Inl e \<Rightarrow> Some (sent, Inl e)
          | Inr response \<Rightarrow> map_option (\<lambda>z. (sent, rbind z (\<lambda>bs. Inr (hr_status response, bs))))
              (inline_read (mem_ops sha) s (hr_body response) []))"

end
