(* ===== verification/Http_Facts.thy ===== *)
theory Http_Facts
  imports Http_Policy
begin

text \<open>
  What the HTTP host guarantees: every request it sends, redirects included, stays within the grant and carries credentials
  only to the origin it began with; a body that is sent is the stored one; a stream is received only by its owner;
  and the frames of server-sent events are read as they were written, within the size that was granted.
\<close>

section \<open>Requests stay within the grant\<close>

text \<open>The bytes of the chunks that were read.\<close>

definition oks :: "(string + bytes) list \<Rightarrow> bytes list" where
  "oks cs = concat (map (\<lambda>c. case c of Inl _ \<Rightarrow> [] | Inr b \<Rightarrow> [b]) cs)"

lemma oks_simps [simp]: "oks [] = []" "oks (Inl e # cs) = oks cs" "oks (Inr b # cs) = b # oks cs"
  by (simp_all add: oks_def)

lemma body_chunks_bound:
  "body_chunks ops s b offset = (s', cs) \<Longrightarrow> unat offset \<le> unat (blob_size b) \<Longrightarrow>
     unat offset + sum_list (map length (oks cs)) \<le> unat (blob_size b)"
proof (induction ops s b offset arbitrary: s' cs rule: body_chunks.induct)
  case (1 ops s b offset)
  show ?case
  proof (cases "offset = blob_size b")
    case True
    have "cs = []" using 1(2)[unfolded body_chunks.simps[of ops s b offset]] True by simp
    with 1(3) show ?thesis by simp
  next
    case False
    obtain s1 x where x: "op_read ops s b offset transfer_chunk_bytes = (s1, x)" by fastforce
    show ?thesis
    proof (cases "\<exists>c stop. x = Inr c \<and> Option.bind (u64_of_len (length (chunk_bytes c))) (checked_add offset) = Some stop \<and>
        \<not> blob_size b < stop \<and> chunk_bytes c \<noteq> []")
      case True
      then obtain c stop where c: "x = Inr c" "Option.bind (u64_of_len (length (chunk_bytes c))) (checked_add offset) = Some stop"
        "\<not> blob_size b < stop" "chunk_bytes c \<noteq> []" by blast
      obtain s2 ds where ds: "body_chunks ops s1 b stop = (s2, ds)" by fastforce
      have cs: "cs = Inr (chunk_bytes c) # ds" using 1(2) False x c ds by (simp add: body_chunks.simps[of ops s b offset])
      have stop: "unat stop = unat offset + length (chunk_bytes c)" "unat stop \<le> unat (blob_size b)"
        using c(2,3) by (auto simp: bind_eq_Some_conv rust_simps word_less_nat_alt)
      from 1(1)[OF False x[symmetric] refl c(1,2,3,4) ds stop(2)] stop(1) show ?thesis by (simp add: cs)
    next
      case 2: False
      with 1(2,3) False x show ?thesis
        by (auto simp: body_chunks.simps[of ops s b offset] split: sum.splits option.splits if_splits)
    qed
  qed
qed

definition hop_ok :: "'u url_lib \<Rightarrow> http_lib \<Rightarrow> http_grant \<Rightarrow> http_request \<Rightarrow> 'u sent \<Rightarrow> bool" where
  "hop_ok ul hl g r q \<longleftrightarrow>
     (url_scheme ul (sn_url q) = ''https'' \<or> url_scheme ul (sn_url q) = ''http'' \<and> gr_allow_http g) \<and>
     (\<exists>o'. canonical_origin ul (sn_url q) = Inr o' \<and> origin_granted ul g o') \<and> method_granted g (sn_method q) \<and>
     sn_addresses q \<noteq> [] \<and> (gr_allow_private g \<or> (\<forall>a \<in> set (sn_addresses q). is_public_address a)) \<and>
     (\<forall>h \<in> set (sn_headers q). \<not> is_hop_by_hop (hh_name h) \<and>
        (\<exists>h' \<in> set (rq_headers r). header_name hl (hh_name h') = Some (hh_name h) \<and> hh_value h' = hh_value h)) \<and>
     (\<forall>n cs. sn_body q = Some (n, cs) \<longrightarrow> n \<le> gr_max_request_bytes g \<and> sum_list (map length (oks cs)) \<le> unat n)"

text \<open>Credentials are sent only while every request so far went to the origin of the first.\<close>

definition credentials_home :: "'u url_lib \<Rightarrow> 'u sent list \<Rightarrow> bool" where
  "credentials_home ul sent \<longleftrightarrow> (\<forall>i < length sent. list_ex (\<lambda>h. is_credential_header (hh_name h)) (sn_headers (sent ! i)) \<longrightarrow>
     (\<forall>j \<le> i. url_origin ul (sn_url (sent ! j)) = url_origin ul (sn_url (sent ! 0))))"

lemma credentials_home_snoc:
  assumes "credentials_home ul sent"
    and "list_ex (\<lambda>h. is_credential_header (hh_name h)) (sn_headers q) \<Longrightarrow> \<forall>p \<in> set sent. url_origin ul (sn_url p) = url_origin ul (sn_url q)"
  shows "credentials_home ul (sent @ [q])"
  unfolding credentials_home_def
proof (intro allI impI)
  fix i j
  assume i: "i < length (sent @ [q])" and cred: "list_ex (\<lambda>h. is_credential_header (hh_name h)) (sn_headers ((sent @ [q]) ! i))" and j: "j \<le> i"
  show "url_origin ul (sn_url ((sent @ [q]) ! j)) = url_origin ul (sn_url ((sent @ [q]) ! 0))"
  proof (cases "i < length sent")
    case True
    with cred have "list_ex (\<lambda>h. is_credential_header (hh_name h)) (sn_headers (sent ! i))" by (simp add: nth_append)
    then have "url_origin ul (sn_url (sent ! j)) = url_origin ul (sn_url (sent ! 0))"
      using assms(1) True j unfolding credentials_home_def by blast
    moreover have "(sent @ [q]) ! j = sent ! j" "(sent @ [q]) ! 0 = sent ! 0" using True j by (auto simp: nth_append)
    ultimately show ?thesis by simp
  next
    case False
    then have "i = length sent" using i by simp
    with cred have all: "\<forall>p \<in> set sent. url_origin ul (sn_url p) = url_origin ul (sn_url q)" using assms(2) by simp
    have "url_origin ul (sn_url ((sent @ [q]) ! k)) = url_origin ul (sn_url q)" if "k \<le> length sent" for k
      using all that by (auto simp: nth_append)
    from this[of j] this[of 0] j \<open>i = length sent\<close> show ?thesis by simp
  qed
qed

lemma prepare_headers_sent:
  "prepare_headers hl strip hs = Inr out \<Longrightarrow> h \<in> set out \<Longrightarrow> \<not> is_hop_by_hop (hh_name h) \<and> (strip \<longrightarrow> \<not> is_credential_header (hh_name h)) \<and>
     (\<exists>h' \<in> set hs. header_name hl (hh_name h') = Some (hh_name h) \<and> hh_value h' = hh_value h)"
proof (induction hs arbitrary: out)
  case Nil
  then show ?case by simp
next
  case (Cons k hs)
  obtain name where name: "header_name hl (hh_name k) = Some name" using Cons.prems(1) by auto
  obtain rest where rest: "prepare_headers hl strip hs = Inr rest"
    and out: "out = rest \<or> \<not> is_hop_by_hop name \<and> \<not> (strip \<and> is_credential_header name) \<and> out = \<lparr>hh_name = name, hh_value = hh_value k\<rparr> # rest"
    using Cons.prems(1) name by (auto split: if_splits)
  from Cons.IH[OF rest] out name Cons.prems(2) show ?case by (cases "h \<in> set rest") auto
qed

lemma validate_destination_Inr:
  "validate_destination ul g url m = Inr o' \<Longrightarrow> (url_scheme ul url = ''https'' \<or> url_scheme ul url = ''http'' \<and> gr_allow_http g) \<and>
     canonical_origin ul url = Inr o' \<and> origin_granted ul g o' \<and> method_granted g m"
  by (auto simp: validate_destination_def split: if_splits)

lemma resolve_destination_Inr:
  "resolve_destination ul g lu url = Inr as \<Longrightarrow> as \<noteq> [] \<and> (gr_allow_private g \<or> (\<forall>a \<in> set as. is_public_address a))"
proof -
  assume r: "resolve_destination ul g lu url = Inr as"
  obtain h p where h: "url_host ul url = Some h" "url_port ul url = Some p" using r by (auto simp: resolve_destination_def)
  show ?thesis using r by (cases "lu h p") (auto simp: resolve_destination_def h list_ex_iff split: if_splits)
qed

lemma prepare_hop_Inr:
  assumes "prepare_hop ul hl net g r sent url verb strip = Inr q"
  shows "hop_ok ul hl g r q" and "sn_url q = url" and "strip \<Longrightarrow> \<not> list_ex (\<lambda>h. is_credential_header (hh_name h)) (sn_headers q)"
    and "sn_body q = None"
proof -
  obtain o' as hs where o: "validate_destination ul g url verb = Inr o'" and as: "resolve_destination ul g (net_lookup net sent) url = Inr as"
    and hs: "prepare_headers hl strip (rq_headers r) = Inr hs"
    and q: "q = \<lparr>sn_url = url, sn_addresses = as, sn_method = verb, sn_headers = hs, sn_body = None\<rparr>"
    using assms by (auto simp: prepare_hop_def split: if_splits)
  show "hop_ok ul hl g r q" unfolding hop_ok_def q
    using validate_destination_Inr[OF o] resolve_destination_Inr[OF as] prepare_headers_sent[OF hs] by auto
  show "sn_url q = url" "sn_body q = None" by (simp_all add: q)
  show "\<not> list_ex (\<lambda>h. is_credential_header (hh_name h)) (sn_headers q)" if strip
    using prepare_headers_sent[OF hs] that by (auto simp: q list_ex_iff)
qed

lemma attach_body_ok:
  assumes "attach_body ops s body q = (s', q')" "hop_ok ul hl g r q" "is_none_or (\<lambda>b. blob_size b \<le> gr_max_request_bytes g) body"
    "sn_body q = None"
  shows "hop_ok ul hl g r q'" and "sn_url q' = sn_url q" and "sn_headers q' = sn_headers q"
proof -
  have "hop_ok ul hl g r q' \<and> sn_url q' = sn_url q \<and> sn_headers q' = sn_headers q"
  proof (cases body)
    case None
    with assms show ?thesis by (simp add: attach_body_def)
  next
    case (Some b)
    obtain s1 cs where cs: "body_chunks ops s b 0 = (s1, cs)" by fastforce
    have "sum_list (map length (oks cs)) \<le> unat (blob_size b)" using body_chunks_bound[OF cs] by simp
    with assms Some cs show ?thesis by (auto simp: attach_body_def hop_ok_def)
  qed
  then show "hop_ok ul hl g r q'" "sn_url q' = sn_url q" "sn_headers q' = sn_headers q" by simp_all
qed

definition confined_trace :: "'u url_lib \<Rightarrow> http_lib \<Rightarrow> http_grant \<Rightarrow> http_request \<Rightarrow> 'u sent list \<Rightarrow> bool" where
  "confined_trace ul hl g r sent \<longleftrightarrow> (\<forall>q \<in> set sent. hop_ok ul hl g r q) \<and> credentials_home ul sent"

lemma hop_trace:
  assumes "confined_trace ul hl g r sent" "prepare_hop ul hl net g r sent url verb strip = Inr q" "attach_body ops s body q = (s', q')"
    "is_none_or (\<lambda>b. blob_size b \<le> gr_max_request_bytes g) body" "\<not> strip \<Longrightarrow> \<forall>p \<in> set sent. url_origin ul (sn_url p) = url_origin ul url"
  shows "confined_trace ul hl g r (sent @ [q'])" and "sn_url q' = url"
proof -
  note h = prepare_hop_Inr[OF assms(2)]
  note b = attach_body_ok[OF assms(3) h(1) assms(4) h(4)]
  show "sn_url q' = url" using b(2) h(2) by simp
  have "credentials_home ul (sent @ [q'])"
  proof (rule credentials_home_snoc)
    show "credentials_home ul sent" using assms(1) by (simp add: confined_trace_def)
    show "\<forall>p \<in> set sent. url_origin ul (sn_url p) = url_origin ul (sn_url q')" if "list_ex (\<lambda>h. is_credential_header (hh_name h)) (sn_headers q')"
      using that h(2,3) b(2,3) assms(5) by (cases strip) auto
  qed
  then show "confined_trace ul hl g r (sent @ [q'])" using assms(1) b(1) by (simp add: confined_trace_def)
qed

lemma same_canonical: "canonical_origin ul a = Inr o' \<Longrightarrow> canonical_origin ul b = Inr o' \<Longrightarrow> url_origin ul a = url_origin ul b"
  by (auto simp: canonical_origin_def split: if_splits)

lemma redirected_body: "redirected st m body = (m', body') \<Longrightarrow> body' = None \<or> body' = body"
  by (auto simp: redirected_def split: if_splits)

lemma open_loop_Suc:
  assumes "open_loop ul hl net ops g r (Suc left) url verb body strip sent s = (s', sent', x)"
    "prepare_hop ul hl net g r sent url verb strip = Inr q" "attach_body ops s body q = (sb, q')"
  shows "s' = sb \<and> sent' = sent @ [q'] \<or>
    (\<exists>nurl m b crossed. open_loop ul hl net ops g r left nurl m b (strip \<or> crossed) (sent @ [q']) sb = (s', sent', x) \<and>
       (b = None \<or> b = body) \<and> (\<not> crossed \<longrightarrow> url_origin ul url = url_origin ul nurl))"
proof -
  let ?next = "rbind (map_err transport_error (net_send net sent q')) (\<lambda>response.
      rbind (redirect_target ul hl url response) (\<lambda>target. case target of
          None \<Rightarrow> Inr (response, None)
        | Some next_url \<Rightarrow>
          rbind (canonical_origin ul url) (\<lambda>previous.
          rbind (canonical_origin ul next_url) (\<lambda>following.
            Inr (response, Some (next_url, previous \<noteq> following))))))"
  show ?thesis
  proof (cases "\<exists>resp nurl crossed. ?next = Inr (resp, Some (nurl, crossed))")
    case False
    then show ?thesis using assms by (auto split: sum.splits option.splits prod.splits)
  next
    case True
    then obtain resp nurl crossed where nx: "?next = Inr (resp, Some (nurl, crossed))" by blast
    obtain m b where mb: "redirected (wr_status resp) verb body = (m, b)" by fastforce
    have "open_loop ul hl net ops g r left nurl m b (strip \<or> crossed) (sent @ [q']) sb = (s', sent', x)"
      using assms nx mb by simp
    moreover have "url_origin ul url = url_origin ul nurl" if "\<not> crossed"
      using nx that same_canonical[of ul url _ nurl] by (auto split: option.splits)
    ultimately show ?thesis using redirected_body[OF mb] by blast
  qed
qed

lemma open_loop_confined:
  assumes "confined_trace ul hl g r sent" "is_none_or (\<lambda>b. blob_size b \<le> gr_max_request_bytes g) body"
    "\<not> strip \<Longrightarrow> \<forall>p \<in> set sent. url_origin ul (sn_url p) = url_origin ul url"
    "open_loop ul hl net ops g r left url verb body strip sent s = (s', sent', x)"
  shows "confined_trace ul hl g r sent' \<and> length sent' \<le> length sent + Suc left"
  using assms
proof (induction left arbitrary: url verb body strip sent s)
  case 0
  show ?case
  proof (cases "prepare_hop ul hl net g r sent url verb strip")
    case (Inl e)
    with 0 show ?thesis by simp
  next
    case (Inr q)
    obtain s1 q' where q': "attach_body ops s body q = (s1, q')" by fastforce
    have "sent' = sent @ [q']" using 0(4) Inr q' by simp
    with hop_trace(1)[OF 0(1) Inr q' 0(2,3)] show ?thesis by simp
  qed
next
  case (Suc left)
  show ?case
  proof (cases "prepare_hop ul hl net g r sent url verb strip")
    case (Inl e)
    with Suc.prems show ?thesis by simp
  next
    case (Inr q)
    obtain s1 q' where q': "attach_body ops s body q = (s1, q')" by fastforce
    note tr = hop_trace[OF Suc.prems(1) Inr q' Suc.prems(2,3)]
    from open_loop_Suc[OF Suc.prems(4) Inr q'] show ?thesis
    proof
      assume "s' = s1 \<and> sent' = sent @ [q']"
      with tr(1) show ?thesis by simp
    next
      assume "\<exists>nurl m b crossed. open_loop ul hl net ops g r left nurl m b (strip \<or> crossed) (sent @ [q']) s1 = (s', sent', x) \<and>
          (b = None \<or> b = body) \<and> (\<not> crossed \<longrightarrow> url_origin ul url = url_origin ul nurl)"
      then obtain nurl m b crossed where go: "open_loop ul hl net ops g r left nurl m b (strip \<or> crossed) (sent @ [q']) s1 = (s', sent', x)"
        and b: "b = None \<or> b = body" and same: "\<not> crossed \<Longrightarrow> url_origin ul url = url_origin ul nurl" by blast
      have "\<forall>p \<in> set (sent @ [q']). url_origin ul (sn_url p) = url_origin ul nurl" if "\<not> (strip \<or> crossed)"
        using Suc.prems(3) that same tr(2) by auto
      from Suc.IH[OF tr(1) _ this go] b Suc.prems(2) show ?thesis by auto
    qed
  qed
qed

lemma open_response_confined:
  assumes "open_response ul hl net ops g r s = (s', sent, x)"
  shows "confined_trace ul hl g r sent \<and> length sent \<le> Suc (unat (gr_max_redirects g))" and "length sent \<le> 6"
proof -
  have "confined_trace ul hl g r sent \<and> length sent \<le> Suc (unat (gr_max_redirects g)) \<and> length sent \<le> 6"
  proof (cases "prepare_request ul hl g r")
    case (Inl e)
    with assms show ?thesis by (auto simp: open_response_def confined_trace_def credentials_home_def)
  next
    case (Inr p)
    obtain url m where p: "p = (url, m)" by (cases p)
    have body: "is_none_or (\<lambda>b. blob_size b \<le> gr_max_request_bytes g) (rq_body r)" and red: "gr_max_redirects g \<le> 5"
      using Inr by (auto simp: prepare_request_def p max_redirects_def not_less is_some_and_def is_none_or_def split: if_splits option.splits)
    have "unat (gr_max_redirects g) \<le> 5" using red by (simp add: word_le_nat_alt)
    moreover have start: "confined_trace ul hl g r []" by (simp add: confined_trace_def credentials_home_def)
    moreover have "open_loop ul hl net ops g r (unat (gr_max_redirects g)) url m (rq_body r) False [] s = (s', sent, x)"
      using assms Inr p by (simp add: open_response_def)
    ultimately show ?thesis using open_loop_confined[OF start body] by fastforce
  qed
  then show "confined_trace ul hl g r sent \<and> length sent \<le> Suc (unat (gr_max_redirects g))" "length sent \<le> 6" by simp_all
qed

section \<open>The stored body is sent\<close>

definition whole_body :: "bytes \<Rightarrow> 'u sent \<Rightarrow> bool" where
  "whole_body b q \<longleftrightarrow> is_none_or (\<lambda>(n, cs). unat n = length b \<and> (\<exists>ps. cs = map Inr ps \<and> concat ps = b)) (sn_body q)"

lemma advance_len:
  assumes "unat (off :: u64) + n < 2 ^ 64"
  shows "u64_of_len n = Some (of_nat n)" and "checked_add off (of_nat n) = Some (off + of_nat n)"
    and "unat (off + of_nat n) = unat off + n"
proof -
  have n: "n < 2 ^ 64" using assms by simp
  then have u: "unat (of_nat n :: u64) = n" by (simp add: unat_of_nat)
  show "u64_of_len n = Some (of_nat n)" using n by (simp add: u64_of_len_def)
  show "checked_add off (of_nat n) = Some (off + of_nat n)" using assms u by (simp add: checked_add_def)
  show "unat (off + of_nat n) = unat off + n" using assms u by (simp add: unat_word_ariths)
qed

context blob_store begin

lemma body_chunks_exact:
  assumes "invar s" "stored s (digest r) = Some b" "validate_blob_ref r = Inr ()" "unat (blob_size r) = length b" "unat off \<le> length b"
    "body_chunks ops s r off = (s', cs)"
  shows "(\<exists>ps. cs = map Inr ps \<and> concat ps = drop (unat off) b) \<and> invar s' \<and> stored s' = stored s"
  using assms
proof (induction "length b - unat off" arbitrary: s off cs rule: less_induct)
  case less
  show ?case
  proof (cases "off = blob_size r")
    case True
    have "s' = s \<and> cs = []" using less.prems(6)[unfolded body_chunks.simps[of ops s r off]] True by simp
    then show ?thesis using less.prems True by auto
  next
    case False
    then have lt: "unat off < length b" using less.prems(4,5) by (metis le_neq_implies_less word_unat_eq_iff)
    let ?c = "take (unat transfer_chunk_bytes) (drop (unat off) b)"
    have n: "0 < unat transfer_chunk_bytes" by (simp add: transfer_chunk_bytes_def)
    obtain s1 where rd: "op_read ops s r off transfer_chunk_bytes =
        (s1, Inr \<lparr>chunk_bytes = ?c, eof = (length b \<le> unat off + unat transfer_chunk_bytes)\<rparr>)"
      and s1: "stored s1 = stored s" "invar s1"
      using read_ok[OF less.prems(1,2,3,4,5), of transfer_chunk_bytes] by blast
    have lb: "length b < 2 ^ 64" using unat_u64_less[of "blob_size r"] less.prems(4) by simp
    define stop where "stop = off + of_nat (length ?c)"
    have small: "unat off + length ?c < 2 ^ 64" using lt lb by simp
    have us: "unat stop = unat off + length ?c" unfolding stop_def by (rule advance_len(3)[OF small])
    have stop: "Option.bind (u64_of_len (length ?c)) (checked_add off) = Some stop"
      unfolding stop_def advance_len(1)[OF small] bind.simps by (rule advance_len(2)[OF small])
    have nl: "\<not> blob_size r < stop" using us less.prems(4) lt by (simp add: word_less_nat_alt)
    have ne: "?c \<noteq> []" using lt n by simp
    obtain s2 ds where ds: "body_chunks ops s1 r stop = (s2, ds)" by fastforce
    have eq: "s' = s2" "cs = Inr ?c # ds"
      using less.prems(6)[unfolded body_chunks.simps[of ops s r off]] False rd stop nl ne ds by simp_all
    have "length b - unat stop < length b - unat off" using us lt n by simp
    note dec = this
    have le: "unat stop \<le> length b" using us lt by simp
    have st: "stored s1 (digest r) = Some b" using s1(1) less.prems(2) by simp
    obtain ps where ps: "ds = map Inr ps" "concat ps = drop (unat stop) b" "invar s'" "stored s' = stored s"
      using less.hyps[OF dec s1(2) st less.prems(3,4) le ds[folded eq(1)]] s1(1) by auto
    have "drop (unat stop) b = drop (length ?c) (drop (unat off) b)" by (simp add: us add.commute)
    moreover have "?c @ drop (length ?c) (drop (unat off) b) = drop (unat off) b" by (metis append_eq_conv_conj append_take_drop_id)
    ultimately have "?c @ drop (unat stop) b = drop (unat off) b" by simp
    with ps eq(2) show ?thesis by (intro conjI exI[of _ "?c # ps"]) simp_all
  qed
qed

lemma attach_body_whole:
  assumes "invar s" "stored s (digest r) = Some b" "validate_blob_ref r = Inr ()" "unat (blob_size r) = length b"
    "body = None \<or> body = Some r" "attach_body ops s body q = (s', q')" "sn_body q = None"
  shows "whole_body b q' \<and> invar s' \<and> stored s' = stored s"
proof (cases "body = None")
  case True
  with assms show ?thesis by (simp add: attach_body_def whole_body_def)
next
  case False
  obtain s1 cs where cs: "body_chunks ops s r 0 = (s1, cs)" by fastforce
  from body_chunks_exact[OF assms(1-4) _ cs] False assms(4-6) cs show ?thesis
    by (auto simp: attach_body_def whole_body_def)
qed

lemma open_loop_whole:
  assumes "invar s" "stored s (digest b) = Some bs" "validate_blob_ref b = Inr ()" "unat (blob_size b) = length bs"
    "body = None \<or> body = Some b" "\<forall>q \<in> set sent. whole_body bs q"
    "open_loop ul hl net ops g r left url verb body strip sent s = (s', sent', x)"
  shows "(\<forall>q \<in> set sent'. whole_body bs q) \<and> invar s' \<and> stored s' = stored s"
  using assms
proof (induction left arbitrary: url verb body strip sent s)
  case 0
  show ?case
  proof (cases "prepare_hop ul hl net g r sent url verb strip")
    case (Inl e)
    with 0 show ?thesis by simp
  next
    case (Inr q)
    obtain s1 q' where q': "attach_body ops s body q = (s1, q')" by fastforce
    have "s' = s1" "sent' = sent @ [q']" using 0(7) Inr q' by simp_all
    with attach_body_whole[OF 0(1-5) q' prepare_hop_Inr(4)[OF Inr]] 0(6) show ?thesis by simp
  qed
next
  case (Suc left)
  show ?case
  proof (cases "prepare_hop ul hl net g r sent url verb strip")
    case (Inl e)
    with Suc.prems show ?thesis by simp
  next
    case (Inr q)
    obtain s1 q' where q': "attach_body ops s body q = (s1, q')" by fastforce
    note w = attach_body_whole[OF Suc.prems(1-5) q' prepare_hop_Inr(4)[OF Inr]]
    from open_loop_Suc[OF Suc.prems(7) Inr q'] show ?thesis
    proof
      assume "s' = s1 \<and> sent' = sent @ [q']"
      with w Suc.prems(6) show ?thesis by simp
    next
      assume "\<exists>nurl m b' crossed. open_loop ul hl net ops g r left nurl m b' (strip \<or> crossed) (sent @ [q']) s1 = (s', sent', x) \<and>
          (b' = None \<or> b' = body) \<and> (\<not> crossed \<longrightarrow> url_origin ul url = url_origin ul nurl)"
      then obtain nurl m b' crossed where go: "open_loop ul hl net ops g r left nurl m b' (strip \<or> crossed) (sent @ [q']) s1 = (s', sent', x)"
        and b': "b' = None \<or> b' = body" by blast
      from Suc.IH[OF _ _ Suc.prems(3,4) _ _ go] w b' Suc.prems(2,5,6) show ?thesis by auto
    qed
  qed
qed

lemma open_response_whole:
  assumes "invar s" "rq_body r = Some b" "stored s (digest b) = Some bs" "validate_blob_ref b = Inr ()" "unat (blob_size b) = length bs"
    "open_response ul hl net ops g r s = (s', sent, x)"
  shows "(\<forall>q \<in> set sent. whole_body bs q) \<and> invar s' \<and> stored s' = stored s"
proof (cases "prepare_request ul hl g r")
  case (Inl e)
  with assms show ?thesis by (auto simp: open_response_def)
next
  case (Inr p)
  obtain url m where p: "p = (url, m)" by (cases p)
  have "open_loop ul hl net ops g r (unat (gr_max_redirects g)) url m (Some b) False [] s = (s', sent, x)"
    using assms(2,6) Inr p by (simp add: open_response_def)
  from open_loop_whole[OF assms(1,3,4,5) _ _ this] show ?thesis by simp
qed

end

section \<open>Server-sent events\<close>

text \<open>How a server writes events. A line names the event, adds a line of data, is a comment, or is none of these, which includes
  every line without a colon; a name or a value may follow a space; a line ends with a newline or with a carriage return and
  a newline. An empty line ends an event, and the last line of the body may lack its ending.\<close>

definition newline :: char where
  "newline = CHR 0x0A"

datatype sse_item = NameField bool bytes | DataField bool bytes | CommentLine bytes | OtherLine bytes
datatype line_end = Lf | CrLf | Unended

definition spaced :: "bool \<Rightarrow> bytes \<Rightarrow> bytes" where
  "spaced sp v = (if sp then CHR '' '' # v else v)"

fun item_line :: "sse_item \<Rightarrow> bytes" where
  "item_line (NameField sp v) = ''event:'' @ spaced sp v"
| "item_line (DataField sp v) = ''data:'' @ spaced sp v"
| "item_line (CommentLine c) = CHR '':'' # c"
| "item_line (OtherLine l) = l"

fun end_text :: "line_end \<Rightarrow> bytes" where
  "end_text Lf = [newline]"
| "end_text CrLf = [CHR 0x0D, newline]"
| "end_text Unended = []"

definition plain_line :: "bytes \<Rightarrow> bool" where
  "plain_line l \<longleftrightarrow> newline \<notin> set l \<and> CHR 0x0D \<notin> set l"

text \<open>A value that starts with a space is written after a space; a name is UTF-8.\<close>

definition value_ok :: "bool \<Rightarrow> bytes \<Rightarrow> bool" where
  "value_ok sp v \<longleftrightarrow> sp \<or> v = [] \<or> hd v \<noteq> CHR '' ''"

fun item_ok :: "sse_item \<Rightarrow> bool" where
  "item_ok (NameField sp v) = (plain_line v \<and> value_ok sp v \<and> from_utf8_lossy v = v)"
| "item_ok (DataField sp v) = (plain_line v \<and> value_ok sp v)"
| "item_ok (CommentLine c) = plain_line c"
| "item_ok (OtherLine l) = (plain_line l \<and> l \<noteq> [] \<and> hd l \<noteq> CHR '':'' \<and>
     (CHR '':'' \<notin> set l \<or> takeWhile (\<lambda>b. b \<noteq> CHR '':'') l \<notin> {''event'', ''data''}))"

type_synonym written_line = "sse_item \<times> line_end"

definition line_text :: "written_line \<Rightarrow> bytes" where
  "line_text l = item_line (fst l) @ end_text (snd l)"

definition sse_text :: "written_line list \<times> line_end \<Rightarrow> bytes" where
  "sse_text e = concat (map line_text (fst e)) @ end_text (snd e)"

definition ended_line :: "written_line \<Rightarrow> bool" where
  "ended_line l \<longleftrightarrow> item_ok (fst l) \<and> snd l \<noteq> Unended"

definition sse_writable :: "written_line list \<times> line_end \<Rightarrow> bool" where
  "sse_writable e \<longleftrightarrow> list_all ended_line (fst e) \<and> snd e \<noteq> Unended"

definition tail_ok :: "written_line list \<Rightarrow> bool" where
  "tail_ok ls \<longleftrightarrow> list_all ended_line (butlast ls) \<and> (ls \<noteq> [] \<longrightarrow> item_ok (fst (last ls)))"

text \<open>What the lines of an event mean: the last name given, or \<open>message\<close>, and the data joined by newlines. Empty lines of data before
  the first one that is not empty are lost.\<close>

definition item_names :: "sse_item list \<Rightarrow> string list" where
  "item_names is = List.map_filter (\<lambda>i. case i of NameField _ v \<Rightarrow> Some v | _ \<Rightarrow> None) is"

definition item_values :: "sse_item list \<Rightarrow> bytes list" where
  "item_values is = List.map_filter (\<lambda>i. case i of DataField _ v \<Rightarrow> Some v | _ \<Rightarrow> None) is"

definition frame_of :: "written_line list \<Rightarrow> http_frame" where
  "frame_of ls = \<lparr>fr_kind = last (''message'' # item_names (map fst ls)),
     fr_data = join_with [newline] (dropWhile (\<lambda>l. l = []) (item_values (map fst ls)))\<rparr>"

lemma takeWhile_first: "x \<notin> set l \<Longrightarrow> takeWhile (\<lambda>b. b \<noteq> x) (l @ x # r) = l"
  by (induction l) auto

lemma body_lines_step: "newline \<notin> set l \<Longrightarrow> body_lines (l @ newline # r) = (l @ [newline]) # body_lines r"
  by (subst body_lines.simps) (simp add: takeWhile_first newline_def)

lemma trim_plain: "plain_line l \<Longrightarrow> trim_line_ending (l @ end_text e) = l"
  by (cases e) (auto simp: trim_line_ending_def newline_def plain_line_def Let_def butlast_append dest: last_in_set)

lemma item_line_plain: "item_ok i \<Longrightarrow> plain_line (item_line i) \<and> item_line i \<noteq> []"
  by (cases i) (auto simp: plain_line_def newline_def spaced_def)

lemma sse_field_named: "CHR '':'' \<notin> set n \<Longrightarrow> value_ok sp v \<Longrightarrow> sse_field (n @ CHR '':'' # spaced sp v) e = (if n = e then Some v else None)"
  using takeWhile_first[of "CHR '':''" n "spaced sp v"] by (auto simp: sse_field_def Let_def spaced_def value_ok_def split: list.splits)

lemma sse_field_other: "CHR '':'' \<notin> set l \<or> takeWhile (\<lambda>b. b \<noteq> CHR '':'') l \<noteq> e \<Longrightarrow> sse_field l e = None"
  by (auto simp: sse_field_def Let_def)

definition add_value :: "bytes \<Rightarrow> bytes \<Rightarrow> bytes" where
  "add_value d l = (if d \<noteq> [] then d @ [newline] else d) @ l"

fun item_step :: "sse_item \<Rightarrow> string \<times> bytes \<Rightarrow> string \<times> bytes" where
  "item_step (NameField _ v) (event, data) = (v, data)"
| "item_step (DataField _ v) (event, data) = (event, add_value data v)"
| "item_step _ ed = ed"

lemma sse_line_item: "item_ok i \<Longrightarrow> sse_line (item_line i) ed = Inr (item_step i ed)"
proof (cases ed, cases i)
  fix event data sp v
  assume "item_ok i" "ed = (event, data)" "i = NameField sp v"
  then show ?thesis using sse_field_named[of "''event''" sp v "''event''"] by (simp add: sse_line_def)
next
  fix event data sp v
  assume "item_ok i" "ed = (event, data)" "i = DataField sp v"
  then show ?thesis using sse_field_named[of "''data''" sp v "''data''"] sse_field_named[of "''data''" sp v "''event''"]
    by (simp add: sse_line_def add_value_def newline_def)
next
  fix event data l
  assume "item_ok i" "ed = (event, data)" "i = OtherLine l"
  then show ?thesis using sse_field_other[of l "''event''"] sse_field_other[of l "''data''"] by (auto simp: sse_line_def)
qed (auto simp: sse_line_def)

lemma parse_sse_size:
  assumes "unat tot + length line \<le> unat maximum"
  shows "\<exists>tot'. unat tot' = unat tot + length line \<and> parse_sse taken maximum tot (Inr line # ls) (event, data) out =
    (let line = trim_line_ending line in
     if line = [] then (case emit_sse_frame taken event data out of
         Inl e \<Rightarrow> (out, Inl e) | Inr out \<Rightarrow> parse_sse taken maximum tot' ls (''message'', []) out)
     else case sse_line line (event, data) of Inl e \<Rightarrow> (out, Inl e) | Inr ed \<Rightarrow> parse_sse taken maximum tot' ls ed out)"
proof -
  have "unat tot + length line < 2 ^ 64" using assms unat_u64_less[of maximum] by (simp del: unat_u64_less)
  note a = advance_len[OF this]
  have "\<not> maximum < tot + of_nat (length line)" using assms a(3) by (simp add: word_less_nat_alt)
  with a show ?thesis by (intro exI[of _ "tot + of_nat (length line)"]) simp
qed

lemma parse_sse_blank:
  assumes "unat tot + length (end_text e) \<le> unat maximum"
  shows "\<exists>tot'. unat tot' = unat tot + length (end_text e) \<and> parse_sse (\<lambda>_. True) maximum tot (Inr (end_text e) # ls) (event, data) out =
    parse_sse (\<lambda>_. True) maximum tot' ls (''message'', []) (if data = [] then out else out @ [\<lparr>fr_kind = event, fr_data = data\<rparr>])"
proof -
  have "trim_line_ending (end_text e) = []" using trim_plain[of "[]" e] by (simp add: plain_line_def)
  then show ?thesis using parse_sse_size[OF assms, of "\<lambda>_. True" ls event data out] by (auto simp: emit_sse_frame_def send_frame_to_def)
qed

lemma parse_sse_lines:
  assumes "list_all (\<lambda>l. item_ok (fst l)) ws" "unat tot + length (concat (map line_text ws)) \<le> unat maximum"
  shows "\<exists>tot'. unat tot' = unat tot + length (concat (map line_text ws)) \<and>
    parse_sse taken maximum tot (map (\<lambda>l. Inr (line_text l)) ws @ ls) ed out = parse_sse taken maximum tot' ls (fold item_step (map fst ws) ed) out"
  using assms
proof (induction ws arbitrary: tot ed)
  case (Cons l ws)
  have ok: "item_ok (fst l)" and le: "unat tot + length (line_text l) \<le> unat maximum" using Cons.prems by simp_all
  obtain event data where ed: "ed = (event, data)" by (cases ed)
  have "trim_line_ending (line_text l) = item_line (fst l)" using trim_plain item_line_plain[OF ok] by (simp add: line_text_def)
  then obtain t1 where t1: "unat t1 = unat tot + length (line_text l)"
    "parse_sse taken maximum tot (Inr (line_text l) # map (\<lambda>l. Inr (line_text l)) ws @ ls) ed out =
      parse_sse taken maximum t1 (map (\<lambda>l. Inr (line_text l)) ws @ ls) (item_step (fst l) ed) out"
    using parse_sse_size[OF le, of taken "map (\<lambda>l. Inr (line_text l)) ws @ ls" event data out] item_line_plain[OF ok] sse_line_item[OF ok] ed by auto
  have "unat t1 + length (concat (map line_text ws)) \<le> unat maximum" "list_all (\<lambda>l. item_ok (fst l)) ws" using Cons.prems t1(1) by simp_all
  from Cons.IH[OF this(2,1), of "item_step (fst l) ed"] t1 show ?case by (auto simp: add.assoc)
qed auto

lemma join_with_Cons: "join_with [c] (x # xs) = x @ concat (map ((#) c) xs)"
  by (induction xs arbitrary: x) simp_all

lemma data_joined:
  "foldl add_value d ls = (if d = [] then join_with [newline] (dropWhile (\<lambda>l. l = []) ls) else d @ concat (map ((#) newline) ls))"
proof (induction ls arbitrary: d)
  case Nil
  then show ?case by simp
next
  case (Cons l ls)
  show ?case unfolding foldl_Cons Cons.IH by (auto simp: join_with_Cons add_value_def)
qed

lemma fold_item_step: "fold item_step is (event, data) = (last (event # item_names is), foldl add_value data (item_values is))"
proof (induction "is" arbitrary: event data)
  case (Cons i "is")
  then show ?case by (cases i) (auto simp: item_names_def item_values_def map_filter_simps)
qed (simp add: item_names_def item_values_def map_filter_simps)

lemma frame_eta [simp]: "\<lparr>fr_kind = fr_kind f, fr_data = fr_data f\<rparr> = (f :: http_frame)"
  by (cases f) simp

lemma frame_of_lines: "fold item_step (map fst ls) (''message'', []) = (fr_kind (frame_of ls), fr_data (frame_of ls))"
  by (simp add: fold_item_step frame_of_def data_joined)

text \<open>The lines of one event, and reading it.\<close>

definition sse_event_lines :: "written_line list \<times> line_end \<Rightarrow> bytes list" where
  "sse_event_lines e = map line_text (fst e) @ [end_text (snd e)]"

lemma body_lines_ended:
  assumes "plain_line l" "e \<noteq> Unended"
  shows "body_lines (l @ end_text e @ r) = (l @ end_text e) # body_lines r"
proof (cases e)
  case Lf
  then show ?thesis using assms(1) body_lines_step[of l r] by (simp add: plain_line_def)
next
  case CrLf
  then show ?thesis using assms(1) body_lines_step[of "l @ [CHR 0x0D]" r] by (simp add: plain_line_def newline_def)
next
  case Unended
  then show ?thesis using assms(2) by simp
qed

lemma body_lines_unended:
  assumes "plain_line l" "l \<noteq> []"
  shows "body_lines l = [l]"
proof -
  have "takeWhile (\<lambda>b. b \<noteq> CHR 0x0A) l = l" using assms(1) by (auto simp: plain_line_def newline_def)
  from arg_cong[OF this, of length] show ?thesis using assms(2) by (subst body_lines.simps) (simp only: Let_def if_False if_True simp_thms)
qed

lemma body_lines_written: "list_all ended_line ls \<Longrightarrow> body_lines (concat (map line_text ls) @ r) = map line_text ls @ body_lines r"
proof (induction ls)
  case (Cons l ls)
  then have "plain_line (item_line (fst l))" "snd l \<noteq> Unended" using item_line_plain by (auto simp: ended_line_def)
  from body_lines_ended[OF this] Cons show ?case by (simp add: line_text_def)
qed simp

lemma body_lines_event:
  assumes "sse_writable e"
  shows "body_lines (sse_text e @ r) = sse_event_lines e @ body_lines r"
proof -
  have "body_lines (end_text (snd e) @ r) = end_text (snd e) # body_lines r"
    using body_lines_ended[of "[]" "snd e" r] assms by (simp add: sse_writable_def plain_line_def)
  then show ?thesis using assms by (simp add: sse_text_def sse_event_lines_def sse_writable_def body_lines_written)
qed

lemma body_lines_tail:
  assumes "tail_ok ls"
  shows "body_lines (concat (map line_text ls)) = map line_text ls"
proof (cases ls rule: rev_cases)
  case Nil
  then show ?thesis by (simp add: body_lines.simps)
next
  case (snoc us l)
  have us: "list_all ended_line us" and ok: "item_ok (fst l)" using assms snoc by (simp_all add: tail_ok_def)
  note p = item_line_plain[OF ok]
  have "body_lines (line_text l) = [line_text l]"
  proof (cases "snd l = Unended")
    case True
    then show ?thesis using p body_lines_unended by (simp add: line_text_def)
  next
    case False
    then show ?thesis using body_lines_ended[of "item_line (fst l)" "snd l" "[]"] p by (simp add: line_text_def body_lines.simps[of "[]"])
  qed
  then show ?thesis using body_lines_written[OF us, of "line_text l"] snoc by simp
qed

lemma body_lines_text:
  "list_all sse_writable es \<Longrightarrow> tail_ok ls \<Longrightarrow>
    body_lines (concat (map sse_text es) @ concat (map line_text ls)) = concat (map sse_event_lines es) @ map line_text ls"
  by (induction es) (simp_all add: body_lines_event body_lines_tail)

lemma parse_sse_event:
  assumes "sse_writable e" "unat tot + length (sse_text e) \<le> unat maximum"
  shows "\<exists>tot'. unat tot' = unat tot + length (sse_text e) \<and>
    parse_sse (\<lambda>_. True) maximum tot (map Inr (sse_event_lines e) @ ls) (''message'', []) out =
      parse_sse (\<lambda>_. True) maximum tot' ls (''message'', []) (out @ filter (\<lambda>f. fr_data f \<noteq> []) [frame_of (fst e)])"
proof -
  let ?f = "frame_of (fst e)"
  have len: "length (sse_text e) = length (concat (map line_text (fst e))) + length (end_text (snd e))" by (simp add: sse_text_def)
  have "list_all (\<lambda>l. item_ok (fst l)) (fst e)" using assms(1) by (auto simp: sse_writable_def ended_line_def list_all_iff)
  moreover have "unat tot + length (concat (map line_text (fst e))) \<le> unat maximum" using assms(2) len by linarith
  ultimately obtain t1 where t1: "unat t1 = unat tot + length (concat (map line_text (fst e)))"
    "parse_sse (\<lambda>_. True) maximum tot (map (\<lambda>l. Inr (line_text l)) (fst e) @ Inr (end_text (snd e)) # ls) (''message'', []) out =
      parse_sse (\<lambda>_. True) maximum t1 (Inr (end_text (snd e)) # ls) (fr_kind ?f, fr_data ?f) out"
    using parse_sse_lines[of "fst e" tot maximum "\<lambda>_. True" "Inr (end_text (snd e)) # ls"] unfolding frame_of_lines[symmetric] by blast
  have "unat t1 + length (end_text (snd e)) \<le> unat maximum" using assms(2) len t1(1) by linarith
  from parse_sse_blank[OF this] obtain t2 where t2: "unat t2 = unat t1 + length (end_text (snd e))"
    "parse_sse (\<lambda>_. True) maximum t1 (Inr (end_text (snd e)) # ls) (fr_kind ?f, fr_data ?f) out =
     parse_sse (\<lambda>_. True) maximum t2 ls (''message'', []) (if fr_data ?f = [] then out else out @ [\<lparr>fr_kind = fr_kind ?f, fr_data = fr_data ?f\<rparr>])"
    by blast
  have lines: "map Inr (sse_event_lines e) @ ls = map (\<lambda>l. Inr (line_text l)) (fst e) @ Inr (end_text (snd e)) # ls"
    by (simp add: sse_event_lines_def)
  show ?thesis unfolding lines t1(2) t2(2) using len t1(1) t2(1) by (intro exI[of _ t2]) simp
qed

lemma parse_sse_tail:
  assumes "tail_ok ls" "unat tot + length (concat (map line_text ls)) \<le> unat maximum"
  shows "parse_sse (\<lambda>_. True) maximum tot (map (\<lambda>l. Inr (line_text l)) ls) (''message'', []) out =
    (out @ filter (\<lambda>f. fr_data f \<noteq> []) [frame_of ls], Inr ())"
proof -
  have "list_all (\<lambda>l. item_ok (fst l)) ls"
    using assms(1) by (cases ls rule: rev_cases) (auto simp: tail_ok_def ended_line_def list_all_iff)
  from parse_sse_lines[OF this assms(2), of "\<lambda>_. True" "[]" "(''message'', [])" out] show ?thesis
    by (auto simp: frame_of_lines emit_sse_frame_def send_frame_to_def)
qed

lemma parse_sse_events:
  assumes "list_all sse_writable es" "tail_ok ls" "unat tot + length (concat (map sse_text es) @ concat (map line_text ls)) \<le> unat maximum"
  shows "parse_sse (\<lambda>_. True) maximum tot (map Inr (concat (map sse_event_lines es) @ map line_text ls)) (''message'', []) out =
    (out @ filter (\<lambda>f. fr_data f \<noteq> []) (map (\<lambda>e. frame_of (fst e)) es @ [frame_of ls]), Inr ())"
  using assms
proof (induction es arbitrary: tot out)
  case Nil
  then show ?case using parse_sse_tail[of ls tot maximum out] by (simp add: comp_def)
next
  case (Cons e es)
  have "unat tot + length (sse_text e) \<le> unat maximum" "sse_writable e" using Cons.prems by simp_all
  from parse_sse_event[OF this(2,1)] obtain t where t: "unat t = unat tot + length (sse_text e)"
    "parse_sse (\<lambda>_. True) maximum tot (map Inr (sse_event_lines e) @ map Inr (concat (map sse_event_lines es) @ map line_text ls)) (''message'', []) out =
      parse_sse (\<lambda>_. True) maximum t (map Inr (concat (map sse_event_lines es) @ map line_text ls)) (''message'', []) (out @ filter (\<lambda>f. fr_data f \<noteq> []) [frame_of (fst e)])"
    by blast
  have "unat t + length (concat (map sse_text es) @ concat (map line_text ls)) \<le> unat maximum" "list_all sse_writable es" using Cons.prems t(1) by simp_all
  from Cons.IH[OF this(2) Cons.prems(2) this(1)] t(2) show ?case by simp
qed

lemma sse_text_read:
  assumes "list_all sse_writable es" "tail_ok ls" "length (concat (map sse_text es) @ concat (map line_text ls)) \<le> unat maximum"
  shows "parse_sse (\<lambda>_. True) maximum 0 (map Inr (body_lines (concat (map sse_text es) @ concat (map line_text ls)))) (''message'', []) [] =
    (filter (\<lambda>f. fr_data f \<noteq> []) (map (\<lambda>e. frame_of (fst e)) es @ [frame_of ls]), Inr ())"
  unfolding body_lines_text[OF assms(1,2)] using parse_sse_events[OF assms(1,2), of 0 maximum "[]"] assms(3) by simp

lemma response_lines_whole: "response_lines bs (map Inr ps) = map Inr (body_lines (bs @ concat ps))"
  by (induction ps arbitrary: bs) simp_all

lemma sse_worker:
  assumes "list_all sse_writable es" "tail_ok ls" "wr_chunks w = map Inr ps" "concat ps = concat (map sse_text es) @ concat (map line_text ls)"
    "length (concat ps) \<le> unat maximum"
  shows "stream_worker (\<lambda>_. True) ServerSentEvents maximum w =
    map Inr (filter (\<lambda>f. fr_data f \<noteq> []) (map (\<lambda>e. frame_of (fst e)) es @ [frame_of ls]))"
proof -
  have "read_sse (\<lambda>_. True) maximum w = (filter (\<lambda>f. fr_data f \<noteq> []) (map (\<lambda>e. frame_of (fst e)) es @ [frame_of ls]), Inr ())"
    unfolding read_sse_def assms(3) response_lines_whole append_Nil assms(4) by (rule sse_text_read) (use assms in simp_all)
  then show ?thesis by (simp add: stream_worker_def)
qed

lemma pieces_concat: "concat (pieces bs) = bs"
  by (induction bs rule: pieces.induct) (subst pieces.simps, simp)

lemma pieces_nonempty: "p \<in> set (pieces bs) \<Longrightarrow> p \<noteq> []"
proof (induction bs rule: pieces.induct)
  case (1 bs)
  have "0 < unat transfer_chunk_bytes" by (simp add: transfer_chunk_bytes_def)
  moreover have "bs \<noteq> []" using 1(2) by (auto simp: pieces.simps[of "[]"])
  ultimately show ?case using 1 by (auto simp: pieces.simps[of bs])
qed

lemma read_bytes_all:
  assumes "\<forall>c \<in> set rs. c \<noteq> []" "unat tot + length (concat rs) \<le> unat maximum"
  shows "read_bytes (\<lambda>_. True) maximum tot (map Inr rs) out = (out @ map (\<lambda>c. \<lparr>fr_kind = ''bytes'', fr_data = c\<rparr>) rs, Inr ())"
  using assms
proof (induction rs arbitrary: tot out)
  case Nil
  then show ?case by simp
next
  case (Cons c rs)
  have le: "unat tot + length c \<le> unat maximum" using Cons.prems(2) by simp
  then have "unat tot + length c < 2 ^ 64" using unat_u64_less[of maximum] by (simp del: unat_u64_less)
  note a = advance_len[OF this]
  have "\<not> maximum < tot + of_nat (length c)" using le a(3) by (simp add: word_less_nat_alt)
  with Cons a show ?case by (simp add: send_frame_to_def)
qed

lemma response_reads_whole: "response_reads (map Inr ps) = map Inr (concat (map pieces ps))"
  by (induction ps) simp_all

lemma concat_pieces: "concat (concat (map pieces ps)) = concat ps"
  by (induction ps) (simp_all add: pieces_concat)

lemma bytes_worker:
  assumes "wr_chunks w = map Inr ps" "length (concat ps) \<le> unat maximum"
  shows "\<exists>fs. stream_worker (\<lambda>_. True) ByteStream maximum w = map Inr fs \<and> concat (map fr_data fs) = concat ps"
proof -
  let ?rs = "concat (map pieces ps)"
  have "read_bytes (\<lambda>_. True) maximum 0 (map Inr ?rs) [] = ([] @ map (\<lambda>c. \<lparr>fr_kind = ''bytes'', fr_data = c\<rparr>) ?rs, Inr ())"
    using pieces_nonempty assms(2) by (intro read_bytes_all) (auto simp: concat_pieces)
  then have "stream_worker (\<lambda>_. True) ByteStream maximum w = map Inr (map (\<lambda>c. \<lparr>fr_kind = ''bytes'', fr_data = c\<rparr>) ?rs)"
    unfolding stream_worker_def assms(1) response_reads_whole by simp
  moreover have "concat (map fr_data (map (\<lambda>c. \<lparr>fr_kind = ''bytes'', fr_data = c\<rparr>) ?rs)) = concat ps" by (simp add: comp_def concat_pieces)
  ultimately show ?thesis by blast
qed

section \<open>Streams of different components\<close>

datatype stream_op =
    StartOp http_grant wire_response
  | ReceiveOp http_grant string u32 u32 arrival
  | CloseOp http_grant string

fun stream_op_grant :: "stream_op \<Rightarrow> http_grant" where
  "stream_op_grant (StartOp g _) = g"
| "stream_op_grant (ReceiveOp g _ _ _ _) = g"
| "stream_op_grant (CloseOp g _) = g"

fun serve :: "http_service \<Rightarrow> stream_op \<Rightarrow> http_service" where
  "serve sv (StartOp g w) = fst (start_stream g w sv)"
| "serve sv (ReceiveOp g i n t a) = fst (receive g i n t a sv)"
| "serve sv (CloseOp g i) = close_stream g i sv"

text \<open>Every stream of the service was numbered by it.\<close>

definition service_wf :: "http_service \<Rightarrow> bool" where
  "service_wf sv \<longleftrightarrow> (\<forall>i \<in> dom (sv_streams sv). \<exists>n. n < sv_next sv \<and> i = ''http-stream-'' @ show_u64 n)"

lemma serve_foreign:
  assumes "service_wf sv" "sv_next sv \<noteq> - 1" "sv_streams sv i = Some st" "gr_component (stream_op_grant p) \<noteq> st_component st"
  shows "sv_streams (serve sv p) i = Some st"
proof (cases p)
  case (StartOp g w)
  have "i \<noteq> ''http-stream-'' @ show_u64 (sv_next sv)"
  proof
    assume i: "i = ''http-stream-'' @ show_u64 (sv_next sv)"
    obtain n where "n < sv_next sv" "i = ''http-stream-'' @ show_u64 n" using assms(1,3) unfolding service_wf_def by blast
    with i show False by simp
  qed
  with StartOp assms(3) show ?thesis by (auto simp: start_stream_def Let_def)
next
  case (ReceiveOp g j n t a)
  have "fst (receive g j n t a sv) = sv" if "j = i"
    using that assms(3,4) ReceiveOp by (auto simp: receive_def ensure_stream_owner_def)
  moreover have "sv_streams (fst (receive g j n t a sv)) i = Some st" if "j \<noteq> i"
    using that assms(3) by (auto simp: receive_def Let_def split: sum.splits prod.splits)
  ultimately show ?thesis using ReceiveOp assms(3) by (cases "j = i") auto
next
  case (CloseOp g j)
  with assms(3,4) show ?thesis by (auto simp: close_stream_def is_some_and_iff)
qed

lemma serve_wf:
  assumes "service_wf sv" "sv_next sv \<noteq> - 1"
  shows "service_wf (serve sv p)" and "unat (sv_next (serve sv p)) \<le> unat (sv_next sv) + 1"
proof -
  have "1 + sv_next sv \<noteq> 0" using assms(2) add_eq_0_iff[of 1 "sv_next sv"] by blast
  from unatSuc[OF this] have next1: "unat (sv_next sv + 1) = unat (sv_next sv) + 1" by (simp add: add.commute)
  have "service_wf (serve sv p) \<and> unat (sv_next (serve sv p)) \<le> unat (sv_next sv) + 1"
  proof (cases p)
    case (StartOp g w)
    have later: "n < sv_next sv \<Longrightarrow> n < sv_next sv + 1" for n using next1 by (simp add: word_less_nat_alt)
    have new: "sv_next sv < sv_next sv + 1" using next1 by (simp add: word_less_nat_alt)
    show ?thesis
    proof (cases "is_some_and (\<lambda>n. gr_max_response_bytes g < n) (wr_content_length w)")
      case True
      with StartOp assms(1) show ?thesis by (simp add: start_stream_def)
    next
      case False
      let ?i = "''http-stream-'' @ show_u64 (sv_next sv)"
      have sv': "dom (sv_streams (serve sv p)) = insert ?i (dom (sv_streams sv))" "sv_next (serve sv p) = sv_next sv + 1"
        using False StartOp by (simp_all add: start_stream_def Let_def)
      have "\<exists>n. n < sv_next (serve sv p) \<and> j = ''http-stream-'' @ show_u64 n" if "j \<in> dom (sv_streams (serve sv p))" for j
      proof (cases "j = ?i")
        case True
        with new sv'(2) show ?thesis by (intro exI[of _ "sv_next sv"]) simp
      next
        case False
        with that sv'(1) have "j \<in> dom (sv_streams sv)" by blast
        then obtain n where "n < sv_next sv" "j = ''http-stream-'' @ show_u64 n" using assms(1) unfolding service_wf_def by blast
        with later[of n] sv'(2) show ?thesis by (intro exI[of _ n]) simp
      qed
      then show ?thesis unfolding service_wf_def using sv'(2) next1 by simp
    qed
  next
    case (ReceiveOp g j n t a)
    have "dom (sv_streams (fst (receive g j n t a sv))) = dom (sv_streams sv)" "sv_next (fst (receive g j n t a sv)) = sv_next sv"
      by (auto simp: receive_def Let_def ok_or_def rbind_def split: sum.splits prod.splits option.splits if_splits)
    with ReceiveOp assms(1) show ?thesis by (simp add: service_wf_def)
  next
    case (CloseOp g j)
    with assms(1) show ?thesis by (auto simp: close_stream_def service_wf_def)
  qed
  then show "service_wf (serve sv p)" "unat (sv_next (serve sv p)) \<le> unat (sv_next sv) + 1" by simp_all
qed

lemma serve_all_foreign:
  assumes "service_wf sv" "unat (sv_next sv) + length ps < 2 ^ 64 - 1" "sv_streams sv i = Some st"
    "\<forall>p \<in> set ps. gr_component (stream_op_grant p) \<noteq> st_component st"
  shows "sv_streams (foldl serve sv ps) i = Some st"
  using assms
proof (induction ps arbitrary: sv)
  case Nil
  then show ?case by simp
next
  case (Cons p ps)
  have n: "sv_next sv \<noteq> - 1"
  proof
    assume "sv_next sv = - 1"
    then have "unat (sv_next sv) = 2 ^ 64 - 1" by (simp add: unsigned_minus_1_eq_mask mask_eq_exp_minus_1)
    with Cons.prems(2) show False by simp
  qed
  note w = serve_wf[OF Cons.prems(1) n, of p]
  have "unat (sv_next (serve sv p)) + length ps < 2 ^ 64 - 1" using w(2) Cons.prems(2) by simp
  with Cons.IH[OF w(1) _ serve_foreign[OF Cons.prems(1) n Cons.prems(3)]] Cons.prems(4) show ?case by simp
qed

lemma receive_foreign:
  assumes "sv_streams sv i = Some st" "gr_component g \<noteq> st_component st"
  shows "\<exists>e. receive g i n t a sv = (sv, Inl e)"
  using assms by (auto simp: receive_def ensure_stream_owner_def)

lemma drain_order: "drain n q ended fs = (q', Inr (fs', closed)) \<Longrightarrow> map Inr fs @ q = map Inr fs' @ q'"
  by (induction n q ended fs rule: drain.induct) auto

text \<open>A failure behind frames that are already there takes them with it: the call returns the error, and the frames taken in
  the same call are neither returned nor left in the queue.\<close>

lemma receive_drops:
  assumes "sv_streams sv i = Some st" "gr_component g = st_component st" "\<not> st_closed st" "st_queue st = [Inr f, Inl e]"
    "1 < n" "n \<le> 256" "t \<le> gr_max_timeout_ms g"
  shows "\<exists>sv' st'. receive g i n t a sv = (sv', Inl e) \<and> sv_streams sv' i = Some st' \<and> st_queue st' = []"
proof -
  have "1 < unat n" using assms(5) by (simp add: word_less_nat_alt)
  then obtain k where k: "unat n = Suc (Suc k)" by (metis One_nat_def Suc_diff_Suc Suc_lessD gr0_conv_Suc not_less_eq zero_less_Suc)
  have "n \<noteq> 0" "\<not> 256 < n" "\<not> gr_max_timeout_ms g < t" using assms(5-7) by auto
  then show ?thesis using assms(1-4) k by (simp add: receive_def ensure_stream_owner_def)
qed

section \<open>Exchanges outside the durable store\<close>

lemma open_loop_answer:
  "open_loop ul hl net ops g r left url verb body strip sent s = (s', sent', Inr w) \<Longrightarrow>
     \<exists>front q. sent' = front @ [q] \<and> net_send net front q = Inr w"
proof (induction left arbitrary: url verb body strip sent s)
  case 0
  then obtain q where q: "prepare_hop ul hl net g r sent url verb strip = Inr q"
    by (cases "prepare_hop ul hl net g r sent url verb strip") auto
  obtain s1 q' where q': "attach_body ops s body q = (s1, q')" by fastforce
  obtain v where "net_send net sent q' = Inr v" "w = v" using 0 q q' by (auto split: if_splits)
  with 0 q q' show ?case by auto
next
  case (Suc left)
  then obtain q where q: "prepare_hop ul hl net g r sent url verb strip = Inr q"
    by (cases "prepare_hop ul hl net g r sent url verb strip") auto
  obtain s1 q' where q': "attach_body ops s body q = (s1, q')" by fastforce
  obtain v where v: "net_send net sent q' = Inr v"
    using Suc.prems q q' by (cases "net_send net sent q'") auto
  obtain target where tg: "redirect_target ul hl url v = Inr target"
    using Suc.prems q q' v by (cases "redirect_target ul hl url v") auto
  show ?case
  proof (cases target)
    case None
    with Suc.prems q q' v tg show ?thesis by auto
  next
    case (Some nurl)
    obtain a b where ab: "canonical_origin ul url = Inr a" "canonical_origin ul nurl = Inr b"
      using Suc.prems q q' v tg Some by (cases "canonical_origin ul url"; cases "canonical_origin ul nurl") auto
    obtain m c where "redirected (wr_status v) verb body = (m, c)" by fastforce
    with Suc.prems q q' v tg Some ab
    have "open_loop ul hl net ops g r left nurl m c (strip \<or> a \<noteq> b) (sent @ [q']) s1 = (s', sent', Inr w)" by simp
    from Suc.IH[OF this] show ?thesis .
  qed
qed

lemma open_response_answer:
  assumes "open_response ul hl net ops g r s = (s', sent, Inr w)"
  shows "sent \<noteq> [] \<and> net_send net (butlast sent) (last sent) = Inr w"
proof -
  obtain url m where "open_loop ul hl net ops g r (unat (gr_max_redirects g)) url m (rq_body r) False [] s = (s', sent, Inr w)"
    using assms by (auto simp: open_response_def split: sum.splits prod.splits)
  from open_loop_answer[OF this] show ?thesis by auto
qed

lemma open_loop_no_body:
  "open_loop ul hl net ops g r left url verb None strip sent s = (s', sent', x) \<Longrightarrow> s' = s"
proof (induction left arbitrary: url verb strip sent)
  case 0
  then show ?case by (auto simp: attach_body_def split: sum.splits)
next
  case (Suc left)
  show ?case
  proof (cases "prepare_hop ul hl net g r sent url verb strip")
    case (Inl e)
    with Suc.prems show ?thesis by simp
  next
    case (Inr q)
    have q': "attach_body ops s None q = (s, q)" by (simp add: attach_body_def)
    from open_loop_Suc[OF Suc.prems Inr q'] Suc.IH show ?thesis by blast
  qed
qed

lemma open_response_no_body: "open_response ul hl net ops g r s = (s', sent, x) \<Longrightarrow> rq_body r = None \<Longrightarrow> s' = s"
  using open_loop_no_body by (auto simp: open_response_def split: sum.splits prod.splits)

context blob_store begin

lemma inline_body_stored:
  assumes "invar s" "stored s = Map.empty" "inline_body ops s bs = (s', Inr body)" "length (hex bs) = 64" "list_all is_lower_hex (hex bs)"
  shows "invar s' \<and> (body = None \<and> stored s' = Map.empty \<or>
    (\<exists>b. body = Some b \<and> digest b = hex bs \<and> unat (blob_size b) = length bs \<and> validate_blob_ref b = Inr () \<and> stored s' = [hex bs \<mapsto> bs]))"
proof (cases "bs = []")
  case True
  with assms show ?thesis by (simp add: inline_body_def)
next
  case False
  let ?sz = "Some (of_nat (length bs))"
  obtain s1 i where b: "op_begin_put ops s ''application/json'' ?sz = (s1, Inr i)"
    using assms(3) False by (auto simp: inline_body_def split: prod.splits sum.splits)
  obtain s2 k where w: "op_write ops s1 i 0 bs = (s2, Inr k)"
    using assms(3) False b by (auto simp: inline_body_def split: prod.splits sum.splits)
  obtain r where f: "op_finish_put ops s2 i = (s', Inr r)" and body: "body = Some r"
    using assms(3) False b w by (auto simp: inline_body_def split: prod.splits sum.splits)
  note b1 = begin_ok[OF assms(1) b]
  have up1: "upload s1 i = Some (''application/json'', ?sz, [])" using b1 by simp
  have w1: "upload s2 = (upload s1)(i \<mapsto> (''application/json'', ?sz, bs))" "stored s2 = stored s1" "invar s2"
    using write_end[OF _ up1 _ w] b1 by simp_all
  then have up2: "upload s2 i = Some (''application/json'', ?sz, bs)" by simp
  have "stored s2 (hex bs) \<in> {None, Some bs}" using w1(2) b1 assms(2) by simp
  from finish_ok[OF w1(3) up2 finish_size[OF w1(3) up2 f] this] f
  have r: "algorithm r = sha256_algorithm" "digest r = hex bs" "unat (blob_size r) = length bs" "media_type r = ''application/json''"
    "stored s' = (stored s2)(hex bs \<mapsto> bs)" "invar s'" by auto
  moreover have "validate_blob_ref r = Inr ()" using r assms(4,5) b1 by (simp add: validate_blob_ref_Inr)
  ultimately show ?thesis using body w1(2) b1 assms(2) by simp
qed

lemma inline_read_exact:
  assumes "invar s" "stored s (digest r) = Some b" "validate_blob_ref r = Inr ()" "unat (blob_size r) = length b" "bs = take (length bs) b"
  shows "inline_read ops s r bs = Some (Inr b)"
  using assms
proof (induction "length b - length bs" arbitrary: s bs rule: less_induct)
  case less
  have lb: "length b < 2 ^ 64" using unat_u64_less[of "blob_size r"] less.prems(4) by simp
  have le: "length bs \<le> length b" using less.prems(5) by (metis length_take min.cobounded1)
  have un: "unat (of_nat (length bs) :: u64) = length bs" using lb le by (simp add: unat_of_nat)
  show ?case
  proof (cases "length bs = length b")
    case True
    then have "bs = b" using less.prems(5) by simp
    with True less.prems(4) un show ?thesis by (subst inline_read.simps) (simp add: word_le_nat_alt)
  next
    case False
    have lt: "\<not> blob_size r \<le> of_nat (length bs)" using False le un less.prems(4) by (simp add: word_le_nat_alt)
    let ?c = "take (unat (64 * 1024 :: u64)) (drop (length bs) b)"
    from read_ok[OF less.prems(1-4), of "of_nat (length bs)" "64 * 1024"] un le
    obtain s1 e where rd: "op_read ops s r (of_nat (length bs)) (64 * 1024) = (s1, Inr \<lparr>chunk_bytes = ?c, eof = e\<rparr>)"
      and s1: "stored s1 = stored s" "invar s1" by auto
    have take: "bs @ ?c = take (length bs + unat (64 * 1024 :: u64)) b" by (subst take_add) (use less.prems(5) in simp)
    then have step: "bs @ ?c = take (length (bs @ ?c)) b" by (metis append_take_drop_id append_eq_conv_conj)
    have "0 < length ?c" using False le by simp
    then have "length b - length (bs @ ?c) < length b - length bs" using False le by simp
    from less.hyps[OF this s1(2) _ less.prems(3,4) step] s1(1) less.prems(2)
    have "inline_read ops s1 r (bs @ ?c) = Some (Inr b)" by simp
    with lt rd show ?thesis by (subst inline_read.simps) simp
  qed
qed

lemma execute_inline:
  assumes "invar s" "rq_body r = body" "execute ul hl net ops g r s = (s', sent, Inr p)"
    and body: "body = None \<and> stored s = Map.empty \<or> (\<exists>b. body = Some b \<and> digest b = hex bs \<and> unat (blob_size b) = length bs \<and>
      validate_blob_ref b = Inr () \<and> stored s = [hex bs \<mapsto> bs])"
    and hex: "\<And>x. length (hex x) = 64 \<and> list_all is_lower_hex (hex x)" and inj: "\<And>x. hex x = hex bs \<Longrightarrow> x = bs"
  shows "\<exists>w ps. sent \<noteq> [] \<and> net_send net (butlast sent) (last sent) = Inr w \<and> wr_status w = hr_status p \<and> wr_chunks w = map Inr ps \<and>
    length (concat ps) \<le> unat (gr_max_response_bytes g) \<and> inline_read ops s' (hr_body p) [] = Some (Inr (concat ps))"
proof -
  obtain s1 w where o: "open_response ul hl net ops g r s = (s1, sent, Inr w)"
    and st: "store_response (header_to_str hl) ops s1 w (gr_max_response_bytes g) = (s', Inr p)"
    using assms(3) by (auto simp: execute_def split: prod.splits sum.splits)
  have s1: "invar s1 \<and> stored s1 = stored s"
  proof (cases body)
    case None
    with open_response_no_body[OF o] assms(1,2) show ?thesis by simp
  next
    case (Some b)
    with body open_response_whole[OF assms(1) _ _ _ _ o, of b bs] assms(2) show ?thesis by auto
  qed
  have "stored s1 (hex (concat ps)) \<in> {None, Some (concat ps)}" for ps
    using s1 body inj[of "concat ps"] by (cases "hex (concat ps) = hex bs") auto
  from store_response_frame[OF _ st this] s1 obtain ps where ps: "hr_status p = wr_status w" "algorithm (hr_body p) = sha256_algorithm"
    "validate_media_type (media_type (hr_body p)) = Inr ()" "wr_chunks w = map Inr ps" "length (concat ps) \<le> unat (gr_max_response_bytes g)"
    "digest (hr_body p) = hex (concat ps)" "unat (blob_size (hr_body p)) = length (concat ps)"
    "stored s' = (stored s1)(hex (concat ps) \<mapsto> concat ps)" "invar s'" by auto
  have "validate_blob_ref (hr_body p) = Inr ()" using ps hex[of "concat ps"] by (simp add: validate_blob_ref_Inr)
  from inline_read_exact[OF ps(9) _ this ps(7), of "[]"] ps(6,8) have "inline_read ops s' (hr_body p) [] = Some (Inr (concat ps))" by simp
  with open_response_answer[OF o] ps show ?thesis by auto
qed

end

section \<open>The properties\<close>

text \<open>C29: Every request the HTTP host sends for a component stays within the component's grant, whatever the network answers. At most
  one request more than the granted redirects is sent, never more than six. Each of them, and not only the first, uses HTTPS or a granted
  plain HTTP, goes to a granted origin with a granted method, and to addresses that are public unless private ones are
  granted. Its headers are headers of the component's request without the ones that belong to a connection, and its body is within the
  granted size. Headers that carry credentials are sent only while every request so far went to the origin of the
  first.\<close>

theorem http_confined:
  assumes "open_response ul hl net ops g r s = (s', sent, x)"
  shows "length sent \<le> Suc (unat (gr_max_redirects g)) \<and> length sent \<le> 6 \<and> list_all (hop_ok ul hl g r) sent \<and> credentials_home ul sent"
  using open_response_confined[OF assms] by (simp add: confined_trace_def list_all_iff)

definition demo_urls :: "nat url_lib" where
  "demo_urls = (let parse = (\<lambda>s. if s = ''https://a.example/'' then Some 0 else if s = ''https://b.example/'' then Some 1 else None) in
     \<lparr>url_parse = parse, url_credentials = (\<lambda>_. False), url_fragment = (\<lambda>_. False), url_scheme = (\<lambda>_. ''https''),
      url_host = (\<lambda>u. Some (if u = 0 then ''a.example'' else ''b.example'')), url_cannot_be_base = (\<lambda>_. False),
      url_origin = (\<lambda>u. if u = 0 then ''https://a.example'' else ''https://b.example''), url_port = (\<lambda>_. Some 443),
      url_join = (\<lambda>_. parse)\<rparr>)"

definition demo_http :: http_lib where
  "demo_http = \<lparr>method_from_bytes = Some, header_name = (\<lambda>n. Some (to_ascii_lowercase n)), header_value_ok = (\<lambda>_. True), header_to_str = Some\<rparr>"

definition demo_net :: "nat network" where
  "demo_net = \<lparr>net_time_left = (\<lambda>_ _. True), net_lookup = (\<lambda>_ _ _. Resolved [V4 \<lparr>o1 = 93, o2 = 184, o3 = 216, o4 = 34\<rparr>]), net_client = (\<lambda>_. True),
     net_send = (\<lambda>_ q. Inr (if sn_url q = 0
       then \<lparr>wr_status = 302, wr_headers = [\<lparr>hh_name = ''location'', hh_value = ''https://b.example/''\<rparr>], wr_content_length = None, wr_chunks = []\<rparr>
       else \<lparr>wr_status = 200, wr_headers = [], wr_content_length = None, wr_chunks = [Inr ''o'', Inr ''k'']\<rparr>))\<rparr>"

definition demo_http_grant :: http_grant where
  "demo_http_grant = \<lparr>gr_component = new_principal Component ''web'', gr_origins = [''https://a.example/'', ''https://b.example/''],
     gr_methods = [''get'', ''post''], gr_allow_http = False, gr_allow_private = False, gr_max_request_bytes = 100, gr_max_response_bytes = 100,
     gr_max_redirects = 1, gr_max_timeout_ms = 1000\<rparr>"

definition demo_http_request :: http_request where
  "demo_http_request = \<lparr>rq_method = ''GET'', rq_url = ''https://a.example/'', rq_headers = [\<lparr>hh_name = ''Authorization'', hh_value = ''secret''\<rparr>,
     \<lparr>hh_name = ''Accept'', hh_value = ''text/plain''\<rparr>], rq_body = None, rq_timeout_ms = 500\<rparr>"

definition demo_sent :: "nat sent list" where
  "demo_sent = fst (snd (open_response demo_urls demo_http demo_net (mem_ops demo_sha) demo_http_grant demo_http_request (new_memory_blobs 100)))"

lemma demo_prepare: "prepare_request demo_urls demo_http demo_http_grant demo_http_request = Inr (0, ''GET'')"
  by (simp add: prepare_request_def Let_def demo_urls_def demo_http_def demo_http_grant_def demo_http_request_def max_timeout_ms_def max_redirects_def
      header_bytes_def max_header_bytes_def saturating_add_def)

definition demo_hop :: "nat \<Rightarrow> bool \<Rightarrow> nat sent" where
  "demo_hop u strip = \<lparr>sn_url = u, sn_addresses = [V4 \<lparr>o1 = 93, o2 = 184, o3 = 216, o4 = 34\<rparr>], sn_method = ''GET'',
     sn_headers = (if strip then [] else [\<lparr>hh_name = ''authorization'', hh_value = ''secret''\<rparr>]) @ [\<lparr>hh_name = ''accept'', hh_value = ''text/plain''\<rparr>],
     sn_body = None\<rparr>"

lemma demo_headers: "prepare_headers demo_http strip (rq_headers demo_http_request) = Inr (sn_headers (demo_hop u strip))"
  by (simp add: demo_http_def demo_http_request_def demo_hop_def to_ascii_lowercase_def is_hop_by_hop_def is_credential_header_def) code_simp

lemma demo_prepare_hop:
  assumes "u = 0 \<or> u = 1"
  shows "prepare_hop demo_urls demo_http demo_net demo_http_grant demo_http_request sent u ''GET'' strip = Inr (demo_hop u strip)"
proof -
  have "method_granted demo_http_grant ''GET''" by code_simp
  then have "validate_destination demo_urls demo_http_grant u ''GET'' = Inr (url_origin demo_urls u)"
    using assms by (auto simp: validate_destination_def canonical_origin_def origin_granted_def demo_urls_def demo_http_grant_def Let_def)
  moreover have "is_public_address (V4 \<lparr>o1 = 93, o2 = 184, o3 = 216, o4 = 34\<rparr>)" by code_simp
  then have "resolve_destination demo_urls demo_http_grant (net_lookup demo_net sent) u = Inr (sn_addresses (demo_hop u strip))"
    by (simp add: resolve_destination_def demo_urls_def demo_net_def demo_hop_def Let_def)
  moreover have "build_client demo_urls (net_client demo_net sent) u = Inr ()" by (simp add: build_client_def demo_urls_def demo_net_def Let_def)
  ultimately show ?thesis
    by (simp add: prepare_hop_def demo_headers[of _ u]) (simp add: demo_net_def demo_hop_def)
qed

lemma demo_sends:
  "open_response demo_urls demo_http demo_net ops demo_http_grant demo_http_request s =
     (s, [demo_hop 0 False, demo_hop 1 True], Inr \<lparr>wr_status = 200, wr_headers = [], wr_content_length = None, wr_chunks = [Inr ''o'', Inr ''k'']\<rparr>)"
proof -
  have n: "unat (gr_max_redirects demo_http_grant) = Suc 0" by (simp add: demo_http_grant_def)
  have body: "rq_body demo_http_request = None" by (simp add: demo_http_request_def)
  let ?to = "\<lparr>wr_status = 302, wr_headers = [\<lparr>hh_name = ''location'', hh_value = ''https://b.example/''\<rparr>], wr_content_length = None, wr_chunks = []\<rparr>"
    and ?ok = "\<lparr>wr_status = 200, wr_headers = [], wr_content_length = None, wr_chunks = [Inr ''o'', Inr ''k'']\<rparr>"
  have send: "net_send demo_net sent (demo_hop 0 b) = Inr ?to" "net_send demo_net sent (demo_hop 1 b) = Inr ?ok" for sent b
    by (simp_all add: demo_net_def demo_hop_def)
  have target: "redirect_target demo_urls demo_http 0 ?to = Inr (Some 1)" "redirect_target demo_urls demo_http 1 ?ok = Inr None"
    by (simp_all add: redirect_target_def demo_http_def demo_urls_def Let_def)
  have origin: "canonical_origin demo_urls 0 = Inr ''https://a.example''" "canonical_origin demo_urls 1 = Inr ''https://b.example''"
    by (simp_all add: canonical_origin_def demo_urls_def Let_def)
  show ?thesis
    unfolding open_response_def demo_prepare sum.case prod.case n body
    using demo_prepare_hop[of 0] demo_prepare_hop[of 1] send target origin by (simp add: attach_body_def redirected_def)
qed

theorem http_confined_witness:
  "map (\<lambda>q. map hh_name (sn_headers q)) demo_sent = [[''authorization'', ''accept''], [''accept'']] \<and>
   list_all (hop_ok demo_urls demo_http demo_http_grant demo_http_request) demo_sent \<and> credentials_home demo_urls demo_sent"
proof -
  obtain s' sent x where run: "open_response demo_urls demo_http demo_net (mem_ops demo_sha) demo_http_grant demo_http_request (new_memory_blobs 100) = (s', sent, x)"
    by (rule prod_cases3)
  then have sent: "demo_sent = sent" by (simp add: demo_sent_def)
  moreover have "map (\<lambda>q. map hh_name (sn_headers q)) demo_sent = [[''authorization'', ''accept''], [''accept'']]"
    by (simp add: demo_sent_def demo_sends demo_hop_def)
  ultimately show ?thesis using http_confined[OF run] by simp
qed

text \<open>C39: Server-sent events are read as they were written. The body holds events and possibly the start of one more, as lines
  that name the event, add data, are comments or are none of these; lines end with a newline or with a carriage return and a newline,
  and the last one may lack its ending; names and values may follow a space, hold no line ending, and names are UTF-8. In
  whatever chunks the body arrives, within the granted size and with a reader that takes every frame, the queue gets exactly one
  frame for each event with data, the unfinished one included, in order. A frame carries the last name its own event gives, or
  \<open>message\<close> if it gives none, and the event's data lines joined by newlines from the first one that is not empty.\<close>

theorem sse_roundtrip:
  assumes "list_all sse_writable es" and "tail_ok ls" and "wr_chunks w = map Inr ps"
    and "concat ps = concat (map sse_text es) @ concat (map line_text ls)" and "length (concat ps) \<le> unat maximum"
  shows "stream_worker (\<lambda>_. True) ServerSentEvents maximum w =
    map Inr (filter (\<lambda>f. fr_data f \<noteq> []) (map (\<lambda>e. frame_of (fst e)) es @ [frame_of ls]))"
  using assms by (rule sse_worker)

abbreviation demo_events :: "(written_line list \<times> line_end) list" where
  "demo_events \<equiv> [([(NameField True ''delta'', CrLf), (DataField True ''a'', Lf), (CommentLine ''c'', Lf), (DataField False ''b'', Lf)], CrLf),
     ([(NameField True ''ping'', Lf)], Lf), ([(OtherLine ''id: 7'', Lf), (DataField True ''m'', Lf)], Lf)]"

abbreviation demo_chunks :: "bytes list" where
  "demo_chunks \<equiv> [''event: del'', ''ta'' @ [CHR 0x0D, newline] @ ''data: a'' @ [newline], '':c'' @ [newline] @ ''data:b'' @ [newline, CHR 0x0D], [newline],
     ''event: ping'' @ [newline, newline] @ ''id: 7'' @ [newline], ''data: m'' @ [newline, newline] @ ''data: end'']"

theorem sse_roundtrip_witness:
  "stream_worker (\<lambda>_. True) ServerSentEvents 100 \<lparr>wr_status = 200, wr_headers = [], wr_content_length = None, wr_chunks = map Inr demo_chunks\<rparr> =
   [Inr \<lparr>fr_kind = ''delta'', fr_data = ''a'' @ [newline] @ ''b''\<rparr>, Inr \<lparr>fr_kind = ''message'', fr_data = ''m''\<rparr>, Inr \<lparr>fr_kind = ''message'', fr_data = ''end''\<rparr>]"
proof -
  let ?ls = "[(DataField True ''end'', Unended)]"
  have a: "list_all sse_writable demo_events" by code_simp
  have t: "tail_ok ?ls" by code_simp
  have b: "concat demo_chunks = concat (map sse_text demo_events) @ concat (map line_text ?ls)" by (simp add: sse_text_def line_text_def spaced_def)
  have c: "length (concat demo_chunks) \<le> unat (100 :: u64)" by simp
  have d: "filter (\<lambda>f. fr_data f \<noteq> []) (map (\<lambda>e. frame_of (fst e)) demo_events @ [frame_of ?ls]) =
    [\<lparr>fr_kind = ''delta'', fr_data = ''a'' @ [newline] @ ''b''\<rparr>, \<lparr>fr_kind = ''message'', fr_data = ''m''\<rparr>, \<lparr>fr_kind = ''message'', fr_data = ''end''\<rparr>]"
    by (simp add: frame_of_def item_names_def item_values_def map_filter_simps)
  show ?thesis
    using sse_roundtrip[OF a t _ b c, of "\<lparr>wr_status = 200, wr_headers = [], wr_content_length = None, wr_chunks = map Inr demo_chunks\<rparr>"] d by simp
qed

text \<open>C40: A stream belongs to the component that opened it. No sequence of calls of other components - opening, receiving, closing -
  changes it or takes a frame from it, as long as the counter of streams does not wrap, and a receive of another component returns an
  error and leaves the service as it is.\<close>

theorem streams_isolated:
  assumes "service_wf sv" and "unat (sv_next sv) + length ps < 2 ^ 64 - 1" and "sv_streams sv i = Some st"
    and "list_all (\<lambda>p. gr_component (stream_op_grant p) \<noteq> st_component st) ps"
  shows "sv_streams (foldl serve sv ps) i = Some st \<and>
    (gr_component g = st_component st \<or> (\<exists>e. receive g i n t a (foldl serve sv ps) = (foldl serve sv ps, Inl e)))"
proof -
  have st: "sv_streams (foldl serve sv ps) i = Some st" using serve_all_foreign[OF assms(1-3)] assms(4) by (simp add: list_all_iff)
  with receive_foreign[OF this] show ?thesis by blast
qed

definition demo_service :: http_service where
  "demo_service = fst (start_stream demo_http_grant \<lparr>wr_status = 200, wr_headers = [], wr_content_length = None, wr_chunks = []\<rparr>
     \<lparr>sv_streams = Map.empty, sv_next = 0\<rparr>)"

definition other_grant :: http_grant where
  "other_grant = demo_http_grant\<lparr>gr_component := new_principal Component ''other''\<rparr>"

theorem streams_isolated_witness:
  "\<exists>st. sv_streams (foldl serve demo_service [CloseOp other_grant ''http-stream-0'', ReceiveOp other_grant ''http-stream-0'' 1 0 Ends]) ''http-stream-0'' = Some st \<and>
     st_component st = new_principal Component ''web''"
proof -
  let ?st = "\<lparr>st_component = new_principal Component ''web'', st_queue = [], st_ended = False, st_closed = False\<rparr>"
  have id0: "''http-stream-'' @ show_u64 0 = ''http-stream-0''" by code_simp
  have sv: "demo_service = \<lparr>sv_streams = [''http-stream-0'' \<mapsto> ?st], sv_next = 1\<rparr>"
    unfolding demo_service_def start_stream_def Let_def using id0 by (simp add: demo_http_grant_def)
  have wf: "service_wf demo_service" unfolding service_wf_def sv using id0 by (auto intro!: exI[of _ 0])
  have "new_principal Component ''other'' \<noteq> new_principal Component ''web''" by code_simp
  then show ?thesis
    using streams_isolated[OF wf, of "[CloseOp other_grant ''http-stream-0'', ReceiveOp other_grant ''http-stream-0'' 1 0 Ends]" "''http-stream-0''" ?st]
    by (simp add: sv other_grant_def)
qed

text \<open>C38: An exchange whose payloads stay out of the durable store always returns, and returns the response as it came: when it succeeds, its status and
  its bytes are those of the answer to the last request that was sent, all of them and within the grant. The digest is
  an argument; the premises state its length and that no other content has the digest of the request's body.\<close>

theorem inline_exchange_exact:
  assumes "\<And>c. length (sha c) = 32" and "\<And>c. sha256_hex sha c = sha256_hex sha bs \<Longrightarrow> c = bs"
  shows "\<exists>sent y. exchange_inline sha ul hl net g verb url headers bs timeout_ms = Some (sent, y) \<and> (case y of Inl _ \<Rightarrow> True | Inr (status, body) \<Rightarrow>
    sent \<noteq> [] \<and> (\<exists>w ps. net_send net (butlast sent) (last sent) = Inr w \<and> wr_status w = status \<and> wr_chunks w = map Inr ps \<and>
      body = concat ps \<and> length body \<le> unat (gr_max_response_bytes g)))"
proof -
  have hex: "length (sha256_hex sha c) = 64 \<and> list_all is_lower_hex (sha256_hex sha c)" for c using sha256_hex_wf[of sha c] assms(1) by simp
  obtain s x where b: "inline_body (mem_ops sha) (new_memory_blobs (64 * 1024 * 1024)) bs = (s, x)" by fastforce
  show ?thesis
  proof (cases "gr_max_request_bytes g < of_nat (length bs) \<or> (\<exists>e. x = Inl e)")
    case True
    with b show ?thesis by (auto simp: exchange_inline_def)
  next
    case False
    then obtain body where x: "x = Inr body" by (cases x) auto
    let ?r = "\<lparr>rq_method = verb, rq_url = url, rq_headers = headers, rq_body = body, rq_timeout_ms = timeout_ms\<rparr>"
    obtain s' sent y where e: "execute ul hl net (mem_ops sha) g ?r s = (s', sent, y)" by (rule prod_cases3)
    have new: "mem_invar sha (new_memory_blobs (64 * 1024 * 1024))" "blobs (new_memory_blobs (64 * 1024 * 1024)) = Map.empty"
      by (rule mem_invar_new, simp add: new_memory_blobs_def)
    have st: "mem_invar sha s \<and> (body = None \<and> blobs s = Map.empty \<or> (\<exists>b. body = Some b \<and> digest b = sha256_hex sha bs \<and>
        unat (blob_size b) = length bs \<and> validate_blob_ref b = Inr () \<and> blobs s = [sha256_hex sha bs \<mapsto> bs]))"
      using mem.inline_body_stored[OF new b[unfolded x]] hex by blast
    show ?thesis
    proof (cases y)
      case (Inl e')
      with False b x e show ?thesis by (simp add: exchange_inline_def)
    next
      case (Inr p)
      from mem.execute_inline[OF _ _ e[unfolded Inr] _ hex assms(2), of body] st
      obtain w ps where "sent \<noteq> []" "net_send net (butlast sent) (last sent) = Inr w" "wr_status w = hr_status p" "wr_chunks w = map Inr ps"
        "length (concat ps) \<le> unat (gr_max_response_bytes g)" "inline_read (mem_ops sha) s' (hr_body p) [] = Some (Inr (concat ps))" by auto
      with False b x e Inr show ?thesis by (auto simp: exchange_inline_def)
    qed
  qed
qed

definition marking_sha :: "bytes \<Rightarrow> bytes" where
  "marking_sha c = replicate 32 (if c = [] then CHR 0x00 else CHR 0x01)"

lemma marking_hex: "sha256_hex marking_sha c = sha256_hex marking_sha [] \<Longrightarrow> c = []"
proof (rule ccontr)
  assume eq: "sha256_hex marking_sha c = sha256_hex marking_sha []" and c: "c \<noteq> []"
  have "concat (map hex_byte (replicate 32 (CHR 0x01))) \<noteq> concat (map hex_byte (replicate 32 (CHR 0x00)))" by code_simp
  with eq c show False by (simp only: sha256_hex_def marking_sha_def if_False if_True refl simp_thms)
qed

lemma demo_stored:
  "\<exists>s p. execute demo_urls demo_http demo_net (mem_ops marking_sha) demo_http_grant demo_http_request (new_memory_blobs (64 * 1024 * 1024)) =
     (s, [demo_hop 0 False, demo_hop 1 True], Inr p)"
proof -
  let ?w = "\<lparr>wr_status = 200, wr_headers = [], wr_content_length = None, wr_chunks = map Inr [''o'', ''k'']\<rparr>"
  have m: "validate_media_type (response_media_type (header_to_str demo_http) ?w) = Inr ()"
    unfolding response_media_type_def by code_simp
  have "\<exists>s p. store_response (header_to_str demo_http) (mem_ops marking_sha) (new_memory_blobs (64 * 1024 * 1024)) ?w (gr_max_response_bytes demo_http_grant) = (s, Inr p)"
    by (rule mem.store_response_ok[OF mem_invar_new _ m, where ps = "[''o'', ''k'']"])
      (simp_all add: new_memory_blobs_def header_bytes_def max_header_bytes_def demo_http_grant_def)
  then show ?thesis by (auto simp: execute_def demo_sends)
qed

theorem inline_exchange_exact_witness:
  "\<exists>sent. exchange_inline marking_sha demo_urls demo_http demo_net demo_http_grant ''GET'' ''https://a.example/'' (rq_headers demo_http_request) [] 500 =
     Some (sent, Inr (200, ''ok''))"
proof -
  have sha: "length (marking_sha c) = 32" for c by (simp add: marking_sha_def)
  obtain s p where e: "execute demo_urls demo_http demo_net (mem_ops marking_sha) demo_http_grant demo_http_request (new_memory_blobs (64 * 1024 * 1024)) =
     (s, [demo_hop 0 False, demo_hop 1 True], Inr p)" using demo_stored by blast
  let ?x = "exchange_inline marking_sha demo_urls demo_http demo_net demo_http_grant ''GET'' ''https://a.example/'' (rq_headers demo_http_request) [] 500"
  have x: "?x = map_option (\<lambda>z. ([demo_hop 0 False, demo_hop 1 True], rbind z (\<lambda>bs. Inr (hr_status p, bs)))) (inline_read (mem_ops marking_sha) s (hr_body p) [])"
    using e by (simp add: exchange_inline_def inline_body_def demo_http_request_def)
  from inline_exchange_exact[of marking_sha "[]" demo_urls demo_http demo_net demo_http_grant "''GET''" "''https://a.example/''" "rq_headers demo_http_request" 500,
    OF sha marking_hex]
  obtain sent y where y: "?x = Some (sent, y)" and ok: "case y of Inl _ \<Rightarrow> True | Inr (status, body) \<Rightarrow>
    sent \<noteq> [] \<and> (\<exists>w ps. net_send demo_net (butlast sent) (last sent) = Inr w \<and> wr_status w = status \<and> wr_chunks w = map Inr ps \<and>
      body = concat ps \<and> length body \<le> unat (gr_max_response_bytes demo_http_grant))" by blast
  have sent: "sent = [demo_hop 0 False, demo_hop 1 True]"
    using trans[OF x[symmetric] y] by (cases "inline_read (mem_ops marking_sha) s (hr_body p) []") auto
  have hex: "length (sha256_hex marking_sha c) = 64 \<and> list_all is_lower_hex (sha256_hex marking_sha c)" for c
    using sha256_hex_wf[of marking_sha c] sha by simp
  have "rq_body demo_http_request = None" "blobs (new_memory_blobs (64 * 1024 * 1024)) = Map.empty"
    by (simp_all add: demo_http_request_def new_memory_blobs_def)
  then obtain bs where "inline_read (mem_ops marking_sha) s (hr_body p) [] = Some (Inr bs)"
    using mem.execute_inline[OF mem_invar_new _ e _ hex marking_hex, of None] by auto
  then have "y = Inr (hr_status p, bs)" using trans[OF x[symmetric] y] by simp
  with ok sent have "hr_status p = 200" "bs = ''ok''" by (auto simp: demo_net_def demo_hop_def)
  with y \<open>y = Inr (hr_status p, bs)\<close> show ?thesis by auto
qed

end
