(* ===== verification/Spec2Isabelle.thy ===== *)
theory Spec2Isabelle
  imports Sqlite_Store Sqlite_Scan Credentials Host_Blobs Net Packages Origin_Authority Host_Facts Scheduler_Facts Http_Facts
begin

text \<open>
  A verification development of Pluribus, a host for agents whose components are Wasm plugins that exchange events on
  an append-only log.

  \<^bold>\<open>The program and its parts.\<close> An agent is a stream of events in a store. A component instance gets the events it subscribed to from a
  router, one batch at a time, works through the imports its host gives it, and ends with an outcome: events it proposes, changes of its
  own state, and a cursor, which the store commits in one transaction. A capability request is such an event; the router
  gates it by the authority of the observation that caused it and records the decision, and only the instance the decision names may
  answer, after its attempt was admitted. Blobs hold what is too large for an event. Outbound HTTP goes through
  a host service under a grant. The scheduler is a plugin that turns time into observations.

  \<^bold>\<open>Theories and sources.\<close> Paths are below \<open>src/\<close>; crates are named without \<open>crates/pluribus-\<close>. Definitions keep the names of the source.

  \<^item> \<open>Prelude\<close>, \<open>Json\<close>: machine integers, results, byte strings, UTF-8, decimal text, ordered maps, JSON values; the functions of
    \<open>serde_json\<close> that are called are the record \<open>serde\<close>.
  \<^item> \<open>Events\<close>, \<open>Registry\<close>, \<open>Authority\<close>, \<open>Delivery\<close>, \<open>Net\<close>: \<open>core/src\<close> (\<open>event.rs\<close>, \<open>identity.rs\<close>, \<open>registry.rs\<close>,
    \<open>authority.rs\<close>, \<open>state.rs\<close>, \<open>delivery.rs\<close>, \<open>net.rs\<close>).
  \<^item> \<open>Sqlite_Events\<close>, \<open>Sqlite_State\<close>: \<open>store-sqlite/src/lib.rs\<close>. A database is a record of tables, a statement its effect on them, a
    transaction a function that undoes its changes on an error. \<open>Sqlite_Log\<close>, \<open>Sqlite_Scan\<close> and \<open>Sqlite_Store\<close> hold its theory, \<open>Credentials\<close>
    the credential records of \<open>core/src/secret.rs\<close> and of this store, and the imports that reach them.
  \<^item> \<open>Event_Store\<close>, \<open>Component_Store\<close>, \<open>Paging\<close>: the store traits as records of operations with their contracts as locales,
    interpreted on the SQLite store, and the loop that reads a stream in pages.
  \<^item> \<open>Blobs\<close>, \<open>File_Blobs\<close>: \<open>core/src/blob.rs\<close> and \<open>store-fs/src/lib.rs\<close>, both interpretations of the locale \<open>blob_store\<close>. \<open>Host_Blobs\<close>:
    the blob imports of \<open>runtime-wasm/src/lib.rs\<close> and the response storage of \<open>host-http/src/lib.rs\<close>, proved in that locale.
  \<^item> \<open>Manifest\<close>, \<open>Packages\<close>: \<open>plugin-package/src\<close>, over a tree of files.
  \<^item> \<open>Dispatch\<close>, \<open>Attempts\<close>, \<open>Dispatch_Facts\<close>: the router, \<open>cognition/src/dispatch.rs\<close>. \<open>Origin_Authority\<close>: \<open>cognition/src/authority.rs\<close>.
  \<^item> \<open>Host_Services\<close>, \<open>Instances\<close>, \<open>Runner\<close>, \<open>Host_Facts\<close>: the event and state imports, the life of an instance and the source loop,
    \<open>runtime-wasm/src/lib.rs\<close> and \<open>runner.rs\<close>. A component is an argument: a function over what its imports reach.
  \<^item> \<open>Http_Policy\<close>, \<open>Http_Facts\<close>: \<open>host-http/src/lib.rs\<close> and \<open>core/src/http.rs\<close>. The network is a record whose answers may depend on all that was sent.
  \<^item> \<open>Schedules\<close>, \<open>Schedule_Facts\<close>, \<open>Scheduler\<close>, \<open>Scheduler_Facts\<close>: \<open>plugins/scheduler/src\<close>, over the imports of any host (record
    \<open>plugin_host\<close>) and over the host of this development (\<open>wasm_host\<close>).

  \<^bold>\<open>What the lemmas show.\<close>

  \<^item> The store: the tables represent a log in every reachable state; an append, a query, a read and a scan do on the tables what their
    abstract counterparts do on the log; a delivery is all or nothing; history only grows; cursors and revisions do not go back; a
    credential changes only by a granted compare and swap.
  \<^item> Blobs: what is stored reads back byte for byte; a response is stored whole or not at all.
  \<^item> Packages: a package that loads is what its manifest declares; references are accepted exactly when they are consistent.
  \<^item> The router: loops return; polling is exact; decisions are final; attempts are admitted at most once, also in a race; the projection
    can be refreshed in steps.
  \<^item> Authorities: one that resolves was issued for an observation on the causal chain; derived observations keep their origin; untrusted
    origins get nothing; replies stay in their conversation.
  \<^item> The host: a component adds only stamped and permitted events, names only blobs it was given, pages through exactly what it may see,
    and its source loop answers each batch once.
  \<^item> HTTP: every request, redirects included, stays within the grant; streams belong to their component; server-sent events and
    inline bodies arrive as they were sent.
  \<^item> The scheduler: schedules stay well formed; occurrences have distinct keys; conversations do not interfere; the events it emits
    rebuild its state; what a schedule emits has the authority of the request that made or last changed it.

  \<^bold>\<open>Bounds and loops.\<close> The walks from a request to its origin stop after 4096 steps, in the router as in the scheduler, as in the source; the
  statement about schedules therefore asks that the request itself resolves in 4095. A redirect is followed at most five times.
  Loops over pages of the log or of a component's state are \<open>partial_function (option)\<close>; over the contracts of \<open>Event_Store\<close> and \<open>state_pages\<close>
  they are proved to return, for every page size that is not zero. All other loops are recursion over the data or have a termination
  proof. Integers keep their width: \<open>u64\<close> and \<open>u32\<close> are words, an \<open>i64\<close> is an integer whose range is checked where the source
  converts.

  \<^bold>\<open>Simplifications.\<close> A call that holds a lock, or a transaction, is one step. A wait of the source loop and the delivery that ends it are one
  step. The abort of an upload that a dropped response starts in a task of its own runs at once. Files: temporary files are written without
  failure in the store the theorems use, though \<open>file_write\<close> also models a partial write. A run of imports in \<open>Host_Facts\<close> consists of the event and
  blob imports; state, credentials and HTTP have theorems of their own and make no blob visible.
  Third-party packages (SQLite's engine and full-text search, SHA-256, serde, URL and header syntax, calendars, TOML, JSON Schema, WebAssembly) are
  arguments, and what is assumed of them is a named hypothesis: \<open>reads_back\<close>, \<open>snapshots_decode\<close>, \<open>strictly_later\<close>.

  \<^bold>\<open>Not modelled.\<close> The agent's own loop (\<open>cognition/src/agent.rs\<close>: tasks, back-off and quarantine), the Wasm engine with its WASI and socket
  glue, opening and migrating database files, building packages with cargo, the command line, logging, and the other plugins, which are
  guests bounded by the host and for the most part clients of remote services.
\<close>

end
